(* ===== verification/Prelude.thy ===== *)
theory Prelude
  imports Main "HOL-Library.AList" "HOL-Library.Word" "HOL-Library.Multiset"
begin

text \<open>
  Shared vocabulary of the FerrumKV development: the byte type, the error type of
  \<^verbatim>\<open>src/src/error/kind.rs\<close>, the machine bounds, the parts of the Rust standard library the
  sources use (decimal printing and \<^verbatim>\<open>str::parse\<close>, ASCII case mapping, saturating
  arithmetic), and the generic lemmas on association lists that carry the component proofs.
  A \<^verbatim>\<open>Vec<u8>\<close> is a list of \<^typ>\<open>char\<close>: a \<^typ>\<open>char\<close> is exactly one byte, so every
  byte string is binary safe and literals can be written as strings.
\<close>

unbundle bit_operations_syntax

section \<open>Bytes, machine bounds and results\<close>

type_synonym byte = char
type_synonym bytes = "char list"
type_synonym instant = nat
type_synonym u8 = "8 word"
type_synonym u16 = "16 word"
type_synonym u32 = "32 word"

abbreviation CR :: byte where "CR \<equiv> CHR 0x0D"
abbreviation LF :: byte where "LF \<equiv> CHR 0x0A"
abbreviation CRLF :: bytes where "CRLF \<equiv> [CHR 0x0D, CHR 0x0A]"

abbreviation i64_max :: int where "i64_max \<equiv> 9223372036854775807"
abbreviation i64_min :: int where "i64_min \<equiv> -9223372036854775808"
abbreviation u64_max :: nat where "u64_max \<equiv> 18446744073709551615"

named_theorems store_simps \<open>rewriting of the keyspace under insert, remove and lookup\<close>
named_theorems engine_simps \<open>projections of the engine state after an operation\<close>
named_theorems codec_simps \<open>decoders applied to the output of the encoders\<close>

datatype ferrum_error =
    IoError
  | Internal string
  | ParseError string
  | UnknownCommand bytes
  | WrongArity string
  | KeyTooLong nat nat
  | ValueTooLarge nat nat
  | OutOfMemory
  | PersistenceError string
  | AofNotEnabled

type_synonym 'a result = "ferrum_error + 'a"

abbreviation Ok :: "'a \<Rightarrow> 'e + 'a" where "Ok \<equiv> Inr"
abbreviation Err :: "'e \<Rightarrow> 'e + 'a" where "Err \<equiv> Inl"

section \<open>Arithmetic of the Rust standard library\<close>

text \<open>\<^verbatim>\<open>i64::checked_add\<close>, \<^verbatim>\<open>checked_neg\<close>, \<^verbatim>\<open>checked_mul\<close> and \<^verbatim>\<open>saturating_add\<close>.\<close>

definition in_i64 :: "int \<Rightarrow> bool" where
  "in_i64 n \<longleftrightarrow> i64_min \<le> n \<and> n \<le> i64_max"

definition checked_i64 :: "int \<Rightarrow> int option" where
  "checked_i64 n = (if in_i64 n then Some n else None)"

definition saturate_i64 :: "int \<Rightarrow> int" where
  "saturate_i64 n = max i64_min (min i64_max n)"

text \<open>Unsigned 64-bit addition that wraps (\<^verbatim>\<open>fetch_add\<close>) and one that saturates.\<close>

definition wrap_u64 :: "nat \<Rightarrow> nat" where
  "wrap_u64 n = n mod 18446744073709551616"

definition sat_add_u64 :: "nat \<Rightarrow> nat \<Rightarrow> nat" where
  "sat_add_u64 a b = min u64_max (a + b)"

lemma wrap_u64_small [simp]: "n \<le> u64_max \<Longrightarrow> wrap_u64 n = n"
  by (simp add: wrap_u64_def)

lemma wrap_u64_bound [simp]: "wrap_u64 n \<le> u64_max"
proof -
  have "n mod 18446744073709551616 < (18446744073709551616::nat)" by simp
  then show ?thesis unfolding wrap_u64_def by linarith
qed

lemma checked_i64_Some_iff [simp]: "checked_i64 n = Some m \<longleftrightarrow> in_i64 n \<and> m = n"
  by (auto simp: checked_i64_def)

lemma saturate_i64_in [simp]: "in_i64 (saturate_i64 n)"
  by (simp add: in_i64_def saturate_i64_def)

section \<open>ASCII\<close>

definition ascii_upper :: "byte \<Rightarrow> byte" where
  "ascii_upper c = (let n = of_char c :: nat in
     if 97 \<le> n \<and> n \<le> 122 then char_of (n - 32) else c)"

definition ascii_lower :: "byte \<Rightarrow> byte" where
  "ascii_lower c = (let n = of_char c :: nat in
     if 65 \<le> n \<and> n \<le> 90 then char_of (n + 32) else c)"

definition eq_ignore_ascii_case :: "bytes \<Rightarrow> bytes \<Rightarrow> bool" where
  "eq_ignore_ascii_case a b \<longleftrightarrow> map ascii_lower a = map ascii_lower b"

text \<open>\<^verbatim>\<open>u8::is_ascii_whitespace\<close>: space, tab, line feed, form feed, carriage return.\<close>

definition is_ascii_ws :: "byte \<Rightarrow> bool" where
  "is_ascii_ws c \<longleftrightarrow> (of_char c :: nat) \<in> {32, 9, 10, 12, 13}"

lemma of_char_nat_bound: "of_char c < (256::nat)"
  using of_char_mod_256 [of c, where 'a = nat] by (metis mod_less_divisor zero_less_numeral)

lemma of_char_char_of_small: "n < 256 \<Longrightarrow> (of_char (char_of n :: char) :: nat) = n"
  by simp

lemma ascii_upper_idem [simp]: "ascii_upper (ascii_upper c) = ascii_upper c"
proof (cases "97 \<le> (of_char c :: nat) \<and> (of_char c :: nat) \<le> 122")
  case True
  have "(of_char c - 32 :: nat) mod 256 = of_char c - 32"
    using of_char_nat_bound [of c] by (intro mod_less) linarith
  with True have "of_char (ascii_upper c) = (of_char c - 32 :: nat)"
    by (simp add: ascii_upper_def Let_def)
  then have "\<not> (97 \<le> (of_char (ascii_upper c) :: nat))"
    using True by linarith
  then show ?thesis by (simp add: ascii_upper_def [of "ascii_upper c"] Let_def)
next
  case False
  then have "ascii_upper c = c" by (auto simp: ascii_upper_def Let_def)
  then show ?thesis by simp
qed

section \<open>Decimal numbers\<close>

text \<open>\<^verbatim>\<open>to_string\<close> on unsigned and signed integers.\<close>

definition digit_char :: "nat \<Rightarrow> byte" where
  "digit_char d = char_of (48 + d)"

fun show_nat :: "nat \<Rightarrow> bytes" where
  "show_nat n = (if n < 10 then [digit_char n]
     else show_nat (n div 10) @ [digit_char (n mod 10)])"

declare show_nat.simps [simp del]

definition show_int :: "int \<Rightarrow> bytes" where
  "show_int n = (if n < 0 then CHR ''-'' # show_nat (nat (- n)) else show_nat (nat n))"

text \<open>
  \<^verbatim>\<open>str::parse\<close> for the integer types: an optional sign (\<^verbatim>\<open>-\<close> for signed types only), at least
  one ASCII digit and nothing else, and a range check. A byte string that is not UTF-8 holds a
  byte that is no digit, so the preceding \<^verbatim>\<open>str::from_utf8\<close> check adds no further failure.
\<close>

definition is_digit :: "byte \<Rightarrow> bool" where
  "is_digit c \<longleftrightarrow> 48 \<le> (of_char c :: nat) \<and> (of_char c :: nat) \<le> 57"

definition digit_val :: "byte \<Rightarrow> nat" where
  "digit_val c = of_char c - 48"

fun digits_val :: "nat \<Rightarrow> bytes \<Rightarrow> nat option" where
  "digits_val acc [] = Some acc"
| "digits_val acc (c # cs) =
     (if is_digit c then digits_val (acc * 10 + digit_val c) cs else None)"

definition parse_digits :: "bytes \<Rightarrow> nat option" where
  "parse_digits s = (if s = [] then None else digits_val 0 s)"

definition parse_unsigned :: "nat \<Rightarrow> bytes \<Rightarrow> nat option" where
  "parse_unsigned bound s =
     (case parse_digits (case s of c # cs \<Rightarrow> if c = CHR ''+'' then cs else s | [] \<Rightarrow> s) of
        None \<Rightarrow> None
      | Some n \<Rightarrow> if n \<le> bound then Some n else None)"

definition parse_i64 :: "bytes \<Rightarrow> int option" where
  "parse_i64 s =
     (case s of
        [] \<Rightarrow> None
      | c # cs \<Rightarrow>
          if c = CHR ''-'' then
            (case parse_digits cs of None \<Rightarrow> None | Some n \<Rightarrow> checked_i64 (- int n))
          else
            (case parse_digits (if c = CHR ''+'' then cs else s) of
               None \<Rightarrow> None | Some n \<Rightarrow> checked_i64 (int n)))"

lemma of_char_digit [simp]: "d < 10 \<Longrightarrow> (of_char (digit_char d) :: nat) = 48 + d"
  by (simp add: digit_char_def)

lemma is_digit_digit_char [simp]: "d < 10 \<Longrightarrow> is_digit (digit_char d)"
  by (simp add: is_digit_def)

lemma digit_val_digit_char [simp]: "d < 10 \<Longrightarrow> digit_val (digit_char d) = d"
  by (simp add: digit_val_def)

lemma digits_val_append:
  "digits_val acc (xs @ ys) =
     (case digits_val acc xs of None \<Rightarrow> None | Some a \<Rightarrow> digits_val a ys)"
  by (induction acc xs rule: digits_val.induct) auto

lemma show_nat_not_Nil [simp]: "show_nat n \<noteq> []"
  by (subst show_nat.simps) simp

lemma digits_val_show_nat [simp]: "digits_val 0 (show_nat n) = Some n"
proof (induction n rule: show_nat.induct)
  case (1 n)
  show ?case
  proof (cases "n < 10")
    case True
    then show ?thesis by (subst show_nat.simps) simp
  next
    case False
    with "1.IH" have "digits_val 0 (show_nat (n div 10)) = Some (n div 10)" by simp
    with False show ?thesis by (subst show_nat.simps) (simp add: digits_val_append)
  qed
qed

lemma show_nat_digits: "c \<in> set (show_nat n) \<Longrightarrow> is_digit c"
proof (induction n arbitrary: c rule: show_nat.induct)
  case (1 n)
  then show ?case
    by (cases "n < 10") (auto simp: show_nat.simps [of n])
qed

lemma is_digit_not_special:
  "is_digit c \<Longrightarrow> c \<noteq> CHR ''-'' \<and> c \<noteq> CHR ''+'' \<and> c \<noteq> CR \<and> c \<noteq> LF"
  by (auto simp: is_digit_def)

lemma parse_digits_show_nat [simp]: "parse_digits (show_nat n) = Some n"
  by (simp add: parse_digits_def)

lemma show_nat_Cons: "\<exists>c cs. show_nat n = c # cs \<and> is_digit c"
  by (metis list.set_intros(1) list.exhaust show_nat_digits show_nat_not_Nil)

lemma parse_unsigned_show_nat [simp, codec_simps]:
  "n \<le> b \<Longrightarrow> parse_unsigned b (show_nat n) = Some n"
  using show_nat_Cons [of n] parse_digits_show_nat [of n]
  by (auto simp: parse_unsigned_def dest!: is_digit_not_special simp del: parse_digits_show_nat)

lemma parse_i64_show_nat [simp, codec_simps]:
  "in_i64 (int n) \<Longrightarrow> parse_i64 (show_nat n) = Some (int n)"
  using show_nat_Cons [of n] parse_digits_show_nat [of n]
  by (auto simp: parse_i64_def dest!: is_digit_not_special simp del: parse_digits_show_nat)

lemma parse_i64_show_int [simp, codec_simps]:
  "in_i64 n \<Longrightarrow> parse_i64 (show_int n) = Some n"
proof (cases "n < 0")
  case True
  then show "in_i64 n \<Longrightarrow> ?thesis" by (simp add: show_int_def parse_i64_def)
next
  case False
  then show "in_i64 n \<Longrightarrow> ?thesis" by (simp add: show_int_def)
qed

lemma show_int_chars: "c \<in> set (show_int n) \<Longrightarrow> is_digit c \<or> c = CHR ''-''"
  by (auto simp: show_int_def dest: show_nat_digits split: if_splits)

lemma parse_i64_in: "parse_i64 s = Some n \<Longrightarrow> in_i64 n"
  by (auto simp: parse_i64_def split: list.splits if_splits option.splits)

section \<open>Association lists with distinct keys\<close>

text \<open>
  The keyspace \<^verbatim>\<open>HashMap\<close> and the \<^verbatim>\<open>IndexMap\<close> queues are association lists whose keys are
  distinct. The list order is the iteration order of the map: \<^verbatim>\<open>HashMap\<close> leaves it unspecified,
  so no theorem fixes it, and the step relation of the engine may permute it between any two
  commands.
\<close>

abbreviation keys_of :: "('k \<times> 'v) list \<Rightarrow> 'k list" where
  "keys_of m \<equiv> map fst m"

abbreviation well_keyed :: "('k \<times> 'v) list \<Rightarrow> bool" where
  "well_keyed m \<equiv> distinct (map fst m)"

lemma well_keyed_update [simp]: "well_keyed m \<Longrightarrow> well_keyed (AList.update k v m)"
  by (rule distinct_update)

lemma well_keyed_delete [simp]: "well_keyed m \<Longrightarrow> well_keyed (AList.delete k m)"
  by (rule distinct_delete)

lemma map_of_update_iff [simp, store_simps]:
  "map_of (AList.update k v m) k' = (if k' = k then Some v else map_of m k')"
  by (simp add: update_conv')

lemma map_of_delete_iff [simp, store_simps]:
  "map_of (AList.delete k m) k' = (if k' = k then None else map_of m k')"
  by (simp add: delete_conv')

lemma delete_absent [simp]: "map_of m k = None \<Longrightarrow> AList.delete k m = m"
  by (simp add: delete_idem map_of_eq_None_iff)

text \<open>The total cost of a map under a cost function, and its change under update and delete.\<close>

definition total :: "('k \<Rightarrow> 'v \<Rightarrow> nat) \<Rightarrow> ('k \<times> 'v) list \<Rightarrow> nat" where
  "total f m = sum_list (map (\<lambda>(k, v). f k v) m)"

lemma total_Nil [simp]: "total f [] = 0"
  by (simp add: total_def)

lemma total_Cons [simp]: "total f (p # m) = f (fst p) (snd p) + total f m"
  by (simp add: total_def case_prod_unfold)

lemma total_update:
  "well_keyed m \<Longrightarrow>
   total f (AList.update k v m) + (case map_of m k of None \<Rightarrow> 0 | Some w \<Rightarrow> f k w)
     = total f m + f k v"
proof (induction m)
  case Nil
  then show ?case by simp
next
  case (Cons p m)
  then show ?case by (cases p) (auto split: option.splits)
qed

lemma total_delete:
  "well_keyed m \<Longrightarrow>
   total f (AList.delete k m) + (case map_of m k of None \<Rightarrow> 0 | Some w \<Rightarrow> f k w) = total f m"
proof (induction m)
  case Nil
  then show ?case by simp
next
  case (Cons p m)
  show ?case
  proof (cases "fst p = k")
    case True
    then have "map_of m k = None" using Cons.prems by (auto simp: map_of_eq_None_iff)
    then show ?thesis using True by simp
  next
    case False
    then show ?thesis using Cons by simp
  qed
qed

lemma total_ge_member: "map_of m k = Some v \<Longrightarrow> f k v \<le> total f m"
  by (induction m) (auto split: if_splits)

lemma total_perm: "mset m = mset m' \<Longrightarrow> total f m = total f m'"
  by (simp add: total_def flip: sum_mset_sum_list)

lemma map_of_perm:
  assumes "well_keyed m" and "mset m = mset m'"
  shows "map_of m = map_of m'"
proof -
  from assms(2) have "set m = set m'" by (metis set_mset_mset)
  moreover from assms have "well_keyed m'"
    by (metis distinct_map distinct_card mset_map mset_eq_imp_distinct_iff)
  ultimately show ?thesis using assms(1) by (metis map_of_inject_set)
qed

end
