(* ===== verification/Eviction.thy ===== *)
theory Eviction
  imports Prelude Complex_Main "HOL-Library.Product_Lexorder"
begin

text \<open>
  Models \<^verbatim>\<open>src/src/storage/eviction.rs\<close> and the \<^verbatim>\<open>index_kind\<close> module of
  \<^verbatim>\<open>src/src/storage/engine/mod.rs\<close>: the eviction policies and their names, the configuration,
  candidate selection for the sampled policies, the Morris counter of the LFU policies and the
  adaptive controller (AHE).

  Clock readings are natural numbers of nanoseconds since the process epoch. A value of Rust's
  \<^verbatim>\<open>f32\<close> is a rational number, and every \<^verbatim>\<open>f32\<close> operation of the source is the exact operation
  followed by the rounding function \<open>rnd\<close>, an argument of the definitions: all the values the
  code computes with are finite, so no infinity or NaN occurs.
\<close>

section \<open>Policies\<close>

datatype eviction_policy =
    NoEviction
  | AllKeysLru | VolatileLru
  | AllKeysLfu | VolatileLfu
  | AllKeysRandom | VolatileRandom
  | VolatileTtl
  | AllKeysAhe | VolatileAhe
  | AllKeysSieve | VolatileSieve
  | AllKeysSieveS | VolatileSieveS
  | AllKeysAdaptiveClimb | VolatileAdaptiveClimb

datatype eviction_scope = AllKeys | Volatile

datatype index_kind =
    IK_NONE | IK_SIEVE_ALL | IK_SIEVE_VOLATILE | IK_SIEVE_S_ALL | IK_SIEVE_S_VOLATILE
  | IK_AC_ALL | IK_AC_VOLATILE

definition from_name :: "bytes \<Rightarrow> eviction_policy option" where
  "from_name s =
     (if s = ''noeviction'' then Some NoEviction
      else if s = ''allkeys-lru'' then Some AllKeysLru
      else if s = ''volatile-lru'' then Some VolatileLru
      else if s = ''allkeys-lfu'' then Some AllKeysLfu
      else if s = ''volatile-lfu'' then Some VolatileLfu
      else if s = ''allkeys-random'' then Some AllKeysRandom
      else if s = ''volatile-random'' then Some VolatileRandom
      else if s = ''volatile-ttl'' then Some VolatileTtl
      else if s = ''allkeys-ahe'' then Some AllKeysAhe
      else if s = ''volatile-ahe'' then Some VolatileAhe
      else if s = ''allkeys-sieve'' then Some AllKeysSieve
      else if s = ''volatile-sieve'' then Some VolatileSieve
      else if s = ''allkeys-sieves'' then Some AllKeysSieveS
      else if s = ''volatile-sieves'' then Some VolatileSieveS
      else if s = ''allkeys-adaptiveclimb'' then Some AllKeysAdaptiveClimb
      else if s = ''volatile-adaptiveclimb'' then Some VolatileAdaptiveClimb
      else None)"

fun policy_name :: "eviction_policy \<Rightarrow> bytes" where
  "policy_name NoEviction = ''noeviction''"
| "policy_name AllKeysLru = ''allkeys-lru''"
| "policy_name VolatileLru = ''volatile-lru''"
| "policy_name AllKeysLfu = ''allkeys-lfu''"
| "policy_name VolatileLfu = ''volatile-lfu''"
| "policy_name AllKeysRandom = ''allkeys-random''"
| "policy_name VolatileRandom = ''volatile-random''"
| "policy_name VolatileTtl = ''volatile-ttl''"
| "policy_name AllKeysAhe = ''allkeys-ahe''"
| "policy_name VolatileAhe = ''volatile-ahe''"
| "policy_name AllKeysSieve = ''allkeys-sieve''"
| "policy_name VolatileSieve = ''volatile-sieve''"
| "policy_name AllKeysSieveS = ''allkeys-sieves''"
| "policy_name VolatileSieveS = ''volatile-sieves''"
| "policy_name AllKeysAdaptiveClimb = ''allkeys-adaptiveclimb''"
| "policy_name VolatileAdaptiveClimb = ''volatile-adaptiveclimb''"

fun policy_scope :: "eviction_policy \<Rightarrow> eviction_scope" where
  "policy_scope NoEviction = AllKeys"
| "policy_scope AllKeysLru = AllKeys"
| "policy_scope AllKeysLfu = AllKeys"
| "policy_scope AllKeysRandom = AllKeys"
| "policy_scope AllKeysAhe = AllKeys"
| "policy_scope AllKeysSieve = AllKeys"
| "policy_scope AllKeysSieveS = AllKeys"
| "policy_scope AllKeysAdaptiveClimb = AllKeys"
| "policy_scope VolatileLru = Volatile"
| "policy_scope VolatileLfu = Volatile"
| "policy_scope VolatileRandom = Volatile"
| "policy_scope VolatileTtl = Volatile"
| "policy_scope VolatileAhe = Volatile"
| "policy_scope VolatileSieve = Volatile"
| "policy_scope VolatileSieveS = Volatile"
| "policy_scope VolatileAdaptiveClimb = Volatile"

definition policy_is_sieve :: "eviction_policy \<Rightarrow> bool" where
  "policy_is_sieve p \<longleftrightarrow> p \<in> {AllKeysSieve, VolatileSieve, AllKeysSieveS, VolatileSieveS}"

definition policy_is_adaptive_climb :: "eviction_policy \<Rightarrow> bool" where
  "policy_is_adaptive_climb p \<longleftrightarrow> p \<in> {AllKeysAdaptiveClimb, VolatileAdaptiveClimb}"

fun policy_index_kind :: "eviction_policy \<Rightarrow> index_kind" where
  "policy_index_kind AllKeysSieve = IK_SIEVE_ALL"
| "policy_index_kind VolatileSieve = IK_SIEVE_VOLATILE"
| "policy_index_kind AllKeysSieveS = IK_SIEVE_S_ALL"
| "policy_index_kind VolatileSieveS = IK_SIEVE_S_VOLATILE"
| "policy_index_kind AllKeysAdaptiveClimb = IK_AC_ALL"
| "policy_index_kind VolatileAdaptiveClimb = IK_AC_VOLATILE"
| "policy_index_kind _ = IK_NONE"

definition is_sieve :: "index_kind \<Rightarrow> bool" where
  "is_sieve k \<longleftrightarrow>
     k \<in> {IK_SIEVE_ALL, IK_SIEVE_VOLATILE, IK_SIEVE_S_ALL, IK_SIEVE_S_VOLATILE}"

definition is_sieve_ttl :: "index_kind \<Rightarrow> bool" where
  "is_sieve_ttl k \<longleftrightarrow> k \<in> {IK_SIEVE_S_ALL, IK_SIEVE_S_VOLATILE}"

definition is_ac :: "index_kind \<Rightarrow> bool" where
  "is_ac k \<longleftrightarrow> k \<in> {IK_AC_ALL, IK_AC_VOLATILE}"

record eviction_config =
  max_memory :: nat
  policy :: eviction_policy
  samples :: nat

definition eviction_config_default :: eviction_config where
  "eviction_config_default = \<lparr>max_memory = 0, policy = NoEviction, samples = 5\<rparr>"

section \<open>Candidates and victim selection\<close>

record candidate =
  c_key :: bytes
  c_last_access :: "instant option"
  c_expire_at :: "instant option"
  c_lfu_counter :: u8

text \<open>\<^verbatim>\<open>Iterator::min_by_key\<close> keeps the first of several minima, \<^verbatim>\<open>max_by\<close> the last maximum.\<close>

fun min_by_key :: "('a \<Rightarrow> 'b::linorder) \<Rightarrow> 'a list \<Rightarrow> 'a option" where
  "min_by_key f [] = None"
| "min_by_key f (x # xs) =
     (case min_by_key f xs of None \<Rightarrow> Some x | Some y \<Rightarrow> Some (if f x \<le> f y then x else y))"

fun max_by_key :: "('a \<Rightarrow> 'b::linorder) \<Rightarrow> 'a list \<Rightarrow> 'a option" where
  "max_by_key f [] = None"
| "max_by_key f (x # xs) =
     (case max_by_key f xs of None \<Rightarrow> Some x | Some y \<Rightarrow> Some (if f x \<le> f y then y else x))"

definition access_or :: "instant \<Rightarrow> candidate \<Rightarrow> instant" where
  "access_or now c = (case c_last_access c of None \<Rightarrow> now | Some t \<Rightarrow> t)"

definition AHE_DEFAULT_ALPHA :: rat where "AHE_DEFAULT_ALPHA = 1 / 2"

text \<open>\<^verbatim>\<open>Duration::as_secs_f32\<close>: whole seconds plus the nanoseconds divided by \<open>10^9\<close>.\<close>

definition as_secs_f32 :: "(rat \<Rightarrow> rat) \<Rightarrow> nat \<Rightarrow> rat" where
  "as_secs_f32 rnd d =
     rnd (rnd (of_nat (d div 1000000000)) + rnd (rnd (of_nat (d mod 1000000000)) / 1000000000))"

definition eps_score :: "(rat \<Rightarrow> rat) \<Rightarrow> rat \<Rightarrow> candidate \<Rightarrow> instant \<Rightarrow> rat" where
  "eps_score rnd alpha c now =
     (let recency = (case c_last_access c of
            Some ts \<Rightarrow> min 1 (rnd (as_secs_f32 rnd (now - ts) / 600))
          | None \<Rightarrow> 1);
        infrequency = rnd (1 - rnd (of_nat (unat (c_lfu_counter c)) / 255));
        ttl_penalty = (case c_expire_at c of
            Some deadline \<Rightarrow>
              if now < deadline then
                (if deadline - now \<le> 30000000000 then rnd (1 / 5) else 0)
              else rnd (1 / 5)
          | None \<Rightarrow> 0)
      in rnd (rnd (rnd (alpha * recency) + rnd (rnd (1 - alpha) * infrequency)) + ttl_penalty))"

definition pick_victim_ahe ::
  "(rat \<Rightarrow> rat) \<Rightarrow> instant \<Rightarrow> rat \<Rightarrow> candidate list \<Rightarrow> candidate option" where
  "pick_victim_ahe rnd now alpha cs =
     (if cs = [] then None
      else let alpha = max 0 (min 1 alpha) in max_by_key (\<lambda>c. eps_score rnd alpha c now) cs)"

fun pick_victim ::
  "(rat \<Rightarrow> rat) \<Rightarrow> instant \<Rightarrow> eviction_policy \<Rightarrow> candidate list \<Rightarrow> candidate option" where
  "pick_victim rnd now p [] = None"
| "pick_victim rnd now NoEviction cs = None"
| "pick_victim rnd now AllKeysRandom (c # cs) = Some c"
| "pick_victim rnd now VolatileRandom (c # cs) = Some c"
| "pick_victim rnd now AllKeysLru cs = min_by_key (access_or now) cs"
| "pick_victim rnd now VolatileLru cs = min_by_key (access_or now) cs"
| "pick_victim rnd now AllKeysLfu cs = min_by_key (\<lambda>c. (unat (c_lfu_counter c), access_or now c)) cs"
| "pick_victim rnd now VolatileLfu cs = min_by_key (\<lambda>c. (unat (c_lfu_counter c), access_or now c)) cs"
| "pick_victim rnd now VolatileTtl cs =
     min_by_key (\<lambda>c. case c_expire_at c of None \<Rightarrow> 0 | Some d \<Rightarrow> d)
       (filter (\<lambda>c. c_expire_at c \<noteq> None) cs)"
| "pick_victim rnd now AllKeysAhe cs = pick_victim_ahe rnd now AHE_DEFAULT_ALPHA cs"
| "pick_victim rnd now VolatileAhe cs = pick_victim_ahe rnd now AHE_DEFAULT_ALPHA cs"
| "pick_victim rnd now p cs = None"

section \<open>The Morris counter\<close>

definition LFU_INIT_VAL :: u8 where "LFU_INIT_VAL = 5"

definition sat_sub_u8 :: "u8 \<Rightarrow> u8 \<Rightarrow> u8" where
  "sat_sub_u8 a b = (if a < b then 0 else a - b)"

definition current_minute_stamp :: "nat \<Rightarrow> u16" where
  "current_minute_stamp epoch_secs = of_nat (epoch_secs div 60)"

definition decayed_counter :: "u8 \<Rightarrow> u16 \<Rightarrow> u16 \<Rightarrow> u16 \<Rightarrow> u8" where
  "decayed_counter counter last_stamp now_stamp decay_period_minutes =
     (if decay_period_minutes = 0 then counter
      else let elapsed = now_stamp - last_stamp;
               ticks = elapsed div decay_period_minutes
           in sat_sub_u8 counter (ucast (min ticks 255)))"

definition probabilistic_increment :: "(rat \<Rightarrow> rat) \<Rightarrow> u8 \<Rightarrow> rat \<Rightarrow> u8" where
  "probabilistic_increment rnd counter rand01 =
     (if counter = 255 then counter
      else let baseline = of_nat (unat (sat_sub_u8 counter LFU_INIT_VAL));
               p = rnd (1 / rnd (rnd (baseline * 10) + 1))
           in if rand01 < p then counter + 1 else counter)"

section \<open>The adaptive controller\<close>

record ahe_state =
  ah_alpha :: rat
  ah_step :: rat
  ah_direction :: rat
  ah_last_hit_ratio :: rat
  ah_window_size :: nat
  ah_window_count :: nat
  ah_last_hits :: nat
  ah_last_misses :: nat
  ah_primed :: bool

definition ahe_default :: "(rat \<Rightarrow> rat) \<Rightarrow> ahe_state" where
  "ahe_default rnd =
     \<lparr>ah_alpha = AHE_DEFAULT_ALPHA, ah_step = rnd (1 / 20), ah_direction = 1, ah_last_hit_ratio = 0,
      ah_window_size = 64, ah_window_count = 0, ah_last_hits = 0, ah_last_misses = 0, ah_primed = False\<rparr>"

definition ahe_observe :: "(rat \<Rightarrow> rat) \<Rightarrow> nat \<Rightarrow> nat \<Rightarrow> ahe_state \<Rightarrow> bool \<times> ahe_state" where
  "ahe_observe rnd hits misses s =
     (if \<not> ah_primed s then
        let s1 = s\<lparr>ah_primed := True, ah_last_hits := hits, ah_last_misses := misses\<rparr>;
            total = hits + misses
        in (False, if total > 0
              then s1\<lparr>ah_last_hit_ratio := rnd (rnd (of_nat hits) / rnd (of_nat total))\<rparr> else s1)
      else
        let s1 = s\<lparr>ah_window_count := ah_window_count s + 1\<rparr> in
        if ah_window_count s1 < ah_window_size s1 then (False, s1)
        else
          let delta_hits = hits - ah_last_hits s1;
              delta_misses = misses - ah_last_misses s1;
              s2 = s1\<lparr>ah_last_hits := hits, ah_last_misses := misses\<rparr>;
              total = delta_hits + delta_misses;
              ratio = (if total = 0 then ah_last_hit_ratio s2
                       else rnd (rnd (of_nat delta_hits) / rnd (of_nat total)));
              dir = (if rnd (ratio + rnd (1 / 10000)) < ah_last_hit_ratio s2
                     then - ah_direction s2 else ah_direction s2);
              a = max (rnd (1 / 20)) (min (rnd (19 / 20)) (rnd (ah_alpha s2 + rnd (dir * ah_step s2))))
          in (True, s2\<lparr>ah_direction := dir, ah_alpha := a, ah_last_hit_ratio := ratio, ah_window_count := 0\<rparr>))"

section \<open>Library lemmas\<close>

lemma from_name_policy_name [simp]: "from_name (policy_name p) = Some p"
  by (cases p) (simp_all add: from_name_def)

lemma from_name_Some: "from_name s = Some p \<Longrightarrow> s = policy_name p"
  by (auto simp: from_name_def split: if_splits)

lemma min_by_key_None [simp]: "min_by_key f xs = None \<longleftrightarrow> xs = []"
  by (cases xs) (auto split: option.splits)

lemma max_by_key_None [simp]: "max_by_key f xs = None \<longleftrightarrow> xs = []"
  by (cases xs) (auto split: option.splits)

lemma min_by_key_Some:
  "min_by_key f xs = Some x \<Longrightarrow> x \<in> set xs \<and> (\<forall>y\<in>set xs. f x \<le> f y)"
proof (induction xs arbitrary: x)
  case (Cons a xs)
  then show ?case
    by (cases "min_by_key f xs") (force split: if_splits)+
qed simp

lemma max_by_key_Some:
  "max_by_key f xs = Some x \<Longrightarrow> x \<in> set xs \<and> (\<forall>y\<in>set xs. f y \<le> f x)"
proof (induction xs arbitrary: x)
  case (Cons a xs)
  then show ?case
    by (cases "max_by_key f xs") (force split: if_splits)+
qed simp

lemma pick_victim_ahe_Some:
  "pick_victim_ahe rnd now a cs = Some c \<Longrightarrow> c \<in> set cs"
  by (auto simp: pick_victim_ahe_def Let_def dest!: max_by_key_Some split: if_splits)

lemma pick_victim_mem: "pick_victim rnd now p cs = Some c \<Longrightarrow> c \<in> set cs"
  by (induction rnd now p cs rule: pick_victim.induct)
    (auto dest: min_by_key_Some pick_victim_ahe_Some simp del: min_by_key.simps filter.simps)

lemma unat_sat_sub_u8: "unat (sat_sub_u8 a b) = unat a - unat b"
  by (simp add: sat_sub_u8_def unat_sub_if' word_less_nat_alt word_le_nat_alt)

lemma unat_decayed_counter:
  "unat (decayed_counter c l now d) =
     (if d = 0 then unat c else unat c - min (unat (now - l) div unat d) 255)"
proof (cases "d = 0")
  case True
  then show ?thesis by (simp add: decayed_counter_def)
next
  case False
  let ?t = "(now - l) div d"
  have "unat (min ?t 255) = min (unat ?t) 255"
    by (simp add: min_def word_le_nat_alt)
  moreover from this have "unat (ucast (min ?t 255) :: u8) = unat (min ?t 255)"
    by (simp add: unsigned_ucast_eq take_bit_eq_mod)
  ultimately show ?thesis
    using False by (simp add: decayed_counter_def Let_def unat_sat_sub_u8 unat_div)
qed

end
