(* ===== verification/Entry.thy ===== *)
theory Entry
  imports Eviction
begin

text \<open>
  Models \<^verbatim>\<open>src/src/storage/engine/entry.rs\<close>, \<^verbatim>\<open>src/src/storage/engine/util.rs\<close> and
  \<^verbatim>\<open>src/src/storage/engine/types.rs\<close>: the value record of a key with its packed LFU word, lazy
  expiry, key and value validation, candidate sampling, the password comparison and the
  xorshift generator.

  What a critical section reads from its surroundings is the record \<open>env\<close>: the instant and the
  epoch milliseconds that \<^verbatim>\<open>WriteGuard::begin\<close> records (\<open>now\<close>, \<open>now_ms\<close>), the instant of
  the readings made later in the section (\<open>now_late\<close>), the minute stamp and the \<^verbatim>\<open>f32\<close> rounding.
\<close>

section \<open>Surroundings of a critical section\<close>

record env =
  now :: instant
  now_late :: instant
  now_ms :: int
  minute_stamp :: u16
  f32_rnd :: "rat \<Rightarrow> rat"

section \<open>Value entries\<close>

definition LFU_DECAY_MINUTES :: u16 where "LFU_DECAY_MINUTES = 1"

definition pack_lfu :: "u8 \<Rightarrow> u16 \<Rightarrow> u32" where
  "pack_lfu counter minute = push_bit 16 (ucast minute) OR ucast counter"

definition unpack_lfu :: "u32 \<Rightarrow> u8 \<times> u16" where
  "unpack_lfu word = (ucast (word AND 0xFF), ucast (drop_bit 16 word AND 0xFFFF))"

record value_entry =
  data :: bytes
  expire_at :: "instant option"
  last_access_ns :: instant
  lfu :: u32

definition entry_new_with :: "env \<Rightarrow> bytes \<Rightarrow> instant option \<Rightarrow> value_entry" where
  "entry_new_with v d ttl =
     \<lparr>data = d, expire_at = ttl, last_access_ns = now_late v,
      lfu = pack_lfu LFU_INIT_VAL (minute_stamp v)\<rparr>"

definition entry_new :: "env \<Rightarrow> bytes \<Rightarrow> value_entry" where
  "entry_new v d = entry_new_with v d None"

definition is_expired :: "value_entry \<Rightarrow> instant \<Rightarrow> bool" where
  "is_expired e t = (case expire_at e of Some deadline \<Rightarrow> deadline \<le> t | None \<Rightarrow> False)"

definition last_access :: "value_entry \<Rightarrow> instant" where
  "last_access e = last_access_ns e"

definition lfu_counter :: "value_entry \<Rightarrow> u8" where
  "lfu_counter e = fst (unpack_lfu (lfu e))"

text \<open>The compare-and-swap loop is one step: the exchange succeeds on the word it read.\<close>

definition touch :: "env \<Rightarrow> rat \<Rightarrow> value_entry \<Rightarrow> value_entry" where
  "touch v rand01 e =
     (let e1 = e\<lparr>last_access_ns := now_late v\<rparr>;
          (counter, mn) = unpack_lfu (lfu e1);
          decayed = decayed_counter counter mn (minute_stamp v) LFU_DECAY_MINUTES;
          incremented = probabilistic_increment (f32_rnd v) decayed rand01
      in e1\<lparr>lfu := pack_lfu incremented (minute_stamp v)\<rparr>)"

definition live_payload :: "env \<Rightarrow> value_entry \<Rightarrow> bytes option" where
  "live_payload v e = (if is_expired e (now_late v) then None else Some (data e))"

section \<open>Helpers\<close>

type_synonym store = "(bytes \<times> value_entry) list"

definition KEY_MAX_BYTES :: nat where "KEY_MAX_BYTES = 65536"
definition VALUE_MAX_BYTES :: nat where "VALUE_MAX_BYTES = 16777216"
definition PER_ENTRY_OVERHEAD :: nat where "PER_ENTRY_OVERHEAD = 144"
definition PER_INDEX_ENTRY_BYTES :: nat where "PER_INDEX_ENTRY_BYTES = 48"

definition entry_bytes :: "bytes \<Rightarrow> value_entry \<Rightarrow> nat" where
  "entry_bytes key e = length key + length (data e) + PER_ENTRY_OVERHEAD"

definition in_scope :: "eviction_scope \<Rightarrow> value_entry \<Rightarrow> bool" where
  "in_scope scope e = (case scope of AllKeys \<Rightarrow> True | Volatile \<Rightarrow> expire_at e \<noteq> None)"

definition candidate_of :: "bytes \<Rightarrow> value_entry \<Rightarrow> candidate" where
  "candidate_of key e =
     \<lparr>c_key = key, c_last_access = Some (last_access e), c_expire_at = expire_at e,
      c_lfu_counter = lfu_counter e\<rparr>"

fun sample_candidates :: "store \<Rightarrow> eviction_scope \<Rightarrow> nat \<Rightarrow> candidate list" where
  "sample_candidates [] scope n = []"
| "sample_candidates ((key, e) # st) scope n =
     (if n = 0 then []
      else if scope = Volatile \<and> expire_at e = None then sample_candidates st scope n
      else candidate_of key e # sample_candidates st scope (n - 1))"

definition deadline_to_epoch_ms :: "instant \<Rightarrow> instant \<Rightarrow> int \<Rightarrow> int option" where
  "deadline_to_epoch_ms deadline t epoch_ms =
     (if deadline \<le> t then None
      else Some (saturate_i64 (epoch_ms + int ((deadline - t) div 1000000))))"

definition validate_key :: "bytes \<Rightarrow> unit result" where
  "validate_key key =
     (let len = length key in
      if len = 0 then Err (ParseError ''key must not be empty'')
      else if len > KEY_MAX_BYTES then Err (KeyTooLong len KEY_MAX_BYTES)
      else Ok ())"

definition validate_value :: "bytes \<Rightarrow> unit result" where
  "validate_value val =
     (let len = length val in
      if len > VALUE_MAX_BYTES then Err (ValueTooLarge len VALUE_MAX_BYTES) else Ok ())"

fun ct_diff :: "u8 \<Rightarrow> bytes \<Rightarrow> bytes \<Rightarrow> u8" where
  "ct_diff diff (x # xs) (y # ys) = ct_diff (diff OR (of_char x XOR of_char y)) xs ys"
| "ct_diff diff _ _ = diff"

definition constant_time_eq :: "bytes \<Rightarrow> bytes \<Rightarrow> bool" where
  "constant_time_eq a b = (if length a \<noteq> length b then False else ct_diff 0 a b = 0)"

definition rng_seed :: "nat \<Rightarrow> u32" where
  "rng_seed epoch_nanos = ((of_nat epoch_nanos) XOR 0xDEADBEEF) OR 1"

definition xorshift32 :: "u32 \<Rightarrow> u32" where
  "xorshift32 state =
     (let x1 = state XOR push_bit 13 state;
          x2 = x1 XOR drop_bit 17 x1
      in x2 XOR push_bit 5 x2)"

definition rand01_of :: "u32 \<Rightarrow> rat" where
  "rand01_of x = of_nat (unat (drop_bit 8 x)) / 16777216"

record sweep_stats =
  examined :: nat
  evicted :: nat

definition should_continue :: "sweep_stats \<Rightarrow> bool" where
  "should_continue s \<longleftrightarrow> examined s > 0 \<and> evicted s * 4 > examined s"

datatype ttl_status = Missing | NoExpire | Millis int

section \<open>Library lemmas\<close>

lemma entry_new_simps [simp]:
  "data (entry_new_with v d t) = d" "expire_at (entry_new_with v d t) = t"
  "data (entry_new v d) = d" "expire_at (entry_new v d) = None"
  by (simp_all add: entry_new_def entry_new_with_def)

lemma touch_simps [simp]:
  "data (touch v r e) = data e" "expire_at (touch v r e) = expire_at e"
  by (simp_all add: touch_def Let_def case_prod_unfold)

lemma is_expired_touch [simp]: "is_expired (touch v r e) t = is_expired e t"
  by (simp add: is_expired_def)

lemma entry_bytes_touch [simp]: "entry_bytes k (touch v r e) = entry_bytes k e"
  by (simp add: entry_bytes_def)

lemma is_expired_no_ttl [simp]: "expire_at e = None \<Longrightarrow> \<not> is_expired e t"
  by (simp add: is_expired_def)

lemma is_expired_mono: "is_expired e t \<Longrightarrow> t \<le> t' \<Longrightarrow> is_expired e t'"
  by (auto simp: is_expired_def split: option.splits)

lemma entry_bytes_pos [simp]: "0 < entry_bytes k e"
  by (simp add: entry_bytes_def PER_ENTRY_OVERHEAD_def)

lemma sample_candidates_eq:
  "sample_candidates st scope n =
     map (\<lambda>(k, e). candidate_of k e) (take n (filter (\<lambda>(k, e). in_scope scope e) st))"
proof (induction st scope n rule: sample_candidates.induct)
  case (2 key e st scope n)
  then show ?case
    by (cases scope; cases n; cases "expire_at e") (auto simp: in_scope_def)
qed simp

lemma sample_candidates_mem:
  assumes "well_keyed st" and "c \<in> set (sample_candidates st scope n)"
  shows "\<exists>e. map_of st (c_key c) = Some e \<and> in_scope scope e"
proof -
  from assms(2) obtain k e where ke: "(k, e) \<in> set st" "in_scope scope e" "c = candidate_of k e"
    by (auto simp: sample_candidates_eq dest!: in_set_takeD)
  then show ?thesis using assms(1) by (auto simp: candidate_of_def)
qed

lemma sample_candidates_nonempty:
  "0 < n \<Longrightarrow> (\<exists>k e. (k, e) \<in> set st \<and> in_scope scope e) \<Longrightarrow> sample_candidates st scope n \<noteq> []"
  by (auto simp: sample_candidates_eq filter_empty_conv)

lemma ct_diff_acc: "length a = length b \<Longrightarrow> ct_diff d a b = d OR ct_diff 0 a b"
proof (induction a b arbitrary: d rule: list_induct2)
  case (Cons x xs y ys)
  show ?case using Cons.IH [of "d OR (of_char x XOR of_char y)"]
      Cons.IH [of "of_char x XOR of_char y"] by (simp add: or.assoc)
qed simp

lemma unat_of_char_u8: "unat (of_char c :: u8) = of_char c"
proof -
  have "unat (of_nat (of_char c) :: u8) = of_char c"
    using of_char_nat_bound [of c] by (simp add: unsigned_of_nat take_bit_eq_mod)
  then show ?thesis by (metis of_nat_of_char)
qed

lemma word_xor_zero: "(x :: 'a::len word) XOR y = 0 \<longleftrightarrow> x = y"
proof
  assume a: "x XOR y = 0"
  have "x = (x XOR y) XOR y" by (simp add: xor.assoc)
  also have "\<dots> = y" by (simp add: a)
  finally show "x = y" .
qed simp

lemma of_char_u8_inj: "(of_char x :: u8) = of_char y \<longleftrightarrow> x = y"
proof
  assume "(of_char x :: u8) = of_char y"
  then have "(of_char x :: nat) = of_char y" by (metis unat_of_char_u8)
  then show "x = y" by simp
qed simp

lemma ct_diff_zero: "length a = length b \<Longrightarrow> ct_diff 0 a b = 0 \<longleftrightarrow> a = b"
proof (induction a b rule: list_induct2)
  case (Cons x xs y ys)
  have "ct_diff 0 (x # xs) (y # ys) = (of_char x XOR of_char y) OR ct_diff 0 xs ys"
    using ct_diff_acc [OF Cons.hyps, of "of_char x XOR of_char y"] by simp
  moreover have "(of_char x XOR of_char y :: u8) = 0 \<longleftrightarrow> x = y"
    by (simp only: word_xor_zero of_char_u8_inj)
  ultimately show ?case using Cons.IH by (simp only: or_eq_0_iff list.inject)
qed simp

lemma unpack_pack_lfu [simp]: "unpack_lfu (pack_lfu c m) = (c, m)"
proof -
  have m8: "(0xFF :: u32) = mask 8" and m16: "(0xFFFF :: u32) = mask 16"
    by (simp_all add: mask_eq_exp_minus_1)
  have "ucast ((push_bit 16 (ucast m) OR ucast c :: u32) AND 0xFF) = c"
    unfolding m8 by (rule bit_word_eqI) (auto simp: bit_simps)
  moreover have "ucast (drop_bit 16 (push_bit 16 (ucast m) OR ucast c :: u32) AND 0xFFFF) = m"
    unfolding m16 by (rule bit_word_eqI) (auto simp: bit_simps dest: bit_imp_le_length)
  ultimately show ?thesis by (simp add: unpack_lfu_def pack_lfu_def)
qed

lemma xor_push_bit_zero: "n > 0 \<Longrightarrow> (x :: u32) XOR push_bit n x = 0 \<Longrightarrow> x = 0"
proof -
  assume n: "n > 0" and "x XOR push_bit n x = 0"
  then have eq: "x = push_bit n x" by (simp add: word_xor_zero)
  have "\<not> bit x i" for i
  proof (induction i rule: less_induct)
    case (less i)
    show ?case
    proof
      assume "bit x i"
      then have "bit (push_bit n x) i" using eq by simp
      then have "n \<le> i" "bit x (i - n)" by (auto simp: bit_simps)
      then show False using less n by simp
    qed
  qed
  then show "x = 0" by (intro bit_word_eqI) simp
qed

lemma xor_drop_bit_zero: "n > 0 \<Longrightarrow> (x :: u32) XOR drop_bit n x = 0 \<Longrightarrow> x = 0"
proof -
  assume n: "n > 0" and "x XOR drop_bit n x = 0"
  then have eq: "x = drop_bit n x" by (simp add: word_xor_zero)
  have "\<not> bit x (32 - i)" if "i \<le> 32" for i
    using that
  proof (induction i rule: less_induct)
    case (less i)
    show ?case
    proof
      assume b: "bit x (32 - i)"
      then have "bit (drop_bit n x) (32 - i)" using eq by simp
      then have c: "bit x (32 - i + n)" by (simp add: bit_simps add.commute)
      then have "32 - i + n < 32" using bit_imp_le_length [OF c] by simp
      then have e: "32 - i + n = 32 - (i - n)" and l: "i - n < i" "i - n \<le> 32"
        using n less.prems by auto
      from less.IH [OF l] c show False by (simp only: e)
    qed
  qed
  then have "\<not> bit x j" if "j < 32" for j using that by (metis diff_diff_cancel diff_le_self less_imp_le)
  then show "x = 0" by (intro bit_word_eqI) simp
qed

lemma xorshift32_nonzero: "x \<noteq> 0 \<Longrightarrow> xorshift32 x \<noteq> 0"
  unfolding xorshift32_def Let_def
  by (metis xor_drop_bit_zero xor_push_bit_zero zero_less_numeral)

end
