(* ===== verification/Index_Map.thy ===== *)
theory Index_Map
  imports Entry
begin

text \<open>
  The insertion-ordered map of the \<^verbatim>\<open>indexmap\<close> crate, as far as \<^verbatim>\<open>sieve.rs\<close> and
  \<^verbatim>\<open>adaptive_climb.rs\<close> use it, over association lists with distinct keys: a position in the map is
  a position in the list. Each operation states the documented behaviour of the crate's method of
  the same name. The locale \<open>eviction_index\<close> is the contract between the engine and a stateful
  eviction index: which keys it tracks after an observation, and what a sweep may return.
\<close>

section \<open>Operations\<close>

fun im_get_index_of :: "'k \<Rightarrow> ('k \<times> 'v) list \<Rightarrow> nat option" where
  "im_get_index_of k [] = None"
| "im_get_index_of k (p # m) =
     (if fst p = k then Some 0 else map_option Suc (im_get_index_of k m))"

definition im_get_index :: "nat \<Rightarrow> ('k \<times> 'v) list \<Rightarrow> ('k \<times> 'v) option" where
  "im_get_index i m = (if i < length m then Some (m ! i) else None)"

definition im_insert :: "'k \<Rightarrow> 'v \<Rightarrow> ('k \<times> 'v) list \<Rightarrow> ('k \<times> 'v) list" where
  "im_insert k v m = AList.update k v m"

definition im_shift_remove :: "'k \<Rightarrow> ('k \<times> 'v) list \<Rightarrow> ('k \<times> 'v) list" where
  "im_shift_remove k m = AList.delete k m"

definition im_shift_remove_index :: "nat \<Rightarrow> ('k \<times> 'v) list \<Rightarrow> ('k \<times> 'v) list" where
  "im_shift_remove_index i m = take i m @ drop (Suc i) m"

definition im_set_index :: "nat \<Rightarrow> 'v \<Rightarrow> ('k \<times> 'v) list \<Rightarrow> ('k \<times> 'v) list" where
  "im_set_index i v m = (if i < length m then m[i := (fst (m ! i), v)] else m)"

definition im_insert_before :: "nat \<Rightarrow> 'k \<Rightarrow> 'v \<Rightarrow> ('k \<times> 'v) list \<Rightarrow> ('k \<times> 'v) list" where
  "im_insert_before i k v m =
     (let i' = (case im_get_index_of k m of Some j \<Rightarrow> if j < i then i - 1 else i | None \<Rightarrow> i);
          m' = AList.delete k m
      in take i' m' @ (k, v) # drop i' m')"

definition im_move_index :: "nat \<Rightarrow> nat \<Rightarrow> ('k \<times> 'v) list \<Rightarrow> ('k \<times> 'v) list" where
  "im_move_index from to m =
     (let m' = take from m @ drop (Suc from) m in take to m' @ (m ! from) # drop to m')"

section \<open>Lemmas\<close>

lemma im_get_index_of_None [simp]: "im_get_index_of k m = None \<longleftrightarrow> k \<notin> set (keys_of m)"
  by (induction m) auto

lemma im_get_index_of_Some:
  "im_get_index_of k m = Some i \<Longrightarrow> i < length m \<and> fst (m ! i) = k"
  by (induction m arbitrary: i) (auto split: if_splits)

lemma delete_at:
  assumes "well_keyed m" and "i < length m"
  shows "AList.delete (fst (m ! i)) m = take i m @ drop (Suc i) m"
  using assms
proof (induction m arbitrary: i)
  case (Cons p m)
  show ?case
  proof (cases i)
    case 0
    then show ?thesis using Cons.prems by (simp add: delete_idem)
  next
    case (Suc j)
    have "fst p \<noteq> fst (m ! j)"
      using Cons.prems Suc by (metis distinct.simps(2) length_Cons list.simps(9) not_less_eq
          nth_mem length_map nth_map)
    then show ?thesis using Cons.IH [of j] Cons.prems Suc by simp
  qed
qed simp

lemma set_keys_update [simp]: "set (keys_of (AList.update k v m)) = insert k (set (keys_of m))"
  by (simp add: dom_map_of_conv_image_fst [symmetric] update_conv' image_image)

lemma set_keys_delete [simp]: "set (keys_of (AList.delete k m)) = set (keys_of m) - {k}"
  by (induction m) auto

lemmas fst_update [simp] = set_keys_update [unfolded set_map]
lemmas fst_delete [simp] = set_keys_delete [unfolded set_map]

lemma keys_set_index [simp]: "keys_of (im_set_index i v m) = keys_of m"
  by (cases "i < length m") (simp_all add: im_set_index_def map_update, metis length_map list_update_id nth_map)

lemma keys_insert_before:
  "k \<notin> set (keys_of m) \<Longrightarrow>
   keys_of (im_insert_before i k v m) = take i (keys_of m) @ k # drop i (keys_of m)"
  using im_get_index_of_None [of k m]
  by (simp add: im_insert_before_def delete_idem take_map drop_map del: im_get_index_of_None)

lemma mset_move_index:
  assumes "from < length m"
  shows "mset (im_move_index from to m) = mset m"
proof -
  have *: "mset (take to m' @ x # drop to m') = add_mset x (mset m')" for x and m' :: "('a \<times> 'b) list"
    by (metis append_take_drop_id mset.simps(2) mset_append union_mset_add_mset_right)
  have "add_mset (m ! from) (mset (take from m @ drop (Suc from) m)) = mset m"
    using assms by (metis id_take_nth_drop mset.simps(2) mset_append union_mset_add_mset_right)
  then show ?thesis unfolding im_move_index_def Let_def * .
qed

section \<open>The contract of a stateful eviction index\<close>

text \<open>A key is eligible when the store still holds it and the policy's scope admits it.\<close>

definition eligible :: "store \<Rightarrow> eviction_scope \<Rightarrow> bytes \<Rightarrow> bool" where
  "eligible st scope k = (case map_of st k of None \<Rightarrow> False | Some e \<Rightarrow> in_scope scope e)"

definition tracks :: "eviction_scope \<Rightarrow> bool \<Rightarrow> bool" where
  "tracks scope has_ttl \<longleftrightarrow> \<not> (scope = Volatile \<and> \<not> has_ttl)"

locale eviction_index =
  fixes keys :: "'s \<Rightarrow> bytes list"
    and scope_of :: "'s \<Rightarrow> eviction_scope"
    and wf :: "'s \<Rightarrow> bool"
    and observe_insert :: "bytes \<Rightarrow> bool \<Rightarrow> 's \<Rightarrow> 's"
    and observe_access :: "bytes \<Rightarrow> 's \<Rightarrow> 's"
    and observe_remove :: "bytes \<Rightarrow> 's \<Rightarrow> 's"
    and rebuild :: "store \<Rightarrow> eviction_scope \<Rightarrow> 's \<Rightarrow> 's"
    and clear :: "'s \<Rightarrow> 's"
    and evict_one :: "store \<Rightarrow> eviction_scope \<Rightarrow> 's \<Rightarrow> bytes option \<times> 's"
  assumes wf_distinct: "wf s \<Longrightarrow> distinct (keys s)"
    and wf_insert: "wf s \<Longrightarrow> wf (observe_insert k ttl s)"
    and wf_access: "wf s \<Longrightarrow> wf (observe_access k s)"
    and wf_remove: "wf s \<Longrightarrow> wf (observe_remove k s)"
    and wf_rebuild: "well_keyed st \<Longrightarrow> wf (rebuild st sc s)"
    and wf_clear: "wf (clear s)"
    and wf_evict: "wf s \<Longrightarrow> wf (snd (evict_one st sc s))"
    and keys_insert: "wf s \<Longrightarrow> set (keys (observe_insert k ttl s)) =
          (if tracks (scope_of s) ttl then insert k (set (keys s)) else set (keys s) - {k})"
    and keys_access: "wf s \<Longrightarrow> set (keys (observe_access k s)) = set (keys s)"
    and keys_remove: "wf s \<Longrightarrow> set (keys (observe_remove k s)) = set (keys s) - {k}"
    and keys_rebuild: "well_keyed st \<Longrightarrow>
          set (keys (rebuild st sc s)) = {k. eligible st sc k}"
    and keys_clear: "keys (clear s) = []"
    and evict_Some: "wf s \<Longrightarrow> evict_one st sc s = (Some k, s') \<Longrightarrow>
          k \<in> set (keys s) \<and> eligible st sc k \<and> set (keys s') \<subseteq> set (keys s) - {k}"
    and evict_None: "wf s \<Longrightarrow> evict_one st sc s = (None, s') \<Longrightarrow>
          \<forall>k\<in>set (keys s). \<not> eligible st sc k"
    and evict_keeps: "wf s \<Longrightarrow> evict_one st sc s = (r, s') \<Longrightarrow> k \<in> set (keys s) \<Longrightarrow>
          eligible st sc k \<Longrightarrow> r \<noteq> Some k \<Longrightarrow> k \<in> set (keys s')"
begin

text \<open>An index covers a store when every eligible key of the store is tracked.\<close>

definition covers :: "store \<Rightarrow> 's \<Rightarrow> bool" where
  "covers st s \<longleftrightarrow> (\<forall>k. eligible st (scope_of s) k \<longrightarrow> k \<in> set (keys s))"

lemma covers_evict_succeeds:
  assumes "wf s" "covers st s" "eligible st (scope_of s) k"
  shows "\<exists>v. fst (evict_one st (scope_of s) s) = Some v \<and> eligible st (scope_of s) v"
proof (cases "evict_one st (scope_of s) s")
  case (Pair r s')
  then show ?thesis
    using assms evict_None [OF assms(1)] evict_Some [OF assms(1)]
    by (cases r) (auto simp: covers_def)
qed

lemma rebuild_covers:
  "well_keyed st \<Longrightarrow> scope_of (rebuild st sc s) = sc \<Longrightarrow> covers st (rebuild st sc s)"
  by (simp add: covers_def keys_rebuild)

end

end
