(* ===== verification/Sieve.thy ===== *)
theory Sieve
  imports Index_Map
begin

text \<open>
  Models \<^verbatim>\<open>src/src/storage/sieve.rs\<close>: the SIEVE queue with its hand and visited bits, the SIEVE-S
  demotion of keys near their deadline, and the sweep \<^verbatim>\<open>evict_one\<close>. The loop of the sweep is
  bounded by the code itself (\<^verbatim>\<open>n + 1\<close> looks), and that bound is the fuel of \<open>sieve_scan\<close>.

  The sweep refines a scan of a ring: \<open>sieve_ring\<close> reads the queue from the hand onwards, and one
  look drops, evicts or moves to the back the front element of the ring. The progress law of the
  eviction contract (an eligible key in the queue gives a victim within the bound) is proved on
  the ring and carried over.
\<close>

section \<open>State and operations\<close>

record sieve_state =
  sv_queue :: "(bytes \<times> bool) list"
  sv_hand :: nat
  sv_scope :: eviction_scope
  sv_ttl_demote_threshold :: rat

definition SIEVE_S_TTL_THRESHOLD :: rat where "SIEVE_S_TTL_THRESHOLD = 1 / 10"
definition SIEVE_S_HORIZON_MS :: nat where "SIEVE_S_HORIZON_MS = 60000"

definition sieve_new :: sieve_state where
  "sieve_new = \<lparr>sv_queue = [], sv_hand = 0, sv_scope = AllKeys,
                sv_ttl_demote_threshold = SIEVE_S_TTL_THRESHOLD\<rparr>"

definition sieve_observe_remove :: "bytes \<Rightarrow> sieve_state \<Rightarrow> sieve_state" where
  "sieve_observe_remove key s =
     (case im_get_index_of key (sv_queue s) of
        None \<Rightarrow> s
      | Some idx \<Rightarrow>
          let hand = (if idx < sv_hand s then sv_hand s - 1 else sv_hand s);
              q = im_shift_remove key (sv_queue s)
          in s\<lparr>sv_queue := q, sv_hand := if hand \<ge> length q then 0 else hand\<rparr>)"

definition sieve_observe_insert :: "bytes \<Rightarrow> bool \<Rightarrow> sieve_state \<Rightarrow> sieve_state" where
  "sieve_observe_insert key has_ttl s =
     (if sv_scope s = Volatile \<and> \<not> has_ttl then sieve_observe_remove key s
      else s\<lparr>sv_queue := im_insert key False (sv_queue s)\<rparr>)"

definition sieve_observe_access :: "bytes \<Rightarrow> sieve_state \<Rightarrow> sieve_state" where
  "sieve_observe_access key s =
     (case map_of (sv_queue s) key of
        None \<Rightarrow> s
      | Some _ \<Rightarrow> s\<lparr>sv_queue := im_insert key True (sv_queue s)\<rparr>)"

fun sieve_enqueue :: "store \<Rightarrow> eviction_scope \<Rightarrow> (bytes \<times> bool) list \<Rightarrow> (bytes \<times> bool) list" where
  "sieve_enqueue [] scope q = q"
| "sieve_enqueue ((key, e) # st) scope q =
     sieve_enqueue st scope (if in_scope scope e then im_insert key False q else q)"

definition sieve_rebuild :: "store \<Rightarrow> eviction_scope \<Rightarrow> sieve_state \<Rightarrow> sieve_state" where
  "sieve_rebuild st scope s =
     s\<lparr>sv_queue := sieve_enqueue st scope [], sv_hand := 0, sv_scope := scope\<rparr>"

definition sieve_clear :: "sieve_state \<Rightarrow> sieve_state" where
  "sieve_clear s = s\<lparr>sv_queue := [], sv_hand := 0\<rparr>"

text \<open>
  The \<^verbatim>\<open>f64\<close> comparison is exact here: the product \<open>0.1 * 60.0\<close> rounds to \<open>6.0\<close>, and
  \<^verbatim>\<open>as_secs_f64\<close> of fewer than six seconds stays below \<open>6.0\<close>.
\<close>

definition is_near_expiry :: "value_entry \<Rightarrow> instant \<Rightarrow> rat \<Rightarrow> bool" where
  "is_near_expiry e t threshold =
     (case expire_at e of
        None \<Rightarrow> False
      | Some deadline \<Rightarrow>
          if deadline \<le> t then True
          else of_nat (deadline - t) / 1000000000
                 \<le> threshold * (of_nat SIEVE_S_HORIZON_MS / 1000))"

fun sieve_scan ::
  "nat \<Rightarrow> store \<Rightarrow> eviction_scope \<Rightarrow> bool \<Rightarrow> instant \<Rightarrow> sieve_state \<Rightarrow> bytes option \<times> sieve_state" where
  "sieve_scan 0 st scope ttl_aware t s = (None, s)"
| "sieve_scan (Suc n) st scope ttl_aware t s =
     (let hand = (if sv_hand s \<ge> length (sv_queue s) then 0 else sv_hand s);
          s = s\<lparr>sv_hand := hand\<rparr>
      in case im_get_index hand (sv_queue s) of
           None \<Rightarrow> (None, s)
         | Some (key, visited) \<Rightarrow>
             let entry = map_of st key in
             if (case entry of None \<Rightarrow> True | Some e \<Rightarrow> \<not> in_scope scope e) then
               sieve_scan n st scope ttl_aware t
                 (s\<lparr>sv_queue := im_shift_remove key (sv_queue s)\<rparr>)
             else if \<not> visited
                  \<or> ttl_aware \<and> is_near_expiry (the entry) t (sv_ttl_demote_threshold s) then
               let q = im_shift_remove key (sv_queue s)
               in (Some key, s\<lparr>sv_queue := q, sv_hand := if hand \<ge> length q then 0 else hand\<rparr>)
             else
               sieve_scan n st scope ttl_aware t
                 (s\<lparr>sv_queue := im_set_index hand False (sv_queue s), sv_hand := hand + 1\<rparr>))"

definition sieve_evict_one ::
  "bool \<Rightarrow> instant \<Rightarrow> store \<Rightarrow> eviction_scope \<Rightarrow> sieve_state \<Rightarrow> bytes option \<times> sieve_state" where
  "sieve_evict_one ttl_aware t st scope s =
     (let n = length (sv_queue s) in
      if n = 0 then (None, s) else sieve_scan (n + 1) st scope ttl_aware t s)"

section \<open>The ring\<close>

definition sieve_wf :: "sieve_state \<Rightarrow> bool" where
  "sieve_wf s \<longleftrightarrow> well_keyed (sv_queue s) \<and> sv_hand s \<le> length (sv_queue s)"

definition sieve_keys :: "sieve_state \<Rightarrow> bytes list" where
  "sieve_keys s = keys_of (sv_queue s)"

definition sieve_ring :: "sieve_state \<Rightarrow> (bytes \<times> bool) list" where
  "sieve_ring s = drop (sv_hand s) (sv_queue s) @ take (sv_hand s) (sv_queue s)"

fun ring_scan ::
  "nat \<Rightarrow> (bytes \<Rightarrow> bool) \<Rightarrow> (bytes \<Rightarrow> bool) \<Rightarrow> (bytes \<times> bool) list \<Rightarrow> bytes option \<times> (bytes \<times> bool) list" where
  "ring_scan 0 elig demote r = (None, r)"
| "ring_scan (Suc n) elig demote [] = (None, [])"
| "ring_scan (Suc n) elig demote ((k, visited) # r) =
     (if \<not> elig k then ring_scan n elig demote r
      else if \<not> visited \<or> demote k then (Some k, r)
      else ring_scan n elig demote (r @ [(k, False)]))"

definition sieve_demote :: "bool \<Rightarrow> instant \<Rightarrow> rat \<Rightarrow> store \<Rightarrow> bytes \<Rightarrow> bool" where
  "sieve_demote ttl_aware t th st k =
     (ttl_aware \<and> (case map_of st k of None \<Rightarrow> False | Some e \<Rightarrow> is_near_expiry e t th))"

section \<open>Lemmas on the ring\<close>

lemma ring_scan_Some:
  "well_keyed r \<Longrightarrow> ring_scan n elig demote r = (Some k, r') \<Longrightarrow>
   k \<in> set (keys_of r) \<and> elig k \<and> set (keys_of r') \<subseteq> set (keys_of r) - {k} \<and> well_keyed r'"
  by (induction n elig demote r rule: ring_scan.induct) (auto split: if_splits; blast)+

lemma ring_scan_progress_aux:
  "\<lbrakk>\<forall>p\<in>set ys. elig (fst p) \<and> \<not> snd p; length xs < n; \<exists>p\<in>set (xs @ ys). elig (fst p)\<rbrakk> \<Longrightarrow>
   \<exists>k. fst (ring_scan n elig demote (xs @ ys)) = Some k"
proof (induction xs arbitrary: ys n)
  case Nil
  then obtain k r m where "ys = (k, False) # r" "n = Suc m" "elig k"
    by (cases ys; cases n) auto
  then show ?case by simp
next
  case (Cons x xs)
  obtain k b where x: "x = (k, b)" by (cases x)
  from Cons.prems(2) obtain m where n: "n = Suc m" "length xs < m" by (cases n) auto
  show ?case
  proof (cases "elig k")
    case False
    then show ?thesis using Cons.IH [OF Cons.prems(1) n(2)] Cons.prems(3) x n by auto
  next
    case True
    have "\<exists>v. fst (ring_scan m elig demote (xs @ (ys @ [(k, False)]))) = Some v"
      by (rule Cons.IH) (use Cons.prems n True in auto)
    then show ?thesis using x n True by simp
  qed
qed

lemma ring_scan_progress:
  "length r < n \<Longrightarrow> k \<in> set (keys_of r) \<Longrightarrow> elig k \<Longrightarrow> \<exists>v. fst (ring_scan n elig demote r) = Some v"
  using ring_scan_progress_aux [of "[]" elig r n demote] by auto

lemma ring_scan_keeps:
  "ring_scan n elig demote r = (v, r') \<Longrightarrow> k \<in> set (keys_of r) \<Longrightarrow> elig k \<Longrightarrow> v \<noteq> Some k \<Longrightarrow>
   k \<in> set (keys_of r')"
  by (induction n elig demote r rule: ring_scan.induct) (fastforce split: if_splits)+

lemma ring_scan_wf:
  "well_keyed r \<Longrightarrow> ring_scan n elig demote r = (v, r') \<Longrightarrow> well_keyed r'"
  by (induction n elig demote r rule: ring_scan.induct) (auto split: if_splits)

lemma mset_ring [simp]: "mset (sieve_ring s) = mset (sv_queue s)"
  by (metis append_take_drop_id mset_append sieve_ring_def union_commute)

lemma set_keys_ring [simp]: "set (keys_of (sieve_ring s)) = set (sieve_keys s)"
  by (metis mset_map mset_ring set_mset_mset sieve_keys_def)

lemma well_keyed_ring [simp]: "well_keyed (sieve_ring s) = well_keyed (sv_queue s)"
  by (metis mset_map mset_ring mset_eq_imp_distinct_iff)

lemma length_ring [simp]: "length (sieve_ring s) = length (sv_queue s)"
  by (metis mset_ring size_mset)

section \<open>One look of the sweep is one look of the ring\<close>

lemma split_at:
  "h < length q \<Longrightarrow> q = take h q @ q ! h # drop (Suc h) q"
  by (rule id_take_nth_drop)

lemma ring_normalised:
  assumes "sv_hand s \<le> length (sv_queue s)" "sv_queue s \<noteq> []"
  shows "let h = (if sv_hand s \<ge> length (sv_queue s) then 0 else sv_hand s) in
     h < length (sv_queue s) \<and>
     sieve_ring s = sv_queue s ! h # drop (Suc h) (sv_queue s) @ take h (sv_queue s)"
  using assms
  by (cases "sv_hand s < length (sv_queue s)")
    (auto simp: sieve_ring_def Let_def Cons_nth_drop_Suc neq_Nil_conv)

text \<open>One iteration of the loop, with the look-ups done.\<close>

lemma sieve_scan_step:
  assumes "h = (if sv_hand s \<ge> length (sv_queue s) then 0 else sv_hand s)"
    and "h < length (sv_queue s)" and "sv_queue s ! h = (k, b)"
  shows "sieve_scan (Suc n) st scope ta t s =
    (if \<not> eligible st scope k then
       sieve_scan n st scope ta t (s\<lparr>sv_hand := h, sv_queue := im_shift_remove k (sv_queue s)\<rparr>)
     else if \<not> b \<or> sieve_demote ta t (sv_ttl_demote_threshold s) st k then
       (Some k, s\<lparr>sv_queue := im_shift_remove k (sv_queue s),
                  sv_hand := if h \<ge> length (im_shift_remove k (sv_queue s)) then 0 else h\<rparr>)
     else sieve_scan n st scope ta t
            (s\<lparr>sv_queue := im_set_index h False (sv_queue s), sv_hand := h + 1\<rparr>))"
  using assms(2,3)
  by (cases "map_of st k")
    (simp_all add: Let_def assms(1) [symmetric] im_get_index_def eligible_def sieve_demote_def)

lemma sieve_ring_remove_front:
  assumes "sieve_wf s" "h < length (sv_queue s)" "sv_queue s ! h = (k, b)"
  shows "AList.delete k (sv_queue s) = take h (sv_queue s) @ drop (Suc h) (sv_queue s)"
  using assms delete_at [of "sv_queue s" h] by (simp add: sieve_wf_def)

lemma sieve_ring_clear_front:
  assumes "sieve_wf s" "h < length (sv_queue s)" "sv_queue s ! h = (k, b)"
  defines "s' \<equiv> s\<lparr>sv_queue := im_set_index h False (sv_queue s), sv_hand := h + 1\<rparr>"
  shows "sieve_ring s' = drop (Suc h) (sv_queue s) @ take h (sv_queue s) @ [(k, False)]"
    and "sieve_wf s'"
proof -
  have "im_set_index h False (sv_queue s) = (sv_queue s)[h := (k, False)]"
    using assms by (simp add: im_set_index_def)
  then show "sieve_ring s' = drop (Suc h) (sv_queue s) @ take h (sv_queue s) @ [(k, False)]"
    using assms by (simp add: sieve_ring_def take_Suc_conv_app_nth)
  have "length (im_set_index h False (sv_queue s)) = length (sv_queue s)"
    by (simp add: im_set_index_def)
  then show "sieve_wf s'" using assms by (simp add: sieve_wf_def)
qed

lemma sieve_scan_refines_ring:
  assumes "sieve_wf s" and "sieve_scan n st scope ta t s = (v, s')"
  shows "ring_scan n (eligible st scope)
           (sieve_demote ta t (sv_ttl_demote_threshold s) st) (sieve_ring s) = (v, sieve_ring s')
         \<and> sieve_wf s' \<and> sv_scope s' = sv_scope s"
  using assms
proof (induction n arbitrary: s)
  case 0
  then show ?case by simp
next
  case (Suc n)
  let ?q = "sv_queue s"
  define h where "h = (if sv_hand s \<ge> length ?q then 0 else sv_hand s)"
  show ?case
  proof (cases "?q = []")
    case True
    then show ?thesis using Suc.prems
      by (auto simp: im_get_index_def sieve_ring_def sieve_wf_def)
  next
    case False
    obtain k b where kb: "?q ! h = (k, b)" by (cases "?q ! h")
    have h: "h < length ?q" and ring: "sieve_ring s = (k, b) # drop (Suc h) ?q @ take h ?q"
      using ring_normalised [of s] False Suc.prems(1) kb by (auto simp: sieve_wf_def h_def Let_def)
    note del = sieve_ring_remove_front [OF Suc.prems(1) h kb]
    note step = sieve_scan_step [OF h_def h kb, of n st scope ta t]
    consider (skip) "\<not> eligible st scope k"
      | (evict) "eligible st scope k" "\<not> b \<or> sieve_demote ta t (sv_ttl_demote_threshold s) st k"
      | (clear) "eligible st scope k" "b" "\<not> sieve_demote ta t (sv_ttl_demote_threshold s) st k"
      by blast
    then show ?thesis
    proof cases
      case skip
      let ?s2 = "s\<lparr>sv_hand := h, sv_queue := im_shift_remove k ?q\<rparr>"
      have "sieve_wf ?s2" "sieve_ring ?s2 = drop (Suc h) ?q @ take h ?q"
        using h Suc.prems(1) well_keyed_delete [of ?q k]
        by (auto simp: sieve_wf_def im_shift_remove_def sieve_ring_def del simp del: well_keyed_delete)
      then show ?thesis using Suc.IH [of ?s2] Suc.prems(2) step skip ring by simp
    next
      case evict
      let ?q' = "im_shift_remove k ?q"
      let ?s2 = "s\<lparr>sv_queue := ?q', sv_hand := if h \<ge> length ?q' then 0 else h\<rparr>"
      have "sieve_wf ?s2" "sieve_ring ?s2 = drop (Suc h) ?q @ take h ?q"
        using h Suc.prems(1) well_keyed_delete [of ?q k]
        by (auto simp: sieve_wf_def im_shift_remove_def sieve_ring_def del simp del: well_keyed_delete)
      moreover have "v = Some k" "s' = ?s2" using Suc.prems(2) step evict by auto
      ultimately show ?thesis using evict ring by simp
    next
      case clear
      note c = sieve_ring_clear_front [OF Suc.prems(1) h kb]
      show ?thesis using Suc.IH [OF c(2)] Suc.prems(2) step clear ring c(1) by simp
    qed
  qed
qed

lemma sieve_evict_refines_ring:
  assumes "sieve_wf s" and "sieve_evict_one ta t st scope s = (v, s')"
  shows "ring_scan (length (sv_queue s) + 1) (eligible st scope)
           (sieve_demote ta t (sv_ttl_demote_threshold s) st) (sieve_ring s) = (v, sieve_ring s')
         \<and> sieve_wf s' \<and> sv_scope s' = sv_scope s"
proof (cases "sv_queue s = []")
  case True
  then show ?thesis using assms by (simp add: sieve_evict_one_def sieve_ring_def)
next
  case False
  then have "sieve_scan (length (sv_queue s) + 1) st scope ta t s = (v, s')"
    using assms(2) by (simp add: sieve_evict_one_def Let_def)
  then show ?thesis by (rule sieve_scan_refines_ring [OF assms(1)])
qed

section \<open>The eviction contract\<close>

lemma sieve_enqueue_keys:
  "set (keys_of (sieve_enqueue st scope q)) = set (keys_of q) \<union> {k. \<exists>e. (k, e) \<in> set st \<and> in_scope scope e}"
  by (induction st scope q rule: sieve_enqueue.induct) (auto simp: im_insert_def)

lemma sieve_enqueue_wf: "well_keyed q \<Longrightarrow> well_keyed (sieve_enqueue st scope q)"
  by (induction st scope q rule: sieve_enqueue.induct) (auto simp: im_insert_def)

lemma eligible_iff_mem:
  "well_keyed st \<Longrightarrow> eligible st scope k \<longleftrightarrow> (\<exists>e. (k, e) \<in> set st \<and> in_scope scope e)"
  by (auto simp: eligible_def split: option.splits dest: map_of_SomeD weak_map_of_SomeI)
    (metis map_of_eq_Some_iff option.inject)+

lemma length_update_le: "length m \<le> length (AList.update k v m)"
  by (induction m) auto

lemma sieve_wf_remove: "sieve_wf s \<Longrightarrow> sieve_wf (sieve_observe_remove k s)"
  by (auto simp: sieve_wf_def sieve_observe_remove_def im_shift_remove_def Let_def split: option.splits)

lemma sieve_keys_remove: "set (sieve_keys (sieve_observe_remove k s)) = set (sieve_keys s) - {k}"
proof (cases "im_get_index_of k (sv_queue s)")
  case None
  then have "k \<notin> set (sieve_keys s)" by (simp add: sieve_keys_def del: set_map)
  moreover have "sieve_observe_remove k s = s"
    by (simp add: sieve_observe_remove_def None del: im_get_index_of_None)
  ultimately show ?thesis by simp
next
  case (Some i)
  then show ?thesis
    by (simp add: sieve_observe_remove_def sieve_keys_def im_shift_remove_def Let_def del: set_map)
qed

lemma sieve_wf_insert: "sieve_wf s \<Longrightarrow> sieve_wf (sieve_observe_insert k ttl s)"
  using length_update_le [of "sv_queue s" k False]
  by (auto simp: sieve_observe_insert_def sieve_wf_remove) (auto simp: sieve_wf_def im_insert_def)

lemma sieve_wf_access: "sieve_wf s \<Longrightarrow> sieve_wf (sieve_observe_access k s)"
  using length_update_le [of "sv_queue s" k True]
  by (auto simp: sieve_observe_access_def sieve_wf_def im_insert_def split: option.splits)

lemma sieve_keys_insert: "set (sieve_keys (sieve_observe_insert k ttl s)) =
   (if tracks (sv_scope s) ttl then insert k (set (sieve_keys s)) else set (sieve_keys s) - {k})"
  by (auto simp: sieve_observe_insert_def sieve_keys_remove tracks_def)
    (auto simp: sieve_keys_def im_insert_def simp flip: set_map)

lemma sieve_keys_access: "set (sieve_keys (sieve_observe_access k s)) = set (sieve_keys s)"
  by (auto simp: sieve_observe_access_def sieve_keys_def im_insert_def split: option.splits
      simp flip: set_map) (metis map_of_eq_None_iff option.distinct(1) set_map)+

interpretation sv: eviction_index sieve_keys sv_scope sieve_wf sieve_observe_insert
  sieve_observe_access sieve_observe_remove sieve_rebuild sieve_clear "sieve_evict_one ta t"
proof (unfold_locales, goal_cases)
  case (1 s)
  then show ?case by (simp add: sieve_wf_def sieve_keys_def)
next
  case (2 s k ttl)
  then show ?case by (rule sieve_wf_insert)
next
  case (3 s k)
  then show ?case by (rule sieve_wf_access)
next
  case (4 s k)
  then show ?case by (rule sieve_wf_remove)
next
  case (5 st sc s)
  then show ?case by (simp add: sieve_wf_def sieve_rebuild_def sieve_enqueue_wf)
next
  case (6 s)
  then show ?case by (simp add: sieve_wf_def sieve_clear_def)
next
  case (7 s st sc)
  then show ?case using sieve_evict_refines_ring by (metis prod.collapse)
next
  case (8 s k ttl)
  show ?case by (rule sieve_keys_insert)
next
  case (9 s k)
  show ?case by (rule sieve_keys_access)
next
  case (10 s k)
  show ?case by (rule sieve_keys_remove)
next
  case (11 st sc s)
  then show ?case
    by (simp add: sieve_keys_def sieve_rebuild_def sieve_enqueue_keys eligible_iff_mem del: set_map)
next
  case (12 s)
  then show ?case by (simp add: sieve_keys_def sieve_clear_def)
next
  case (13 s st sc k s')
  then show ?case using sieve_evict_refines_ring [OF 13] ring_scan_Some
    by (metis set_keys_ring sieve_wf_def well_keyed_ring)
next
  case (14 s st sc s')
  show ?case using sieve_evict_refines_ring [OF 14]
      ring_scan_progress [of "sieve_ring s" "length (sv_queue s) + 1"]
    by (metis fst_conv length_ring less_add_one option.distinct(1) set_keys_ring)
next
  case (15 s st sc r s' k)
  show ?case using sieve_evict_refines_ring [OF 15(1,2)] ring_scan_keeps 15(3-)
    by (metis set_keys_ring)
qed

end
