(* ===== verification/AdaptiveClimb.thy ===== *)
theory AdaptiveClimb
  imports Sieve
begin

text \<open>
  Models \<^verbatim>\<open>src/src/storage/adaptive_climb.rs\<close>: the AdaptiveClimb list (most recently used key
  first) with its promotion distance \<^verbatim>\<open>jump\<close>. It provides the same eviction contract as the
  SIEVE queue. The last section gives the movement of a hit and of a miss in terms of positions,
  and the range of \<^verbatim>\<open>jump\<close>.
\<close>

section \<open>State and operations\<close>

record adaptive_climb_state =
  ac_queue :: "(bytes \<times> unit) list"
  ac_jump :: nat
  ac_scope :: eviction_scope

definition ac_new :: adaptive_climb_state where
  "ac_new = \<lparr>ac_queue = [], ac_jump = 1, ac_scope = AllKeys\<rparr>"

definition clamp_jump :: "adaptive_climb_state \<Rightarrow> adaptive_climb_state" where
  "clamp_jump s =
     (let len = length (ac_queue s) in
      if len = 0 then s\<lparr>ac_jump := 1\<rparr> else s\<lparr>ac_jump := max 1 (min (ac_jump s) len)\<rparr>)"

definition ac_observe_remove :: "bytes \<Rightarrow> adaptive_climb_state \<Rightarrow> adaptive_climb_state" where
  "ac_observe_remove key s = clamp_jump (s\<lparr>ac_queue := im_shift_remove key (ac_queue s)\<rparr>)"

definition ac_observe_insert :: "bytes \<Rightarrow> bool \<Rightarrow> adaptive_climb_state \<Rightarrow> adaptive_climb_state" where
  "ac_observe_insert key has_ttl s =
     (if ac_scope s = Volatile \<and> \<not> has_ttl then ac_observe_remove key s
      else let s = clamp_jump (s\<lparr>ac_queue := im_shift_remove key (ac_queue s)\<rparr>);
               len = length (ac_queue s);
               s = (if len = 0 then s\<lparr>ac_jump := 1\<rparr>
                    else if ac_jump s < len then s\<lparr>ac_jump := ac_jump s + 1\<rparr> else s);
               pos = min (len - ac_jump s) len
           in s\<lparr>ac_queue := im_insert_before pos key () (ac_queue s)\<rparr>)"

definition ac_observe_access :: "bytes \<Rightarrow> adaptive_climb_state \<Rightarrow> adaptive_climb_state" where
  "ac_observe_access key s =
     (case im_get_index_of key (ac_queue s) of
        None \<Rightarrow> s
      | Some p \<Rightarrow>
          let s = (if ac_jump s > 1 then s\<lparr>ac_jump := ac_jump s - 1\<rparr> else s) in
          if p > 0 then
            let target = p - ac_jump s in
            if target < p then s\<lparr>ac_queue := im_move_index p target (ac_queue s)\<rparr> else s
          else s)"

fun ac_enqueue :: "store \<Rightarrow> eviction_scope \<Rightarrow> (bytes \<times> unit) list \<Rightarrow> (bytes \<times> unit) list" where
  "ac_enqueue [] scope q = q"
| "ac_enqueue ((key, e) # st) scope q =
     ac_enqueue st scope
       (if in_scope scope e then im_insert_before (length q) key () q else q)"

definition ac_rebuild :: "store \<Rightarrow> eviction_scope \<Rightarrow> adaptive_climb_state \<Rightarrow> adaptive_climb_state" where
  "ac_rebuild st scope s = s\<lparr>ac_queue := ac_enqueue st scope [], ac_jump := 1, ac_scope := scope\<rparr>"

definition ac_clear :: "adaptive_climb_state \<Rightarrow> adaptive_climb_state" where
  "ac_clear s = s\<lparr>ac_queue := [], ac_jump := 1\<rparr>"

text \<open>The loop over \<^verbatim>\<open>(0..n).rev()\<close>: \<open>ac_scan n\<close> looks at index \<open>n - 1\<close> first.\<close>

fun ac_scan ::
  "nat \<Rightarrow> store \<Rightarrow> eviction_scope \<Rightarrow> adaptive_climb_state \<Rightarrow> bytes option \<times> adaptive_climb_state" where
  "ac_scan 0 st scope s = (None, s)"
| "ac_scan (Suc idx) st scope s =
     (case im_get_index idx (ac_queue s) of
        None \<Rightarrow> (None, s)
      | Some (key, _) \<Rightarrow>
          if (case map_of st key of None \<Rightarrow> False | Some e \<Rightarrow> in_scope scope e) then
            (Some key, s\<lparr>ac_queue := im_shift_remove_index idx (ac_queue s)\<rparr>)
          else ac_scan idx st scope s)"

definition ac_evict_one ::
  "store \<Rightarrow> eviction_scope \<Rightarrow> adaptive_climb_state \<Rightarrow> bytes option \<times> adaptive_climb_state" where
  "ac_evict_one st scope s =
     (let n = length (ac_queue s) in if n = 0 then (None, s) else ac_scan n st scope s)"

section \<open>Well-formedness\<close>

definition ac_wf :: "adaptive_climb_state \<Rightarrow> bool" where
  "ac_wf s \<longleftrightarrow> well_keyed (ac_queue s) \<and> 1 \<le> ac_jump s"

definition ac_keys :: "adaptive_climb_state \<Rightarrow> bytes list" where
  "ac_keys s = keys_of (ac_queue s)"

text \<open>The range the documentation promises for \<^verbatim>\<open>jump\<close>.\<close>

definition ac_clamped :: "adaptive_climb_state \<Rightarrow> bool" where
  "ac_clamped s \<longleftrightarrow> 1 \<le> ac_jump s \<and> ac_jump s \<le> max 1 (length (ac_queue s))"

lemma clamp_jump_simps [simp]:
  "ac_queue (clamp_jump s) = ac_queue s" "ac_scope (clamp_jump s) = ac_scope s"
  by (simp_all add: clamp_jump_def Let_def)

lemma clamp_jump_clamped [simp]: "ac_clamped (clamp_jump s)"
  by (auto simp: clamp_jump_def ac_clamped_def Let_def)

lemma clamp_jump_ge [simp]: "Suc 0 \<le> ac_jump (clamp_jump s)"
  using clamp_jump_clamped [of s] by (simp add: ac_clamped_def)

lemma insert_before_absent:
  "k \<notin> fst ` set m \<Longrightarrow> im_insert_before i k v m = take i m @ (k, v) # drop i m"
  using im_get_index_of_None [of k m]
  by (simp add: im_insert_before_def delete_idem del: im_get_index_of_None)

lemma set_split_list: "set (take i m) \<union> set (drop i m) = set m"
  by (metis append_take_drop_id set_append)

lemma insert_before_keys:
  assumes "k \<notin> fst ` set m"
  shows "fst ` set (im_insert_before i k v m) = insert k (fst ` set m)"
    and "well_keyed (im_insert_before i k v m) = well_keyed m"
proof -
  show "fst ` set (im_insert_before i k v m) = insert k (fst ` set m)"
    by (simp add: insert_before_absent [OF assms] flip: set_split_list [of i m] image_Un)
  have "mset (im_insert_before i k v m) = add_mset (k, v) (mset m)"
    unfolding insert_before_absent [OF assms]
    by (metis append_take_drop_id mset.simps(2) mset_append union_mset_add_mset_right)
  then have "mset (keys_of (im_insert_before i k v m)) = mset (k # keys_of m)" by simp
  then have "well_keyed (im_insert_before i k v m) = distinct (k # keys_of m)"
    by (rule mset_eq_imp_distinct_iff)
  then show "well_keyed (im_insert_before i k v m) = well_keyed m" using assms by simp
qed

lemma length_move_index: "p < length m \<Longrightarrow> length (im_move_index p t m) = length m"
  by (metis mset_move_index size_mset)

lemma move_index_keys:
  assumes "p < length m"
  shows "fst ` set (im_move_index p t m) = fst ` set m"
    and "well_keyed (im_move_index p t m) = well_keyed m"
proof -
  note m = mset_move_index [OF assms, of t]
  show "fst ` set (im_move_index p t m) = fst ` set m" using m by (metis set_mset_mset)
  have "mset (keys_of (im_move_index p t m)) = mset (keys_of m)" using m by simp
  then show "well_keyed (im_move_index p t m) = well_keyed m" by (rule mset_eq_imp_distinct_iff)
qed

lemma ac_wf_remove: "ac_wf s \<Longrightarrow> ac_wf (ac_observe_remove k s)"
  by (simp add: ac_wf_def ac_observe_remove_def im_shift_remove_def)

lemma ac_keys_remove: "set (ac_keys (ac_observe_remove k s)) = set (ac_keys s) - {k}"
  by (simp add: ac_keys_def ac_observe_remove_def im_shift_remove_def)

lemma ac_insert_queue:
  "tracks (ac_scope s) ttl \<Longrightarrow> \<exists>i. ac_queue (ac_observe_insert k ttl s) =
     im_insert_before i k () (AList.delete k (ac_queue s))"
  by (auto simp: ac_observe_insert_def tracks_def Let_def im_shift_remove_def)

lemma ac_wf_insert: "ac_wf s \<Longrightarrow> ac_wf (ac_observe_insert k ttl s)"
  by (auto simp: ac_observe_insert_def ac_wf_remove)
    (auto simp: ac_wf_def Let_def im_shift_remove_def insert_before_keys)

lemma ac_keys_insert: "set (ac_keys (ac_observe_insert k ttl s)) =
   (if tracks (ac_scope s) ttl then insert k (set (ac_keys s)) else set (ac_keys s) - {k})"
proof (cases "tracks (ac_scope s) ttl")
  case True
  obtain i where "ac_queue (ac_observe_insert k ttl s) =
      im_insert_before i k () (AList.delete k (ac_queue s))"
    using ac_insert_queue [OF True] by blast
  then show ?thesis using True by (simp add: ac_keys_def insert_before_keys)
next
  case False
  then have "ac_observe_insert k ttl s = ac_observe_remove k s"
    by (auto simp: tracks_def ac_observe_insert_def)
  then show ?thesis using False by (simp add: ac_keys_remove)
qed

lemma ac_access_queue:
  "ac_queue (ac_observe_access k s) = ac_queue s \<or>
   (\<exists>p t. p < length (ac_queue s) \<and> ac_queue (ac_observe_access k s) = im_move_index p t (ac_queue s))"
  by (auto simp: ac_observe_access_def Let_def split: option.splits dest!: im_get_index_of_Some)

lemma ac_jump_access: "1 \<le> ac_jump s \<Longrightarrow> 1 \<le> ac_jump (ac_observe_access k s)"
  by (auto simp: ac_observe_access_def Let_def split: option.splits)

lemma ac_wf_access: "ac_wf s \<Longrightarrow> ac_wf (ac_observe_access k s)"
  using ac_access_queue [of k s] ac_jump_access [of s k] by (auto simp: ac_wf_def move_index_keys)

lemma ac_keys_access: "set (ac_keys (ac_observe_access k s)) = set (ac_keys s)"
  using ac_access_queue [of k s] by (elim disjE exE conjE) (simp_all add: ac_keys_def move_index_keys)

lemma ac_enqueue_keys:
  assumes "distinct (keys_of st)" "set (keys_of st) \<inter> set (keys_of q) = {}"
  shows "fst ` set (ac_enqueue st scope q) =
           fst ` set q \<union> {k. \<exists>e. (k, e) \<in> set st \<and> in_scope scope e}"
    and "well_keyed q \<Longrightarrow> well_keyed (ac_enqueue st scope q)"
  using assms
  by (induction st scope q rule: ac_enqueue.induct) (auto simp: insert_before_keys image_iff)

section \<open>The eviction contract\<close>

lemma ac_scan_result:
  assumes "ac_wf s" "n \<le> length (ac_queue s)" "ac_scan n st scope s = (v, s')"
  shows "case v of
     None \<Rightarrow> s' = s \<and> (\<forall>i<n. \<not> eligible st scope (ac_keys s ! i))
   | Some k \<Rightarrow> eligible st scope k \<and> k \<in> set (ac_keys s) \<and>
       s' = s\<lparr>ac_queue := AList.delete k (ac_queue s)\<rparr>"
  using assms
proof (induction n st scope s rule: ac_scan.induct)
  case (2 idx st scope s)
  obtain k u where ku: "ac_queue s ! idx = (k, u)" by (cases "ac_queue s ! idx")
  from 2(3) have idx: "idx < length (ac_queue s)" by simp
  have kk: "ac_keys s ! idx = k" using ku idx by (simp add: ac_keys_def)
  show ?case
  proof (cases "eligible st scope k")
    case True
    then have "v = Some k" "s' = s\<lparr>ac_queue := im_shift_remove_index idx (ac_queue s)\<rparr>"
      using 2(4) ku idx by (auto simp: im_get_index_def eligible_def split: option.splits)
    moreover have "im_shift_remove_index idx (ac_queue s) = AList.delete k (ac_queue s)"
      using delete_at [of "ac_queue s" idx] idx ku 2(2)
      by (simp add: ac_wf_def im_shift_remove_index_def)
    moreover have "k \<in> set (ac_keys s)" using kk idx by (metis ac_keys_def length_map nth_mem)
    ultimately show ?thesis using True by simp
  next
    case False
    then have r: "ac_scan idx st scope s = (v, s')"
      using 2(4) ku idx by (simp add: im_get_index_def eligible_def split: option.splits)
    have "ac_scan (Suc idx) st scope s = ac_scan idx st scope s" using r 2(4) by simp
    then show ?thesis
      using 2(1) [OF _ refl, of k u] False r ku idx 2(2,3) kk
      by (cases v) (auto simp: im_get_index_def eligible_def less_Suc_eq split: option.splits)
  qed
qed simp

lemma ac_evict_result:
  assumes "ac_wf s" "ac_evict_one st scope s = (v, s')"
  shows "case v of
     None \<Rightarrow> s' = s \<and> (\<forall>k\<in>set (ac_keys s). \<not> eligible st scope k)
   | Some k \<Rightarrow> eligible st scope k \<and> k \<in> set (ac_keys s) \<and>
       s' = s\<lparr>ac_queue := AList.delete k (ac_queue s)\<rparr>"
proof (cases "ac_queue s = []")
  case True
  then show ?thesis using assms(2) by (auto simp: ac_evict_one_def ac_keys_def)
next
  case False
  then have "ac_scan (length (ac_queue s)) st scope s = (v, s')"
    using assms(2) by (simp add: ac_evict_one_def Let_def)
  from ac_scan_result [OF assms(1) order_refl this] show ?thesis
    by (cases v) (simp_all add: all_set_conv_all_nth, simp add: ac_keys_def)
qed

interpretation ac: eviction_index ac_keys ac_scope ac_wf ac_observe_insert
  ac_observe_access ac_observe_remove ac_rebuild ac_clear ac_evict_one
proof (unfold_locales, goal_cases)
  case (1 s)
  then show ?case by (simp add: ac_wf_def ac_keys_def)
next
  case (2 s k ttl)
  then show ?case by (rule ac_wf_insert)
next
  case (3 s k)
  then show ?case by (rule ac_wf_access)
next
  case (4 s k)
  then show ?case by (rule ac_wf_remove)
next
  case (5 st sc s)
  then show ?case by (simp add: ac_wf_def ac_rebuild_def ac_enqueue_keys)
next
  case (6 s)
  then show ?case by (simp add: ac_wf_def ac_clear_def)
next
  case (7 s st sc)
  then show ?case using ac_evict_result [of s st sc]
    by (cases "ac_evict_one st sc s") (auto simp: ac_wf_def split: option.splits)
next
  case (8 s k ttl)
  show ?case by (rule ac_keys_insert)
next
  case (9 s k)
  show ?case by (rule ac_keys_access)
next
  case (10 s k)
  show ?case by (rule ac_keys_remove)
next
  case (11 st sc s)
  then show ?case by (simp add: ac_keys_def ac_rebuild_def ac_enqueue_keys eligible_iff_mem)
next
  case (12 s)
  then show ?case by (simp add: ac_keys_def ac_clear_def)
next
  case (13 s st sc k s')
  then show ?case using ac_evict_result [OF 13] by (auto simp: ac_keys_def)
next
  case (14 s st sc s')
  show ?case using ac_evict_result [OF 14] by simp
next
  case (15 s st sc r s' k)
  show ?case using ac_evict_result [OF 15(1,2)] 15(3-) by (auto simp: ac_keys_def split: option.splits)
qed

section \<open>The range of \<open>jump\<close> and the movement of keys\<close>

lemma ac_clamped_insert: "ac_clamped (ac_observe_insert k ttl s)"
proof (cases "ac_scope s = Volatile \<and> \<not> ttl")
  case True
  then show ?thesis by (simp add: ac_observe_insert_def ac_observe_remove_def)
next
  case False
  define s1 where "s1 = clamp_jump (s\<lparr>ac_queue := im_shift_remove k (ac_queue s)\<rparr>)"
  define s2 where "s2 = (if length (ac_queue s1) = 0 then s1\<lparr>ac_jump := 1\<rparr>
      else if ac_jump s1 < length (ac_queue s1) then s1\<lparr>ac_jump := ac_jump s1 + 1\<rparr> else s1)"
  define pos where "pos = min (length (ac_queue s1) - ac_jump s2) (length (ac_queue s1))"
  have ins: "ac_observe_insert k ttl s = s2\<lparr>ac_queue := im_insert_before pos k () (ac_queue s2)\<rparr>"
    using False unfolding ac_observe_insert_def s1_def s2_def pos_def Let_def by (simp only: if_False)
  have "ac_clamped s1" by (simp add: s1_def)
  then have "ac_clamped s2" by (auto simp: s2_def ac_clamped_def)
  moreover have "length (ac_queue s2) \<le> length (im_insert_before pos k () (ac_queue s2))"
    by (simp add: insert_before_absent s2_def s1_def im_shift_remove_def)
  ultimately show ?thesis by (auto simp: ins ac_clamped_def)
qed

lemma ac_clamped_access: "ac_clamped s \<Longrightarrow> ac_clamped (ac_observe_access k s)"
  by (auto simp: ac_clamped_def ac_observe_access_def Let_def length_move_index
      split: option.splits dest!: im_get_index_of_Some)

lemma ac_clamped_remove: "ac_clamped (ac_observe_remove k s)"
  by (simp add: ac_observe_remove_def)

end
