(* ===== verification/AofWriter.thy ===== *)
theory AofWriter
  imports Prelude
begin

text \<open>
  Models \<^verbatim>\<open>src/src/persistence/resp.rs\<close> (the RESP2 command encoding), the fsync policy of
  \<^verbatim>\<open>src/src/persistence/config.rs\<close> and \<^verbatim>\<open>src/src/persistence/writer.rs\<close>, the append-only file
  writer with its group commit and its rewrite protocol.

  The operating system is a script: every I/O call of the writer takes the next outcome of
  \<open>w_io\<close>, which says whether the call succeeds and how many bytes reach the file in it (an empty
  script means success). \<open>w_buf\<close> are the bytes held by the \<^verbatim>\<open>BufWriter\<close>, \<open>w_file\<close> the bytes of
  the file behind the open handle and \<open>w_durable\<close> the length of the prefix of it that a completed
  \<^verbatim>\<open>sync_data\<close> covers. Between the rename and the handle swap of a rewrite the path names another
  file than the handle does: \<open>w_path\<close> then holds the bytes of that file.

  Error values keep the fixed text of the message and leave out the operating system's text.
\<close>

section \<open>RESP2 command encoding\<close>

definition encode_part :: "bytes \<Rightarrow> bytes" where
  "encode_part p = CHR ''$'' # show_nat (length p) @ CRLF @ p @ CRLF"

definition encode_command :: "bytes list \<Rightarrow> bytes" where
  "encode_command parts = CHR ''*'' # show_nat (length parts) @ CRLF @ concat (map encode_part parts)"

section \<open>The writer\<close>

datatype fsync_policy = FsyncAlways | FsyncEverySec | FsyncNo

fun fsync_from_name :: "bytes \<Rightarrow> fsync_policy option" where
  "fsync_from_name s =
     (if s = ''always'' then Some FsyncAlways
      else if s = ''everysec'' then Some FsyncEverySec
      else if s = ''no'' then Some FsyncNo
      else None)"

text \<open>\<open>IoOk n\<close>: the call succeeds, \<open>n\<close> bytes reach the file. \<open>IoErr m n\<close>: the call fails after \<open>m\<close>
  further bytes were accepted, \<open>n\<close> bytes reached the file.\<close>

datatype io_outcome = IoOk nat | IoErr nat nat

record aof_writer =
  w_file :: bytes
  w_buf :: bytes
  w_durable :: nat
  w_path :: "bytes option"
  w_seq :: nat
  w_synced :: nat
  w_fsyncs :: nat
  w_fsync_skips :: nat
  w_policy :: fsync_policy
  w_rewriting :: bool
  w_delta :: bytes
  w_delta_cap :: nat
  w_io :: "io_outcome list"

definition DEFAULT_DELTA_CAP :: nat where "DEFAULT_DELTA_CAP = 67108864"

definition next_io :: "aof_writer \<Rightarrow> io_outcome \<times> aof_writer" where
  "next_io w = (case w_io w of [] \<Rightarrow> (IoOk 0, w) | o1 # os \<Rightarrow> (o1, w\<lparr>w_io := os\<rparr>))"

definition io_failed :: "io_outcome \<Rightarrow> bool" where
  "io_failed out = (case out of IoOk _ \<Rightarrow> False | IoErr _ _ \<Rightarrow> True)"

definition aof_fresh :: "fsync_policy \<Rightarrow> bytes \<Rightarrow> io_outcome list \<Rightarrow> aof_writer" where
  "aof_fresh fsync contents script =
     \<lparr>w_file = contents, w_buf = [], w_durable = 0, w_path = None,
      w_seq = 0, w_synced = 0, w_fsyncs = 0, w_fsync_skips = 0, w_policy = fsync,
      w_rewriting = False, w_delta = [], w_delta_cap = DEFAULT_DELTA_CAP, w_io = script\<rparr>"

text \<open>\<^verbatim>\<open>open\<close>: the open, the clone of the handle and, for \<^verbatim>\<open>everysec\<close>, the start of the flusher may fail.\<close>

definition aof_open :: "fsync_policy \<Rightarrow> bytes \<Rightarrow> io_outcome list \<Rightarrow> aof_writer result" where
  "aof_open fsync contents script =
     (let (opened, w) = next_io (aof_fresh fsync contents script) in
      if io_failed opened then Err (PersistenceError ''aof open failed'')
      else let (cloned, w) = next_io w in
      if io_failed cloned then Err (PersistenceError ''aof clone failed'')
      else case fsync of
        FsyncEverySec \<Rightarrow>
          (let (spawned, w) = next_io w in
           if io_failed spawned then Err (PersistenceError ''failed to spawn aof fsync thread'')
           else Ok w)
      | _ \<Rightarrow> Ok w)"

text \<open>\<^verbatim>\<open>BufWriter::write_all\<close>, \<^verbatim>\<open>BufWriter::flush\<close> and \<^verbatim>\<open>File::sync_data\<close>.\<close>

definition to_file :: "nat \<Rightarrow> bytes \<Rightarrow> aof_writer \<Rightarrow> aof_writer" where
  "to_file n pending w = w\<lparr>w_file := w_file w @ take n pending, w_buf := drop n pending\<rparr>"

definition bw_write_all :: "bytes \<Rightarrow> aof_writer \<Rightarrow> bool \<times> aof_writer" where
  "bw_write_all bs w =
     (let (out, w) = next_io w in
      case out of
        IoOk n \<Rightarrow> (True, to_file n (w_buf w @ bs) w)
      | IoErr m n \<Rightarrow> (False, to_file n (w_buf w @ take m bs) w))"

definition bw_flush :: "aof_writer \<Rightarrow> bool \<times> aof_writer" where
  "bw_flush w =
     (let (out, w) = next_io w in
      case out of
        IoOk n \<Rightarrow> (True, to_file (length (w_buf w)) (w_buf w) w)
      | IoErr m n \<Rightarrow> (False, to_file n (w_buf w) w))"

definition sync_data :: "aof_writer \<Rightarrow> bool \<times> aof_writer" where
  "sync_data w =
     (let (out, w) = next_io w in
      case out of
        IoOk n \<Rightarrow> (True, w\<lparr>w_durable := length (w_file w)\<rparr>)
      | IoErr m n \<Rightarrow> (False, w))"

section \<open>Appending\<close>

definition delta_mirror :: "bytes \<Rightarrow> aof_writer \<Rightarrow> aof_writer" where
  "delta_mirror bs w =
     (if w_rewriting w then
        (if length (w_delta w) + length bs > w_delta_cap w
         then w\<lparr>w_rewriting := False, w_delta := []\<rparr>
         else w\<lparr>w_delta := w_delta w @ bs\<rparr>)
      else w)"

definition write_bytes :: "bytes \<Rightarrow> aof_writer \<Rightarrow> unit result \<times> aof_writer" where
  "write_bytes bs w =
     (let (ok, w) = bw_write_all bs w in
      if \<not> ok then (Err (PersistenceError ''aof write failed''), w)
      else case w_policy w of
        FsyncAlways \<Rightarrow>
          (let (ok, w) = bw_flush w in
           if \<not> ok then (Err (PersistenceError ''aof flush failed''), w)
           else (Ok (), delta_mirror bs (w\<lparr>w_seq := wrap_u64 (w_seq w + 1)\<rparr>)))
      | _ \<Rightarrow> (Ok (), delta_mirror bs w))"

definition aof_append :: "bytes list \<Rightarrow> aof_writer \<Rightarrow> unit result \<times> aof_writer" where
  "aof_append parts w = write_bytes (encode_command parts) w"

definition append_set :: "bytes \<Rightarrow> bytes \<Rightarrow> aof_writer \<Rightarrow> unit result \<times> aof_writer" where
  "append_set key val w = aof_append [''SET'', key, val] w"

definition append_set_many :: "(bytes \<times> bytes) list \<Rightarrow> aof_writer \<Rightarrow> unit result \<times> aof_writer" where
  "append_set_many pairs w =
     (if pairs = [] then (Ok (), w)
      else write_bytes (concat (map (\<lambda>(k, v). encode_command [''SET'', k, v]) pairs)) w)"

definition append_del :: "bytes \<Rightarrow> aof_writer \<Rightarrow> unit result \<times> aof_writer" where
  "append_del key w = aof_append [''DEL'', key] w"

definition append_flushdb :: "aof_writer \<Rightarrow> unit result \<times> aof_writer" where
  "append_flushdb w = aof_append [''FLUSHDB''] w"

definition append_pexpireat :: "bytes \<Rightarrow> int \<Rightarrow> aof_writer \<Rightarrow> unit result \<times> aof_writer" where
  "append_pexpireat key abs_epoch_ms w = aof_append [''PEXPIREAT'', key, show_int abs_epoch_ms] w"

definition append_persist :: "bytes \<Rightarrow> aof_writer \<Rightarrow> unit result \<times> aof_writer" where
  "append_persist key w = aof_append [''PERSIST'', key] w"

section \<open>The durability barrier and the rewrite protocol\<close>

definition sync_if_needed :: "aof_writer \<Rightarrow> unit result \<times> aof_writer" where
  "sync_if_needed w =
     (if w_policy w \<noteq> FsyncAlways then (Ok (), w)
      else let target = w_seq w in
      if w_synced w \<ge> target then (Ok (), w)
      else let covered = w_seq w in
      if w_synced w \<ge> covered
      then (Ok (), w\<lparr>w_fsync_skips := wrap_u64 (w_fsync_skips w + 1)\<rparr>)
      else let (ok, w) = bw_flush w in
      if \<not> ok then (Err (PersistenceError ''aof flush failed''), w)
      else let (ok, w) = sync_data w in
      if \<not> ok then (Err (PersistenceError ''aof fsync failed''), w)
      else (Ok (), w\<lparr>w_synced := max (w_synced w) covered,
                     w_fsyncs := wrap_u64 (w_fsyncs w + 1)\<rparr>))"

definition try_begin_rewrite :: "aof_writer \<Rightarrow> bool \<times> aof_writer" where
  "try_begin_rewrite w =
     (if w_rewriting w then (False, w) else (True, w\<lparr>w_rewriting := True\<rparr>))"

definition abort_rewrite :: "aof_writer \<Rightarrow> aof_writer" where
  "abort_rewrite w = w\<lparr>w_delta := [], w_rewriting := False\<rparr>"

text \<open>
  \<^verbatim>\<open>finish_rewrite\<close> in the two parts an appender can run between: the rename, done before
  \<^verbatim>\<open>rewrite_lock\<close> is taken, and the handle swap under that lock. The result of the first part says
  whether the second one runs.
\<close>

definition finish_rename :: "bytes \<Rightarrow> aof_writer \<Rightarrow> bool result \<times> aof_writer" where
  "finish_rename snapshot w =
     (if \<not> w_rewriting w then (Ok False, w)
      else let (out, w) = next_io w in
      case out of
        IoErr m n \<Rightarrow> (Err (PersistenceError ''aof rename failed''), w)
      | IoOk n \<Rightarrow> (Ok True, w\<lparr>w_path := Some snapshot\<rparr>))"

definition finish_swap :: "aof_writer \<Rightarrow> unit result \<times> aof_writer" where
  "finish_swap w =
     (let (out, w) = next_io w in
      case out of
        IoErr m n \<Rightarrow> (Err (PersistenceError ''aof reopen failed''), w)
      | IoOk n \<Rightarrow>
          let new = (case w_path w of None \<Rightarrow> w_file w | Some p \<Rightarrow> p);
              w = w\<lparr>w_file := new, w_buf := [], w_durable := length new, w_path := None,
                    w_seq := 0, w_synced := 0\<rparr>
          in if w_delta w = [] then (Ok (), w\<lparr>w_delta := [], w_rewriting := False\<rparr>)
             else let (ok, w) = bw_write_all (w_delta w) w in
             if \<not> ok then (Err (PersistenceError ''aof rewrite delta replay failed''), w)
             else let (ok, w) = bw_flush w in
             if \<not> ok then (Err (PersistenceError ''aof rewrite delta flush failed''), w)
             else let (ok, w) = sync_data w in
             if \<not> ok then (Err (PersistenceError ''aof rewrite delta fsync failed''), w)
             else (Ok (), w\<lparr>w_delta := [], w_rewriting := False\<rparr>))"

definition finish_rewrite :: "bytes \<Rightarrow> aof_writer \<Rightarrow> unit result \<times> aof_writer" where
  "finish_rewrite snapshot w =
     (case finish_rename snapshot w of
        (Err e, w) \<Rightarrow> (Err e, w)
      | (Ok go, w) \<Rightarrow> if go then finish_swap w else (Ok (), w))"

text \<open>One round of the background flusher, and the flush and sync of \<^verbatim>\<open>Drop\<close>.\<close>

definition flusher_round :: "aof_writer \<Rightarrow> aof_writer" where
  "flusher_round w = (let (ok, w) = bw_flush w in if \<not> ok then w else snd (sync_data w))"

definition aof_drop :: "aof_writer \<Rightarrow> aof_writer" where
  "aof_drop w = snd (sync_data (snd (bw_flush w)))"

section \<open>Library lemmas\<close>

text \<open>The bytes the writer has accepted: what the file holds once the buffer is flushed.\<close>

definition aof_log :: "aof_writer \<Rightarrow> bytes" where
  "aof_log w = w_file w @ w_buf w"

text \<open>What a reader that opens the path finds.\<close>

definition path_bytes :: "aof_writer \<Rightarrow> bytes" where
  "path_bytes w = (case w_path w of None \<Rightarrow> w_file w | Some p \<Rightarrow> p)"

lemma next_io_simps [simp]:
  "w_file (snd (next_io w)) = w_file w" "w_buf (snd (next_io w)) = w_buf w"
  "w_durable (snd (next_io w)) = w_durable w" "w_path (snd (next_io w)) = w_path w"
  "w_seq (snd (next_io w)) = w_seq w" "w_synced (snd (next_io w)) = w_synced w"
  "w_policy (snd (next_io w)) = w_policy w" "w_rewriting (snd (next_io w)) = w_rewriting w"
  "w_delta (snd (next_io w)) = w_delta w" "w_delta_cap (snd (next_io w)) = w_delta_cap w"
  by (auto simp: next_io_def split: list.splits)

lemma to_file_simps [simp]:
  "aof_log (to_file n p w) = w_file w @ p"
  "w_durable (to_file n p w) = w_durable w" "w_path (to_file n p w) = w_path w"
  "w_seq (to_file n p w) = w_seq w" "w_synced (to_file n p w) = w_synced w"
  "w_policy (to_file n p w) = w_policy w" "w_rewriting (to_file n p w) = w_rewriting w"
  "w_delta (to_file n p w) = w_delta w" "w_delta_cap (to_file n p w) = w_delta_cap w"
  by (simp_all add: to_file_def aof_log_def)

lemma bw_write_all_simps [simp]:
  "w_durable (snd (bw_write_all b w)) = w_durable w" "w_path (snd (bw_write_all b w)) = w_path w"
  "w_seq (snd (bw_write_all b w)) = w_seq w" "w_synced (snd (bw_write_all b w)) = w_synced w"
  "w_policy (snd (bw_write_all b w)) = w_policy w"
  "w_rewriting (snd (bw_write_all b w)) = w_rewriting w"
  "w_delta (snd (bw_write_all b w)) = w_delta w"
  "w_delta_cap (snd (bw_write_all b w)) = w_delta_cap w"
  by (auto simp: bw_write_all_def case_prod_unfold Let_def split: io_outcome.splits)

lemma bw_flush_simps [simp]:
  "aof_log (snd (bw_flush w)) = aof_log w"
  "w_durable (snd (bw_flush w)) = w_durable w" "w_path (snd (bw_flush w)) = w_path w"
  "w_seq (snd (bw_flush w)) = w_seq w" "w_synced (snd (bw_flush w)) = w_synced w"
  "w_policy (snd (bw_flush w)) = w_policy w" "w_rewriting (snd (bw_flush w)) = w_rewriting w"
  "w_delta (snd (bw_flush w)) = w_delta w" "w_delta_cap (snd (bw_flush w)) = w_delta_cap w"
  by (auto simp: bw_flush_def case_prod_unfold Let_def aof_log_def split: io_outcome.splits)
    (simp_all add: to_file_def)

lemma sync_data_simps [simp]:
  "w_file (snd (sync_data w)) = w_file w" "w_buf (snd (sync_data w)) = w_buf w"
  "w_path (snd (sync_data w)) = w_path w"
  "w_seq (snd (sync_data w)) = w_seq w" "w_synced (snd (sync_data w)) = w_synced w"
  "w_policy (snd (sync_data w)) = w_policy w" "w_rewriting (snd (sync_data w)) = w_rewriting w"
  "w_delta (snd (sync_data w)) = w_delta w" "w_delta_cap (snd (sync_data w)) = w_delta_cap w"
  by (auto simp: sync_data_def case_prod_unfold Let_def split: io_outcome.splits)

lemma bw_write_all_log:
  "bw_write_all b w = (ok, w') \<Longrightarrow>
   (if ok then aof_log w' = aof_log w @ b else (\<exists>n. aof_log w' = aof_log w @ take n b))"
  by (auto simp: bw_write_all_def case_prod_unfold Let_def aof_log_def [of w] split: io_outcome.splits)

lemma bw_flush_Ok:
  "bw_flush w = (True, w') \<Longrightarrow> w_buf w' = [] \<and> w_file w' = w_file w @ w_buf w"
  by (auto simp: bw_flush_def case_prod_unfold Let_def to_file_def split: io_outcome.splits)

lemma sync_data_Ok: "sync_data w = (True, w') \<Longrightarrow> w_durable w' = length (w_file w')"
  by (auto simp: sync_data_def case_prod_unfold Let_def split: io_outcome.splits)

lemma delta_mirror_simps [simp]:
  "w_file (delta_mirror b w) = w_file w" "w_buf (delta_mirror b w) = w_buf w"
  "w_durable (delta_mirror b w) = w_durable w" "w_path (delta_mirror b w) = w_path w"
  "w_seq (delta_mirror b w) = w_seq w" "w_synced (delta_mirror b w) = w_synced w"
  "w_policy (delta_mirror b w) = w_policy w" "w_delta_cap (delta_mirror b w) = w_delta_cap w"
  by (simp_all add: delta_mirror_def)

lemma aof_log_delta_mirror [simp]: "aof_log (delta_mirror b w) = aof_log w"
  by (simp add: aof_log_def)

lemma aof_log_seq [simp]: "aof_log (w\<lparr>w_seq := n\<rparr>) = aof_log w"
  by (simp add: aof_log_def)

lemma write_bytes_cases:
  assumes "write_bytes b w = (r, w')"
  obtains (ok) w1 w2 where "bw_write_all b w = (True, w1)" "r = Ok ()"
      "w2 = (if w_policy w1 = FsyncAlways
             then (snd (bw_flush w1))\<lparr>w_seq := wrap_u64 (w_seq w1 + 1)\<rparr> else w1)"
      "w_policy w1 = FsyncAlways \<longrightarrow> fst (bw_flush w1)" "w' = delta_mirror b w2"
  | (write_failed) e where "bw_write_all b w = (False, w')" "r = Err e"
  | (flush_failed) w1 e where "bw_write_all b w = (True, w1)" "bw_flush w1 = (False, w')"
      "w_policy w = FsyncAlways" "r = Err e"
proof -
  obtain ok1 w1 where 1: "bw_write_all b w = (ok1, w1)" by (cases "bw_write_all b w")
  obtain ok2 w2 where 2: "bw_flush w1 = (ok2, w2)" by (cases "bw_flush w1")
  have p: "w_policy w1 = w_policy w" "w_seq w2 = w_seq w1"
    using bw_write_all_simps(5) [of b w] bw_flush_simps(4) [of w1] 1 2 by simp_all
  show thesis
  proof (cases ok1)
    case False
    then show thesis using assms 1 write_failed by (auto simp: write_bytes_def)
  next
    case True
    show thesis
    proof (cases "w_policy w1 = FsyncAlways \<and> \<not> ok2")
      case f: True
      then show thesis using assms 1 2 True p flush_failed by (auto simp: write_bytes_def)
    next
      case f: False
      have "r = Ok ()" "w' = delta_mirror b (if w_policy w1 = FsyncAlways
             then (snd (bw_flush w1))\<lparr>w_seq := wrap_u64 (w_seq w1 + 1)\<rparr> else w1)"
        using assms 1 2 True p f by (auto simp: write_bytes_def split: fsync_policy.splits)
      then show thesis using ok [OF _ _ refl] 1 2 True f by auto
    qed
  qed
qed

lemma write_bytes_Ok:
  assumes "write_bytes b w = (Ok (), w')"
  shows "aof_log w' = aof_log w @ b"
  using assms
proof (cases rule: write_bytes_cases)
  case (ok w1 w2)
  then show ?thesis using bw_write_all_log [OF ok(1)] by auto
qed auto

lemma write_bytes_Err:
  assumes "write_bytes b w = (Err e, w')"
  shows "\<exists>n. aof_log w' = aof_log w @ take n b"
  using assms
proof (cases rule: write_bytes_cases)
  case (write_failed e)
  then show ?thesis using bw_write_all_log by fastforce
next
  case (flush_failed w1 e)
  have "aof_log w' = aof_log w1" using bw_flush_simps(1) [of w1] flush_failed(2) by simp
  then have "aof_log w' = aof_log w @ take (length b) b"
    using bw_write_all_log [OF flush_failed(1)] by simp
  then show ?thesis by blast
qed auto

section \<open>The contract of an append-only log\<close>

text \<open>
  What the engine relies on: a successful append extends the log by exactly the record, a failed
  one leaves a prefix of the record behind. The client lemma is about a sequence of appends.
\<close>

fun run_appends :: "(bytes \<Rightarrow> 'w \<Rightarrow> unit result \<times> 'w) \<Rightarrow> bytes list \<Rightarrow> 'w \<Rightarrow> unit result \<times> 'w" where
  "run_appends wr [] w = (Ok (), w)"
| "run_appends wr (b # bs) w =
     (case wr b w of (Ok _, w') \<Rightarrow> run_appends wr bs w' | (Err e, w') \<Rightarrow> (Err e, w'))"

locale append_log =
  fixes contents :: "'w \<Rightarrow> bytes"
    and wr :: "bytes \<Rightarrow> 'w \<Rightarrow> unit result \<times> 'w"
  assumes write_Ok: "wr b w = (Ok (), w') \<Longrightarrow> contents w' = contents w @ b"
    and write_Err: "wr b w = (Err e, w') \<Longrightarrow> \<exists>n. contents w' = contents w @ take n b"
begin

lemma run_appends_log:
  "run_appends wr bs w = (r, w') \<Longrightarrow>
   \<exists>i n. contents w' = contents w @ concat (take i bs) @ take n (concat (drop i bs))
       \<and> (r = Ok () \<longrightarrow> i = length bs)"
proof (induction bs arbitrary: w)
  case Nil
  then show ?case by auto
next
  case (Cons b bs)
  show ?case
  proof (cases "wr b w")
    case (Pair q w1)
    show ?thesis
    proof (cases q)
      case (Inr u)
      then have "run_appends wr bs w1 = (r, w')" and c: "contents w1 = contents w @ b"
        using Cons.prems Pair write_Ok by auto
      from Cons.IH [OF this(1)] obtain i n where
        "contents w' = contents w1 @ concat (take i bs) @ take n (concat (drop i bs))"
        "r = Ok () \<longrightarrow> i = length bs" by blast
      then show ?thesis using c by (intro exI [of _ "Suc i"] exI [of _ n]) simp
    next
      case (Inl e)
      then have "w' = w1" "r = Err e" using Cons.prems Pair by auto
      moreover obtain n where "contents w1 = contents w @ take n b"
        using write_Err Pair Inl by blast
      ultimately have "contents w' = contents w @ concat (take 0 (b # bs))
          @ take (min n (length b)) (concat (drop 0 (b # bs))) \<and> (r = Ok () \<longrightarrow> 0 = length (b # bs))"
        by (simp add: min_def)
      then show ?thesis by blast
    qed
  qed
qed

end

interpretation aof: append_log aof_log write_bytes
  by unfold_locales (auto dest: write_bytes_Ok write_bytes_Err)

section \<open>The rewrite protocol\<close>

text \<open>The delta buffer is empty outside a rewrite and never exceeds its cap.\<close>

definition aof_wf :: "aof_writer \<Rightarrow> bool" where
  "aof_wf w \<longleftrightarrow> (\<not> w_rewriting w \<longrightarrow> w_delta w = []) \<and> length (w_delta w) \<le> w_delta_cap w
     \<and> w_durable w \<le> length (w_file w)"

lemma aof_wf_next_io [simp]: "aof_wf (snd (next_io w)) = aof_wf w"
  by (simp add: aof_wf_def)

lemma aof_wf_open: "aof_open p c io = Ok w \<Longrightarrow> aof_wf w \<and> \<not> w_rewriting w \<and> w_file w = c"
  by (auto simp: aof_open_def case_prod_unfold Let_def split: if_splits fsync_policy.splits)
    (auto simp: aof_wf_def aof_fresh_def)

lemma file_grows:
  "length (w_file w) \<le> length (w_file (to_file n (w_buf w @ b) w))"
  by (simp add: to_file_def)

lemma bw_file_grows:
  "length (w_file w) \<le> length (w_file (snd (bw_write_all b w)))"
  "length (w_file w) \<le> length (w_file (snd (bw_flush w)))"
  by (auto simp: bw_write_all_def bw_flush_def case_prod_unfold Let_def to_file_def
      split: io_outcome.splits)

lemma aof_wf_delta_mirror: "aof_wf w \<Longrightarrow> aof_wf (delta_mirror b w)"
  by (simp add: aof_wf_def delta_mirror_def)

lemma aof_wf_io:
  "aof_wf w \<Longrightarrow> aof_wf (snd (bw_write_all b w))" "aof_wf w \<Longrightarrow> aof_wf (snd (bw_flush w))"
  "aof_wf w \<Longrightarrow> aof_wf (snd (sync_data w))"
  using bw_file_grows(1) [of w b] bw_file_grows(2) [of w]
  by (auto simp: aof_wf_def) (auto simp: sync_data_def case_prod_unfold Let_def split: io_outcome.splits)

lemma aof_wf_write_bytes:
  assumes "aof_wf w" "write_bytes b w = (r, w')"
  shows "aof_wf w'"
  using assms(2)
proof (cases rule: write_bytes_cases)
  case (ok w1 w2)
  have "aof_wf w1" "aof_wf (snd (bw_flush w1))" using aof_wf_io assms(1) ok(1) by (metis snd_conv)+
  then have "aof_wf w2" using ok(3) by (simp add: aof_wf_def)
  then show ?thesis using ok(5) aof_wf_delta_mirror by simp
next
  case write_failed
  then show ?thesis using aof_wf_io(1) assms(1) by (metis snd_conv)
next
  case flush_failed
  then show ?thesis using aof_wf_io assms(1) by (metis snd_conv)
qed

lemma write_bytes_delta:
  assumes "write_bytes b w = (Ok (), w')"
  shows "w_path w' = w_path w" "w_delta_cap w' = w_delta_cap w"
    "w_rewriting w' \<Longrightarrow> w_rewriting w \<and> w_delta w' = w_delta w @ b"
proof -
  from assms have "w_path w' = w_path w \<and> w_delta_cap w' = w_delta_cap w \<and>
      (w_rewriting w' \<longrightarrow> w_rewriting w \<and> w_delta w' = w_delta w @ b)"
  proof (cases rule: write_bytes_cases)
    case (ok w1 w2)
    have "w1 = snd (bw_write_all b w)" using ok(1) by simp
    then have "w_path w2 = w_path w" "w_delta_cap w2 = w_delta_cap w"
      "w_rewriting w2 = w_rewriting w" "w_delta w2 = w_delta w"
      using ok(3) by simp_all
    then show ?thesis using ok(5) by (auto simp: delta_mirror_def split: if_splits)
  qed auto
  then show "w_path w' = w_path w" "w_delta_cap w' = w_delta_cap w"
    "w_rewriting w' \<Longrightarrow> w_rewriting w \<and> w_delta w' = w_delta w @ b" by auto
qed

lemma run_appends_delta:
  "run_appends write_bytes bs w = (Ok (), w') \<Longrightarrow> w_path w' = w_path w \<and>
   (w_rewriting w' \<longrightarrow> w_rewriting w \<and> w_delta w' = w_delta w @ concat bs)"
proof (induction bs arbitrary: w)
  case (Cons b bs)
  then obtain u w1 where 1: "write_bytes b w = (Ok u, w1)" "run_appends write_bytes bs w1 = (Ok (), w')"
    by (auto split: prod.splits sum.splits)
  have 2: "write_bytes b w = (Ok (), w1)" using 1(1) by simp
  show ?case using Cons.IH [OF 1(2)] write_bytes_delta [OF 2] by auto
qed simp

lemma finish_swap_Ok:
  assumes "finish_swap w = (Ok (), w')" "w_path w = Some snapshot"
  shows "w_file w' = snapshot @ w_delta w" "w_buf w' = []" "w_path w' = None"
    "w_durable w' = length (w_file w')" "\<not> w_rewriting w'" "w_delta w' = []"
proof -
  obtain out w1 where 1: "next_io w = (out, w1)" by (cases "next_io w")
  have w1: "w_path w1 = Some snapshot" "w_delta w1 = w_delta w"
    using next_io_simps [of w] assms(2) 1 by simp_all
  define w2 where "w2 = w1\<lparr>w_file := snapshot, w_buf := [], w_durable := length snapshot,
      w_path := None, w_seq := 0, w_synced := 0\<rparr>"
  obtain ok3 w3 where 3: "bw_write_all (w_delta w2) w2 = (ok3, w3)" by (cases "bw_write_all (w_delta w2) w2")
  obtain ok4 w4 where 4: "bw_flush w3 = (ok4, w4)" by (cases "bw_flush w3")
  obtain ok5 w5 where 5: "sync_data w4 = (ok5, w5)" by (cases "sync_data w4")
  have out: "\<exists>n. out = IoOk n" using assms(1) 1 by (cases out) (auto simp: finish_swap_def)
  have all: "w_file w' = snapshot @ w_delta w \<and> w_buf w' = [] \<and> w_path w' = None \<and>
    w_durable w' = length (w_file w') \<and> \<not> w_rewriting w' \<and> w_delta w' = []"
  proof (cases "w_delta w = []")
    case True
    then have "w' = w2\<lparr>w_delta := [], w_rewriting := False\<rparr>"
      using assms(1) 1 w1 out by (auto simp: finish_swap_def w2_def Let_def)
    then show ?thesis using True by (simp add: w2_def)
  next
    case False
    then have w': "ok3" "ok4" "ok5" "w' = w5\<lparr>w_delta := [], w_rewriting := False\<rparr>"
      using assms(1) 1 w1 out 3 4 5
      by (auto simp: finish_swap_def w2_def [symmetric] Let_def split: if_splits)
        (simp_all add: w2_def split: if_splits)
    have "aof_log w3 = snapshot @ w_delta w"
      using bw_write_all_log [OF 3] w'(1) w1 by (simp add: w2_def aof_log_def)
    moreover have "w_buf w4 = []" "w_file w4 = aof_log w3" "w_path w4 = w_path w2"
      using bw_flush_Ok [of w3 w4] 4 w'(2) bw_flush_simps(3) [of w3]
        bw_write_all_simps(2) [of "w_delta w2" w2] 3 by (simp_all add: aof_log_def)
    moreover have "w_file w5 = w_file w4" "w_buf w5 = w_buf w4" "w_path w5 = w_path w4"
      using sync_data_simps [of w4] 5 by simp_all
    moreover have "w_durable w5 = length (w_file w5)" using sync_data_Ok 5 w'(3) by simp
    ultimately show ?thesis using w'(4) by (simp add: w2_def)
  qed
  then show "w_file w' = snapshot @ w_delta w" "w_buf w' = []" "w_path w' = None"
    "w_durable w' = length (w_file w')" "\<not> w_rewriting w'" "w_delta w' = []" by blast+
qed

text \<open>
  A rewrite with appends in flight: either it completes and the file is the snapshot followed by
  every append since it began, or it was aborted and the old file holds them all.
\<close>

lemma rewrite_keeps_appends:
  assumes "aof_wf w" "\<not> w_rewriting w" "w_path w = None"
    and "run_appends write_bytes bs (snd (try_begin_rewrite w)) = (Ok (), w2)"
    and "finish_rewrite snapshot w2 = (Ok (), w3)"
  shows "aof_log w3 = (if w_rewriting w2 then snapshot @ concat bs else aof_log w @ concat bs)"
proof -
  let ?w1 = "w\<lparr>w_rewriting := True\<rparr>"
  have 1: "run_appends write_bytes bs ?w1 = (Ok (), w2)"
    using assms(2,4) by (simp add: try_begin_rewrite_def)
  have log2: "aof_log w2 = aof_log w @ concat bs"
    using aof.run_appends_log [OF 1] by (auto simp: aof_log_def)
  show ?thesis
  proof (cases "w_rewriting w2")
    case False
    then have "w3 = w2" using assms(5) by (simp add: finish_rewrite_def finish_rename_def)
    then show ?thesis using False log2 by simp
  next
    case True
    have d: "w_delta w2 = concat bs"
      using run_appends_delta [OF 1] True assms(1,2) by (simp add: aof_wf_def)
    obtain out v where o: "next_io w2 = (out, v)" by (cases "next_io w2")
    then obtain n where n: "out = IoOk n"
      using True assms(5) by (cases out) (auto simp: finish_rewrite_def finish_rename_def)
    have s: "finish_swap (v\<lparr>w_path := Some snapshot\<rparr>) = (Ok (), w3)"
      using True assms(5) o n by (simp add: finish_rewrite_def finish_rename_def)
    have "w_delta v = concat bs" using next_io_simps(9) [of w2] o d by simp
    then have "w_file w3 = snapshot @ concat bs" "w_buf w3 = []"
      using finish_swap_Ok(1,2) [OF s] by simp_all
    then show ?thesis using True by (simp add: aof_log_def)
  qed
qed

end
