(* ===== verification/Engine.thy ===== *)
theory Engine
  imports AdaptiveClimb AofWriter
begin

text \<open>
  Models the state of \<^verbatim>\<open>KvEngine\<close> (\<^verbatim>\<open>src/src/storage/engine/mod.rs\<close>) and the internal operations
  every command is built from: eviction configuration, password, slow log, the notifications of
  the eviction indexes, memory accounting (\<^verbatim>\<open>track_insert\<close>, \<^verbatim>\<open>track_remove\<close>, \<^verbatim>\<open>track_clear\<close>,
  \<^verbatim>\<open>untrack\<close>) and the enforcement of \<^verbatim>\<open>maxmemory\<close>.

  The \<^verbatim>\<open>Arc\<close>, lock and atomic wrappers are the fields' plain values: an operation is one critical
  section on the state, and a poisoned lock (a thread that panicked) is not modelled. The MONITOR
  registry holds channel handles only and is not part of the record.
\<close>

section \<open>State\<close>

record slowlog_entry =
  sl_id :: nat
  sl_ts_secs :: nat
  sl_duration_us :: nat
  sl_args :: "bytes list"
  sl_peer :: bytes

record engine =
  e_store :: store
  e_aof :: "aof_writer option"
  e_used_memory :: nat
  e_eviction :: eviction_config
  e_hits :: nat
  e_misses :: nat
  e_ahe :: ahe_state
  e_sieve :: sieve_state
  e_ac :: adaptive_climb_state
  e_auth_password :: "bytes option"
  e_rng :: u32
  e_slowlog_slower_than_us :: int
  e_slowlog_max_len :: nat
  e_slowlog :: "slowlog_entry list"
  e_slowlog_seq :: nat
  e_total_commands :: nat
  e_evicted_keys :: nat
  e_expired_keys :: nat
  e_index_kind :: index_kind
  e_auth_required :: bool
  e_aof_errors :: nat
  e_sweep_cursor :: nat

definition engine_new :: "(rat \<Rightarrow> rat) \<Rightarrow> nat \<Rightarrow> engine" where
  "engine_new rnd epoch_nanos =
     \<lparr>e_store = [], e_aof = None, e_used_memory = 0, e_eviction = eviction_config_default,
      e_hits = 0, e_misses = 0, e_ahe = ahe_default rnd, e_sieve = sieve_new, e_ac = ac_new,
      e_auth_password = None, e_rng = rng_seed epoch_nanos, e_slowlog_slower_than_us = 10000,
      e_slowlog_max_len = 128, e_slowlog = [], e_slowlog_seq = 0, e_total_commands = 0,
      e_evicted_keys = 0, e_expired_keys = 0, e_index_kind = IK_NONE, e_auth_required = False,
      e_aof_errors = 0, e_sweep_cursor = 0\<rparr>"

definition with_aof :: "aof_writer \<Rightarrow> engine \<Rightarrow> engine" where
  "with_aof w s = s\<lparr>e_aof := Some w\<rparr>"

section \<open>Configuration, password and slow log\<close>

definition set_eviction_config :: "eviction_config \<Rightarrow> engine \<Rightarrow> engine" where
  "set_eviction_config cfg s =
     (let new_kind = policy_index_kind (policy cfg);
          old_kind = e_index_kind s;
          s = (if new_kind \<noteq> old_kind then
                 (if is_sieve new_kind then
                    s\<lparr>e_sieve := sieve_rebuild (e_store s) (policy_scope (policy cfg)) (e_sieve s),
                      e_ac := ac_clear (e_ac s)\<rparr>
                  else if is_ac new_kind then
                    s\<lparr>e_ac := ac_rebuild (e_store s) (policy_scope (policy cfg)) (e_ac s),
                      e_sieve := sieve_clear (e_sieve s)\<rparr>
                  else s\<lparr>e_sieve := sieve_clear (e_sieve s), e_ac := ac_clear (e_ac s)\<rparr>)
                 \<lparr>e_index_kind := new_kind\<rparr>
               else s)
      in s\<lparr>e_eviction := cfg\<rparr>)"

definition set_requirepass :: "bytes option \<Rightarrow> engine \<Rightarrow> engine" where
  "set_requirepass pw s =
     (let pw = (case pw of None \<Rightarrow> None | Some p \<Rightarrow> if p = [] then None else Some p)
      in s\<lparr>e_auth_password := pw, e_auth_required := pw \<noteq> None\<rparr>)"

definition authenticate :: "bytes \<Rightarrow> engine \<Rightarrow> bool result" where
  "authenticate provided s =
     (case e_auth_password s of
        Some expected \<Rightarrow> Ok (constant_time_eq provided expected)
      | None \<Rightarrow> Err (ParseError ''Client sent AUTH, but no password is set''))"

definition slowlog_armed :: "engine \<Rightarrow> bool" where
  "slowlog_armed s \<longleftrightarrow> e_slowlog_slower_than_us s \<noteq> 0"

definition slowlog_would_log :: "nat \<Rightarrow> engine \<Rightarrow> bool" where
  "slowlog_would_log duration_us s =
     (let n = e_slowlog_slower_than_us s in
      if n = 0 then False else if n < 0 then True else int duration_us > n)"

fun trim_front :: "nat \<Rightarrow> 'a list \<Rightarrow> 'a list" where
  "trim_front cap [] = []"
| "trim_front cap (x # xs) = (if length (x # xs) > cap then trim_front cap xs else x # xs)"

definition maybe_push_slowlog ::
  "bytes list \<Rightarrow> bytes option \<Rightarrow> nat \<Rightarrow> nat \<Rightarrow> engine \<Rightarrow> engine" where
  "maybe_push_slowlog args peer duration_us ts_secs s =
     (if \<not> slowlog_would_log duration_us s then s
      else let seq = wrap_u64 (e_slowlog_seq s + 1);
               entry = \<lparr>sl_id = seq, sl_ts_secs = ts_secs, sl_duration_us = duration_us,
                        sl_args = args,
                        sl_peer = (case peer of Some p \<Rightarrow> p | None \<Rightarrow> ''0.0.0.0:0'')\<rparr>
           in s\<lparr>e_slowlog_seq := seq,
                e_slowlog := trim_front (max (e_slowlog_max_len s) 1) (e_slowlog s @ [entry])\<rparr>)"

definition slowlog_get :: "nat option \<Rightarrow> engine \<Rightarrow> slowlog_entry list" where
  "slowlog_get n_opt s =
     (let entries = rev (e_slowlog s) in
      case n_opt of Some n \<Rightarrow> take n entries | None \<Rightarrow> entries)"

definition slowlog_len :: "engine \<Rightarrow> nat" where
  "slowlog_len s = length (e_slowlog s)"

definition slowlog_reset :: "engine \<Rightarrow> engine" where
  "slowlog_reset s = s\<lparr>e_slowlog := []\<rparr>"

definition set_slowlog_threshold_us :: "int \<Rightarrow> engine \<Rightarrow> engine" where
  "set_slowlog_threshold_us n s = s\<lparr>e_slowlog_slower_than_us := n\<rparr>"

definition set_slowlog_max_len :: "nat \<Rightarrow> engine \<Rightarrow> engine" where
  "set_slowlog_max_len n s = s\<lparr>e_slowlog_max_len := n\<rparr>"

section \<open>The append-only log\<close>

definition note_aof_result :: "unit result \<Rightarrow> engine \<Rightarrow> engine" where
  "note_aof_result r s =
     (case r of Inl _ \<Rightarrow> s\<lparr>e_aof_errors := wrap_u64 (e_aof_errors s + 1)\<rparr> | Inr _ \<Rightarrow> s)"

text \<open>The idiom \<^verbatim>\<open>if let Some(aof) = &self.aof { self.note_aof_result(cmd, aof.op(..)) }\<close>.\<close>

definition aof_note :: "(aof_writer \<Rightarrow> unit result \<times> aof_writer) \<Rightarrow> engine \<Rightarrow> engine" where
  "aof_note opr s =
     (case e_aof s of
        None \<Rightarrow> s
      | Some w \<Rightarrow> let (r, w') = opr w in note_aof_result r (s\<lparr>e_aof := Some w'\<rparr>))"

definition log_expire_drop :: "bytes \<Rightarrow> engine \<Rightarrow> engine" where
  "log_expire_drop key s = aof_note (append_del key) s"

definition aof_barrier_blocks :: "engine \<Rightarrow> bool" where
  "aof_barrier_blocks s =
     (case e_aof s of None \<Rightarrow> False | Some w \<Rightarrow> w_policy w = FsyncAlways)"

definition policy_index_memory :: "engine \<Rightarrow> nat" where
  "policy_index_memory s =
     (if e_index_kind s = IK_NONE then 0 else length (e_store s) * PER_INDEX_ENTRY_BYTES)"

section \<open>Index notifications, counters and random numbers\<close>

definition sieve_notify_insert :: "bytes \<Rightarrow> bool \<Rightarrow> engine \<Rightarrow> engine" where
  "sieve_notify_insert key has_ttl s =
     (if \<not> is_sieve (e_index_kind s) then s
      else s\<lparr>e_sieve := sieve_observe_insert key has_ttl (e_sieve s)\<rparr>)"

definition sieve_notify_access :: "bytes \<Rightarrow> engine \<Rightarrow> engine" where
  "sieve_notify_access key s =
     (if \<not> is_sieve (e_index_kind s) then s
      else s\<lparr>e_sieve := sieve_observe_access key (e_sieve s)\<rparr>)"

definition sieve_notify_remove :: "bytes \<Rightarrow> engine \<Rightarrow> engine" where
  "sieve_notify_remove key s =
     (if \<not> is_sieve (e_index_kind s) then s
      else s\<lparr>e_sieve := sieve_observe_remove key (e_sieve s)\<rparr>)"

definition ac_notify_insert :: "bytes \<Rightarrow> bool \<Rightarrow> engine \<Rightarrow> engine" where
  "ac_notify_insert key has_ttl s =
     (if \<not> is_ac (e_index_kind s) then s
      else s\<lparr>e_ac := ac_observe_insert key has_ttl (e_ac s)\<rparr>)"

definition ac_notify_access :: "bytes \<Rightarrow> engine \<Rightarrow> engine" where
  "ac_notify_access key s =
     (if \<not> is_ac (e_index_kind s) then s
      else s\<lparr>e_ac := ac_observe_access key (e_ac s)\<rparr>)"

definition ac_notify_remove :: "bytes \<Rightarrow> engine \<Rightarrow> engine" where
  "ac_notify_remove key s =
     (if \<not> is_ac (e_index_kind s) then s
      else s\<lparr>e_ac := ac_observe_remove key (e_ac s)\<rparr>)"

definition next_rand01 :: "engine \<Rightarrow> rat \<times> engine" where
  "next_rand01 s = (let nxt = xorshift32 (e_rng s) in (rand01_of nxt, s\<lparr>e_rng := nxt\<rparr>))"

definition record_hit :: "engine \<Rightarrow> engine" where
  "record_hit s = s\<lparr>e_hits := wrap_u64 (e_hits s + 1)\<rparr>"

definition record_miss :: "engine \<Rightarrow> engine" where
  "record_miss s = s\<lparr>e_misses := wrap_u64 (e_misses s + 1)\<rparr>"

definition keyspace_stats :: "engine \<Rightarrow> nat \<times> nat" where
  "keyspace_stats s = (e_hits s, e_misses s)"

definition engine_ahe_observe :: "env \<Rightarrow> engine \<Rightarrow> engine" where
  "engine_ahe_observe v s =
     (let (hits, misses) = keyspace_stats s
      in s\<lparr>e_ahe := snd (ahe_observe (f32_rnd v) hits misses (e_ahe s))\<rparr>)"

text \<open>The entry's atomics are written in place, so the map keeps its order.\<close>

definition touch_access :: "env \<Rightarrow> bytes \<Rightarrow> engine \<Rightarrow> engine" where
  "touch_access v key s =
     (case map_of (e_store s) key of
        None \<Rightarrow> s
      | Some entry \<Rightarrow>
          let (r, s) = next_rand01 s;
              s = s\<lparr>e_store := AList.update key (touch v r entry) (e_store s)\<rparr>
          in ac_notify_access key (sieve_notify_access key s))"

section \<open>Memory accounting\<close>

definition apply_delta :: "int \<Rightarrow> engine \<Rightarrow> engine" where
  "apply_delta d s =
     (if d = 0 then s
      else if d > 0 then s\<lparr>e_used_memory := wrap_u64 (e_used_memory s + nat d)\<rparr>
      else s\<lparr>e_used_memory := e_used_memory s - nat (- d)\<rparr>)"

definition track_insert :: "bytes \<Rightarrow> value_entry \<Rightarrow> engine \<Rightarrow> value_entry option \<times> engine" where
  "track_insert key entry s =
     (let incoming = entry_bytes key entry;
          has_ttl = (expire_at entry \<noteq> None);
          previous = map_of (e_store s) key;
          outgoing = (case previous of Some p \<Rightarrow> entry_bytes key p | None \<Rightarrow> 0);
          s = s\<lparr>e_store := AList.update key entry (e_store s)\<rparr>;
          s = apply_delta (int incoming - int outgoing) s
      in (previous, ac_notify_insert key has_ttl (sieve_notify_insert key has_ttl s)))"

definition track_remove :: "bytes \<Rightarrow> engine \<Rightarrow> value_entry option \<times> engine" where
  "track_remove key s =
     (let removed = map_of (e_store s) key;
          s = s\<lparr>e_store := AList.delete key (e_store s)\<rparr>;
          s = (case removed of Some e \<Rightarrow> apply_delta (- int (entry_bytes key e)) s | None \<Rightarrow> s)
      in (removed, ac_notify_remove key (sieve_notify_remove key s)))"

definition track_clear :: "engine \<Rightarrow> engine" where
  "track_clear s =
     s\<lparr>e_store := [], e_sieve := sieve_clear (e_sieve s), e_ac := ac_clear (e_ac s),
       e_used_memory := 0\<rparr>"

definition untrack :: "bytes \<Rightarrow> value_entry \<Rightarrow> engine \<Rightarrow> engine" where
  "untrack key entry s = apply_delta (- int (entry_bytes key entry)) s"

section \<open>Enforcing the memory limit\<close>

definition evict_sieve :: "env \<Rightarrow> eviction_scope \<Rightarrow> bool \<Rightarrow> engine \<Rightarrow> bytes option \<times> engine" where
  "evict_sieve v scope ttl_aware s =
     (let (k, sv) = sieve_evict_one ttl_aware (now_late v) (e_store s) scope (e_sieve s)
      in (k, s\<lparr>e_sieve := sv\<rparr>))"

definition evict_ac :: "eviction_scope \<Rightarrow> engine \<Rightarrow> bytes option \<times> engine" where
  "evict_ac scope s =
     (let (k, a) = ac_evict_one (e_store s) scope (e_ac s) in (k, s\<lparr>e_ac := a\<rparr>))"

text \<open>The \<^verbatim>\<open>match cfg.policy\<close> of the eviction loop.\<close>

definition select_victim :: "env \<Rightarrow> eviction_config \<Rightarrow> engine \<Rightarrow> bytes option \<times> engine" where
  "select_victim v cfg s =
     (let p = policy cfg;
          sampled = sample_candidates (e_store s) (policy_scope p) (samples cfg)
      in if p \<in> {AllKeysAhe, VolatileAhe} then
           (map_option c_key (pick_victim_ahe (f32_rnd v) (now_late v) (ah_alpha (e_ahe s)) sampled), s)
         else if policy_is_sieve p then
           evict_sieve v (policy_scope p) (is_sieve_ttl (policy_index_kind p)) s
         else if policy_is_adaptive_climb p then evict_ac (policy_scope p) s
         else (map_option c_key (pick_victim (f32_rnd v) (now_late v) p sampled), s))"

definition mem_fits :: "eviction_config \<Rightarrow> nat \<Rightarrow> nat \<Rightarrow> bool" where
  "mem_fits cfg incoming used \<longleftrightarrow> sat_add_u64 used incoming \<le> max_memory cfg"

fun evict_loop ::
  "nat \<Rightarrow> env \<Rightarrow> eviction_config \<Rightarrow> nat \<Rightarrow> nat \<Rightarrow> engine \<Rightarrow> nat result \<times> engine" where
  "evict_loop 0 v cfg incoming n s = (Ok n, s)"
| "evict_loop (Suc fuel) v cfg incoming n s =
     (if mem_fits cfg incoming (e_used_memory s) then (Ok n, s)
      else if policy cfg = NoEviction then (Err OutOfMemory, s)
      else let (victim, s) = select_victim v cfg s in
      case victim of
        None \<Rightarrow> (Err OutOfMemory, s)
      | Some victim_key \<Rightarrow>
          let s = snd (track_remove victim_key s);
              s = s\<lparr>e_evicted_keys := wrap_u64 (e_evicted_keys s + 1)\<rparr>;
              s = aof_note (append_del victim_key) s
          in evict_loop fuel v cfg incoming (n + 1) s)"

definition enforce_memory_limit :: "env \<Rightarrow> nat \<Rightarrow> engine \<Rightarrow> unit result \<times> engine" where
  "enforce_memory_limit v incoming s =
     (let cfg = e_eviction s in
      if max_memory cfg = 0 then (Ok (), s)
      else case evict_loop (max (length (e_store s)) 1 + 16) v cfg incoming 0 s of
        (Inl e, s) \<Rightarrow> (Err e, s)
      | (Inr n, s) \<Rightarrow>
          let s = (if n > 0 \<and> policy cfg \<in> {AllKeysAhe, VolatileAhe} then engine_ahe_observe v s else s)
          in if mem_fits cfg incoming (e_used_memory s) then (Ok (), s) else (Err OutOfMemory, s))"

definition enforce_for_write :: "env \<Rightarrow> bytes \<Rightarrow> nat \<Rightarrow> engine \<Rightarrow> unit result \<times> engine" where
  "enforce_for_write v key value_len s =
     (let incoming = length key + value_len + PER_ENTRY_OVERHEAD;
          net = incoming - (case map_of (e_store s) key of Some e \<Rightarrow> entry_bytes key e | None \<Rightarrow> 0)
      in enforce_memory_limit v net s)"

section \<open>Frame lemmas\<close>

lemma aof_note_simps [simp]:
  "e_store (aof_note f s) = e_store s" "e_used_memory (aof_note f s) = e_used_memory s"
  "e_eviction (aof_note f s) = e_eviction s" "e_sieve (aof_note f s) = e_sieve s"
  "e_ac (aof_note f s) = e_ac s" "e_rng (aof_note f s) = e_rng s"
  "e_index_kind (aof_note f s) = e_index_kind s" "e_ahe (aof_note f s) = e_ahe s"
  "e_auth_password (aof_note f s) = e_auth_password s"
  "e_auth_required (aof_note f s) = e_auth_required s"
  "e_expired_keys (aof_note f s) = e_expired_keys s" "e_hits (aof_note f s) = e_hits s"
  "e_misses (aof_note f s) = e_misses s" "e_sweep_cursor (aof_note f s) = e_sweep_cursor s"
  by (auto simp: aof_note_def note_aof_result_def case_prod_unfold Let_def
      split: option.splits sum.splits)

lemmas log_expire_drop_simps [simp] = aof_note_simps [of "append_del k" for k, folded log_expire_drop_def]

lemma notify_simps [simp]:
  "e_store (sieve_notify_insert k b s) = e_store s" "e_store (sieve_notify_access k s) = e_store s"
  "e_store (sieve_notify_remove k s) = e_store s" "e_store (ac_notify_insert k b s) = e_store s"
  "e_store (ac_notify_access k s) = e_store s" "e_store (ac_notify_remove k s) = e_store s"
  "e_aof (sieve_notify_insert k b s) = e_aof s" "e_aof (sieve_notify_access k s) = e_aof s"
  "e_aof (sieve_notify_remove k s) = e_aof s" "e_aof (ac_notify_insert k b s) = e_aof s"
  "e_aof (ac_notify_access k s) = e_aof s" "e_aof (ac_notify_remove k s) = e_aof s"
  "e_used_memory (sieve_notify_insert k b s) = e_used_memory s"
  "e_used_memory (sieve_notify_access k s) = e_used_memory s"
  "e_used_memory (sieve_notify_remove k s) = e_used_memory s"
  "e_used_memory (ac_notify_insert k b s) = e_used_memory s"
  "e_used_memory (ac_notify_access k s) = e_used_memory s"
  "e_used_memory (ac_notify_remove k s) = e_used_memory s"
  "e_eviction (sieve_notify_insert k b s) = e_eviction s"
  "e_eviction (sieve_notify_access k s) = e_eviction s"
  "e_eviction (sieve_notify_remove k s) = e_eviction s"
  "e_eviction (ac_notify_insert k b s) = e_eviction s"
  "e_eviction (ac_notify_access k s) = e_eviction s"
  "e_eviction (ac_notify_remove k s) = e_eviction s"
  by (simp_all add: sieve_notify_insert_def sieve_notify_access_def sieve_notify_remove_def
      ac_notify_insert_def ac_notify_access_def ac_notify_remove_def)

lemma record_simps [simp]:
  "e_store (record_hit s) = e_store s" "e_store (record_miss s) = e_store s"
  "e_aof (record_hit s) = e_aof s" "e_aof (record_miss s) = e_aof s"
  "e_eviction (record_hit s) = e_eviction s" "e_eviction (record_miss s) = e_eviction s"
  "e_used_memory (record_hit s) = e_used_memory s"
  "e_used_memory (record_miss s) = e_used_memory s"
  by (simp_all add: record_hit_def record_miss_def)

lemma apply_delta_simps [simp]:
  "e_store (apply_delta d s) = e_store s" "e_aof (apply_delta d s) = e_aof s"
  "e_eviction (apply_delta d s) = e_eviction s"
  by (simp_all add: apply_delta_def)

lemma track_insert_simps [simp]:
  "fst (track_insert k e s) = map_of (e_store s) k"
  "e_store (snd (track_insert k e s)) = AList.update k e (e_store s)"
  "e_eviction (snd (track_insert k e s)) = e_eviction s"
  "e_aof (snd (track_insert k e s)) = e_aof s"
  by (simp_all add: track_insert_def Let_def)

lemma track_remove_simps [simp]:
  "fst (track_remove k s) = map_of (e_store s) k"
  "e_store (snd (track_remove k s)) = AList.delete k (e_store s)"
  "e_eviction (snd (track_remove k s)) = e_eviction s"
  "e_aof (snd (track_remove k s)) = e_aof s"
  by (simp_all add: track_remove_def Let_def split: option.splits)

lemma engine_ahe_observe_simps [simp]:
  "e_store (engine_ahe_observe v s) = e_store s"
  "e_used_memory (engine_ahe_observe v s) = e_used_memory s"
  "e_eviction (engine_ahe_observe v s) = e_eviction s"
  "e_aof (engine_ahe_observe v s) = e_aof s"
  by (simp_all add: engine_ahe_observe_def case_prod_unfold Let_def)

lemma touch_access_simps [simp]:
  "e_used_memory (touch_access v k s) = e_used_memory s"
  "e_eviction (touch_access v k s) = e_eviction s" "e_aof (touch_access v k s) = e_aof s"
  by (simp_all add: touch_access_def next_rand01_def Let_def split: option.splits)

text \<open>A touch changes no payload and no deadline.\<close>

lemma touch_access_store:
  "e_store (touch_access v k s) = (case map_of (e_store s) k of None \<Rightarrow> e_store s
     | Some e \<Rightarrow> AList.update k (touch v (fst (next_rand01 s)) e) (e_store s))"
  by (simp add: touch_access_def next_rand01_def Let_def split: option.splits)

section \<open>The engine invariant\<close>

definition index_ok :: "engine \<Rightarrow> bool" where
  "index_ok s \<longleftrightarrow>
     sieve_wf (e_sieve s) \<and> ac_wf (e_ac s)
     \<and> e_index_kind s = policy_index_kind (policy (e_eviction s))
     \<and> (is_sieve (e_index_kind s) \<longrightarrow> sv_scope (e_sieve s) = policy_scope (policy (e_eviction s)))
     \<and> (is_ac (e_index_kind s) \<longrightarrow> ac_scope (e_ac s) = policy_scope (policy (e_eviction s)))"

definition memory_ok :: "engine \<Rightarrow> bool" where
  "memory_ok s \<longleftrightarrow> well_keyed (e_store s) \<and> e_used_memory s = total entry_bytes (e_store s)
     \<and> total entry_bytes (e_store s) \<le> u64_max"

definition auth_ok :: "engine \<Rightarrow> bool" where
  "auth_ok s \<longleftrightarrow> e_auth_required s = (e_auth_password s \<noteq> None) \<and> e_auth_password s \<noteq> Some []"

definition engine_inv :: "engine \<Rightarrow> bool" where
  "engine_inv s \<longleftrightarrow> memory_ok s \<and> index_ok s \<and> auth_ok s \<and> e_rng s \<noteq> 0"

lemma engine_invD:
  "engine_inv s \<Longrightarrow> memory_ok s" "engine_inv s \<Longrightarrow> index_ok s" "engine_inv s \<Longrightarrow> auth_ok s"
  "engine_inv s \<Longrightarrow> well_keyed (e_store s)"
  "engine_inv s \<Longrightarrow> e_used_memory s = total entry_bytes (e_store s)"
  by (simp_all add: engine_inv_def memory_ok_def)

text \<open>An update of fields the invariant does not read.\<close>

lemma engine_inv_frame:
  assumes "engine_inv s" "e_store s' = e_store s" "e_used_memory s' = e_used_memory s"
    "e_eviction s' = e_eviction s" "e_sieve s' = e_sieve s" "e_ac s' = e_ac s"
    "e_rng s' = e_rng s" "e_index_kind s' = e_index_kind s"
    "e_auth_password s' = e_auth_password s" "e_auth_required s' = e_auth_required s"
  shows "engine_inv s'"
  using assms by (simp add: engine_inv_def memory_ok_def index_ok_def auth_ok_def)

lemma engine_inv_aof [simp]: "engine_inv s \<Longrightarrow> engine_inv (aof_note f s)"
  by (rule engine_inv_frame) simp_all

lemma engine_inv_log_expire_drop [simp]: "engine_inv s \<Longrightarrow> engine_inv (log_expire_drop k s)"
  by (simp add: log_expire_drop_def)

lemma engine_inv_record [simp]:
  "engine_inv s \<Longrightarrow> engine_inv (record_hit s)" "engine_inv s \<Longrightarrow> engine_inv (record_miss s)"
  by (rule engine_inv_frame; simp add: record_hit_def record_miss_def)+

lemma engine_inv_ahe [simp]: "engine_inv s \<Longrightarrow> engine_inv (engine_ahe_observe v s)"
  by (rule engine_inv_frame) (simp_all add: engine_ahe_observe_def case_prod_unfold Let_def)

lemma engine_inv_new: "rng_seed n \<noteq> 0 \<Longrightarrow> engine_inv (engine_new rnd n)"
  by (simp add: engine_inv_def memory_ok_def index_ok_def auth_ok_def engine_new_def
      eviction_config_default_def sieve_new_def ac_new_def sieve_wf_def ac_wf_def is_sieve_def is_ac_def)

lemma sieve_scope_simps [simp]:
  "sv_scope (sieve_observe_remove k s) = sv_scope s"
  "sv_scope (sieve_observe_insert k b s) = sv_scope s"
  "sv_scope (sieve_observe_access k s) = sv_scope s"
  "sv_scope (sieve_clear s) = sv_scope s" "sv_scope (sieve_rebuild st sc s) = sc"
  by (simp_all add: sieve_observe_remove_def sieve_observe_insert_def sieve_observe_access_def
      sieve_clear_def sieve_rebuild_def Let_def split: option.splits)

lemma ac_scope_simps [simp]:
  "ac_scope (ac_observe_remove k s) = ac_scope s"
  "ac_scope (ac_observe_insert k b s) = ac_scope s"
  "ac_scope (ac_observe_access k s) = ac_scope s"
  "ac_scope (ac_clear s) = ac_scope s" "ac_scope (ac_rebuild st sc s) = sc"
  by (simp_all add: ac_observe_remove_def ac_observe_insert_def ac_observe_access_def
      ac_clear_def ac_rebuild_def Let_def split: option.splits)

lemma index_ok_notify [simp]:
  "index_ok s \<Longrightarrow> index_ok (sieve_notify_insert k b s)"
  "index_ok s \<Longrightarrow> index_ok (sieve_notify_access k s)"
  "index_ok s \<Longrightarrow> index_ok (sieve_notify_remove k s)"
  "index_ok s \<Longrightarrow> index_ok (ac_notify_insert k b s)"
  "index_ok s \<Longrightarrow> index_ok (ac_notify_access k s)"
  "index_ok s \<Longrightarrow> index_ok (ac_notify_remove k s)"
  by (simp_all add: index_ok_def sieve_notify_insert_def sieve_notify_access_def
      sieve_notify_remove_def ac_notify_insert_def ac_notify_access_def ac_notify_remove_def
      sv.wf_insert sv.wf_access sv.wf_remove ac.wf_insert ac.wf_access ac.wf_remove)

lemma notify_auth_simps [simp]:
  "auth_ok (sieve_notify_insert k b s) = auth_ok s" "auth_ok (sieve_notify_access k s) = auth_ok s"
  "auth_ok (sieve_notify_remove k s) = auth_ok s" "auth_ok (ac_notify_insert k b s) = auth_ok s"
  "auth_ok (ac_notify_access k s) = auth_ok s" "auth_ok (ac_notify_remove k s) = auth_ok s"
  "e_rng (sieve_notify_insert k b s) = e_rng s" "e_rng (sieve_notify_access k s) = e_rng s"
  "e_rng (sieve_notify_remove k s) = e_rng s" "e_rng (ac_notify_insert k b s) = e_rng s"
  "e_rng (ac_notify_access k s) = e_rng s" "e_rng (ac_notify_remove k s) = e_rng s"
  by (simp_all add: auth_ok_def sieve_notify_insert_def sieve_notify_access_def
      sieve_notify_remove_def ac_notify_insert_def ac_notify_access_def ac_notify_remove_def)

lemma memory_ok_notify [simp]:
  "memory_ok (sieve_notify_insert k b s) = memory_ok s"
  "memory_ok (sieve_notify_access k s) = memory_ok s"
  "memory_ok (sieve_notify_remove k s) = memory_ok s"
  "memory_ok (ac_notify_insert k b s) = memory_ok s"
  "memory_ok (ac_notify_access k s) = memory_ok s"
  "memory_ok (ac_notify_remove k s) = memory_ok s"
  by (simp_all add: memory_ok_def)

lemma engine_inv_notify [simp]:
  "engine_inv s \<Longrightarrow> engine_inv (sieve_notify_insert k b s)"
  "engine_inv s \<Longrightarrow> engine_inv (sieve_notify_access k s)"
  "engine_inv s \<Longrightarrow> engine_inv (sieve_notify_remove k s)"
  "engine_inv s \<Longrightarrow> engine_inv (ac_notify_insert k b s)"
  "engine_inv s \<Longrightarrow> engine_inv (ac_notify_access k s)"
  "engine_inv s \<Longrightarrow> engine_inv (ac_notify_remove k s)"
  by (simp_all add: engine_inv_def)

text \<open>Replacing the store and the counter together.\<close>

lemma engine_inv_store:
  assumes "engine_inv s" "well_keyed m" "total entry_bytes m \<le> u64_max"
  shows "engine_inv (s\<lparr>e_store := m, e_used_memory := total entry_bytes m\<rparr>)"
  using assms by (simp add: engine_inv_def memory_ok_def index_ok_def auth_ok_def)

lemma apply_delta_eq:
  assumes "int (e_used_memory s) + d = int n" "n \<le> u64_max"
  shows "apply_delta d s = s\<lparr>e_used_memory := n\<rparr>"
proof (cases "d > 0")
  case True
  then have "e_used_memory s + nat d = n" using assms(1) by linarith
  then show ?thesis using True assms(2) by (simp add: apply_delta_def)
next
  case False
  then have "e_used_memory s - nat (- d) = n" using assms(1) by linarith
  then show ?thesis using False by (auto simp: apply_delta_def)
qed

lemma engine_inv_track_insert:
  assumes "engine_inv s" "total entry_bytes (AList.update k e (e_store s)) \<le> u64_max"
  shows "engine_inv (snd (track_insert k e s))"
proof -
  let ?m = "AList.update k e (e_store s)"
  let ?out = "case map_of (e_store s) k of Some p \<Rightarrow> entry_bytes k p | None \<Rightarrow> 0"
  have "total entry_bytes ?m + ?out = total entry_bytes (e_store s) + entry_bytes k e"
    using total_update [of "e_store s" entry_bytes k e] engine_invD(4) [OF assms(1)]
    by (simp split: option.splits)
  then have "int (e_used_memory (s\<lparr>e_store := ?m\<rparr>)) + (int (entry_bytes k e) - int ?out)
      = int (total entry_bytes ?m)"
    using engine_invD(5) [OF assms(1)] by simp
  from apply_delta_eq [OF this assms(2)] show ?thesis
    using engine_inv_store [OF assms(1) _ assms(2)] engine_invD(4) [OF assms(1)]
    by (simp add: track_insert_def Let_def cong: option.case_cong)
qed

lemma engine_inv_delete:
  assumes "engine_inv s" "map_of (e_store s) k = Some e"
  shows "engine_inv (apply_delta (- int (entry_bytes k e)) (s\<lparr>e_store := AList.delete k (e_store s)\<rparr>))"
proof -
  let ?m = "AList.delete k (e_store s)"
  have t: "total entry_bytes ?m + entry_bytes k e = total entry_bytes (e_store s)"
    using total_delete [of "e_store s" entry_bytes k] engine_invD(4) [OF assms(1)] assms(2) by simp
  then have "int (e_used_memory (s\<lparr>e_store := ?m\<rparr>)) + (- int (entry_bytes k e))
      = int (total entry_bytes ?m)"
    using engine_invD(5) [OF assms(1)] by simp
  moreover have le: "total entry_bytes ?m \<le> u64_max"
    using t assms(1) by (simp add: engine_inv_def memory_ok_def)
  ultimately show ?thesis
    using apply_delta_eq engine_inv_store [OF assms(1) _ le] engine_invD(4) [OF assms(1)] by simp
qed

lemma engine_inv_track_remove [simp]:
  assumes "engine_inv s"
  shows "engine_inv (snd (track_remove k s))"
proof (cases "map_of (e_store s) k")
  case None
  then show ?thesis using assms by (simp add: track_remove_def)
next
  case (Some e)
  then show ?thesis using engine_inv_delete [OF assms Some] by (simp add: track_remove_def Let_def)
qed

lemma engine_inv_track_clear [simp]: "engine_inv s \<Longrightarrow> engine_inv (track_clear s)"
  by (simp add: engine_inv_def memory_ok_def index_ok_def auth_ok_def track_clear_def
      sv.wf_clear ac.wf_clear)

lemma total_same_cost:
  "well_keyed m \<Longrightarrow> map_of m k = Some e \<Longrightarrow> f k e' = f k e \<Longrightarrow>
   total f (AList.update k e' m) = total f m"
  using total_update [of m f k e'] by simp

lemma engine_inv_touch [simp]:
  assumes "engine_inv s"
  shows "engine_inv (touch_access v k s)"
proof (cases "map_of (e_store s) k")
  case None
  then show ?thesis using assms by (simp add: touch_access_def)
next
  case (Some e)
  let ?r = "fst (next_rand01 s)"
  let ?s = "s\<lparr>e_rng := xorshift32 (e_rng s), e_store := AList.update k (touch v ?r e) (e_store s)\<rparr>"
  have "total entry_bytes (AList.update k (touch v ?r e) (e_store s)) = total entry_bytes (e_store s)"
    by (rule total_same_cost [OF engine_invD(4) [OF assms] Some]) simp
  then have "engine_inv ?s"
    using assms by (simp add: engine_inv_def memory_ok_def index_ok_def auth_ok_def xorshift32_nonzero)
  then show ?thesis using Some by (simp add: touch_access_def next_rand01_def Let_def)
qed

lemma policy_kind_not_both: "is_sieve k \<Longrightarrow> \<not> is_ac k"
  by (auto simp: is_sieve_def is_ac_def)

lemma engine_inv_set_eviction_config [simp]:
  assumes "engine_inv s"
  shows "engine_inv (set_eviction_config cfg s)"
proof -
  have kinds: "policy_index_kind p = policy_index_kind q \<Longrightarrow> is_sieve (policy_index_kind q)
      \<or> is_ac (policy_index_kind q) \<Longrightarrow> policy_scope p = policy_scope q" for p q
    by (cases p; cases q) (simp_all add: is_sieve_def is_ac_def)
  show ?thesis
    using assms engine_invD(4) [OF assms]
      kinds [of "policy cfg" "policy (e_eviction s)"] policy_kind_not_both
    by (auto simp: set_eviction_config_def Let_def engine_inv_def memory_ok_def index_ok_def
        auth_ok_def sv.wf_rebuild sv.wf_clear ac.wf_rebuild ac.wf_clear)
qed

lemma engine_inv_set_requirepass [simp]: "engine_inv s \<Longrightarrow> engine_inv (set_requirepass pw s)"
  by (auto simp: set_requirepass_def Let_def engine_inv_def memory_ok_def index_ok_def auth_ok_def
      split: option.splits)

section \<open>Victim selection and the eviction loop\<close>

lemma evict_index_simps [simp]:
  "e_store (snd (evict_sieve v sc ta s)) = e_store s" "e_store (snd (evict_ac sc s)) = e_store s"
  "e_used_memory (snd (evict_sieve v sc ta s)) = e_used_memory s"
  "e_used_memory (snd (evict_ac sc s)) = e_used_memory s"
  "e_eviction (snd (evict_sieve v sc ta s)) = e_eviction s"
  "e_eviction (snd (evict_ac sc s)) = e_eviction s"
  "e_aof (snd (evict_sieve v sc ta s)) = e_aof s" "e_aof (snd (evict_ac sc s)) = e_aof s"
  by (simp_all add: evict_sieve_def evict_ac_def case_prod_unfold Let_def)

lemma select_victim_simps [simp]:
  "e_store (snd (select_victim v cfg s)) = e_store s"
  "e_used_memory (snd (select_victim v cfg s)) = e_used_memory s"
  "e_eviction (snd (select_victim v cfg s)) = e_eviction s"
  "e_aof (snd (select_victim v cfg s)) = e_aof s"
  by (simp_all add: select_victim_def Let_def)

lemma sieve_evict_scope: "sieve_wf s \<Longrightarrow> sv_scope (snd (sieve_evict_one ta t st sc s)) = sv_scope s"
  using sieve_evict_refines_ring by (metis prod.collapse)

lemma ac_evict_scope: "ac_wf s \<Longrightarrow> ac_scope (snd (ac_evict_one st sc s)) = ac_scope s"
  using ac_evict_result [of s st sc]
  by (cases "ac_evict_one st sc s") (auto split: option.splits)

lemma engine_inv_evict_index:
  "engine_inv s \<Longrightarrow> engine_inv (snd (evict_sieve v sc ta s))"
  "engine_inv s \<Longrightarrow> engine_inv (snd (evict_ac sc s))"
  by (simp_all add: engine_inv_def memory_ok_def index_ok_def auth_ok_def evict_sieve_def evict_ac_def
      case_prod_unfold Let_def sv.wf_evict ac.wf_evict sieve_evict_scope ac_evict_scope)

lemma engine_inv_select_victim [simp]: "engine_inv s \<Longrightarrow> engine_inv (snd (select_victim v cfg s))"
  by (simp add: select_victim_def Let_def engine_inv_evict_index)

lemma sampled_victim_mem:
  assumes "well_keyed st" "set cs \<subseteq> set (sample_candidates st scope n)"
    and "c \<in> set cs"
  shows "eligible st scope (c_key c)"
  using sample_candidates_mem [OF assms(1), of c scope n] assms(2,3)
  by (auto simp: eligible_def split: option.splits)

lemma select_victim_eligible:
  assumes "engine_inv s" "select_victim v cfg s = (Some k, s')"
  shows "eligible (e_store s) (policy_scope (policy cfg)) k"
proof -
  have wk: "well_keyed (e_store s)" and sw: "sieve_wf (e_sieve s)" and aw: "ac_wf (e_ac s)"
    using assms(1) by (simp_all add: engine_inv_def memory_ok_def index_ok_def)
  show ?thesis
    using assms(2) sv.evict_Some [OF sw] ac.evict_Some [OF aw]
      sampled_victim_mem [OF wk order_refl]
    by (auto simp: select_victim_def Let_def evict_sieve_def evict_ac_def case_prod_unfold
        split: if_splits dest!: pick_victim_mem pick_victim_ahe_Some)
      (metis prod.collapse)+
qed

lemma by_key_ex:
  "xs \<noteq> [] \<Longrightarrow> \<exists>c. min_by_key f xs = Some c" "xs \<noteq> [] \<Longrightarrow> \<exists>c. max_by_key g xs = Some c"
  by (metis min_by_key_None not_None_eq, metis max_by_key_None not_None_eq)

lemma pick_victim_Some:
  assumes "cs \<noteq> []" "p \<noteq> NoEviction" "\<not> policy_is_sieve p" "\<not> policy_is_adaptive_climb p"
    and "p = VolatileTtl \<Longrightarrow> \<forall>c\<in>set cs. c_expire_at c \<noteq> None"
  shows "\<exists>c. pick_victim rnd t p cs = Some c"
proof -
  obtain c cs' where cs: "cs = c # cs'" using assms(1) by (cases cs) auto
  have ttl: "p = VolatileTtl \<Longrightarrow> filter (\<lambda>c. c_expire_at c \<noteq> None) cs = cs"
    using assms(5) by (simp add: filter_id_conv)
  show ?thesis
    using assms(2-4) ttl unfolding cs
    by (cases p) (simp_all add: policy_is_sieve_def policy_is_adaptive_climb_def by_key_ex
        pick_victim_ahe_def Let_def del: min_by_key.simps max_by_key.simps filter.simps)
qed

text \<open>Every eligible key of the store is tracked by the active index.\<close>

definition index_covers :: "engine \<Rightarrow> bool" where
  "index_covers s \<longleftrightarrow> (\<forall>k. eligible (e_store s) (policy_scope (policy (e_eviction s))) k \<longrightarrow>
     (is_sieve (e_index_kind s) \<longrightarrow> k \<in> set (sieve_keys (e_sieve s)))
     \<and> (is_ac (e_index_kind s) \<longrightarrow> k \<in> set (ac_keys (e_ac s))))"

lemma policy_index_simps:
  "is_sieve (policy_index_kind p) = policy_is_sieve p"
  "is_ac (policy_index_kind p) = policy_is_adaptive_climb p"
  by (cases p; simp add: is_sieve_def is_ac_def policy_is_sieve_def policy_is_adaptive_climb_def)+

lemma sample_all_ttl:
  "\<forall>c\<in>set (sample_candidates st Volatile n). c_expire_at c \<noteq> None"
  by (auto simp: sample_candidates_eq in_scope_def candidate_of_def dest!: in_set_takeD)

lemma sample_of_eligible:
  assumes "0 < n" "eligible st scope k"
  shows "sample_candidates st scope n \<noteq> []"
  using assms sample_candidates_nonempty [OF assms(1), of st scope]
  by (auto simp: eligible_def split: option.splits dest: map_of_SomeD)

lemma select_victim_progress:
  assumes "engine_inv s" "index_covers s" "cfg = e_eviction s" "policy cfg \<noteq> NoEviction"
    and "0 < samples cfg" "eligible (e_store s) (policy_scope (policy cfg)) k"
  shows "\<exists>x. fst (select_victim v cfg s) = Some x"
proof -
  let ?p = "policy cfg"
  let ?cs = "sample_candidates (e_store s) (policy_scope ?p) (samples cfg)"
  have kind: "e_index_kind s = policy_index_kind ?p" and sw: "sieve_wf (e_sieve s)"
    and aw: "ac_wf (e_ac s)"
    using assms(1,3) by (simp_all add: engine_inv_def index_ok_def)
  have cs: "?cs \<noteq> []" by (rule sample_of_eligible [OF assms(5,6)])
  consider "policy_is_sieve ?p" | "policy_is_adaptive_climb ?p" | "?p \<in> {AllKeysAhe, VolatileAhe}"
    | "\<not> policy_is_sieve ?p" "\<not> policy_is_adaptive_climb ?p" "?p \<notin> {AllKeysAhe, VolatileAhe}"
    by blast
  then show ?thesis
  proof cases
    case 1
    then have "k \<in> set (sieve_keys (e_sieve s))"
      using assms(2,3,6) kind by (auto simp: index_covers_def policy_index_simps)
    then have "\<exists>x. fst (sieve_evict_one ta (now_late v) (e_store s) (policy_scope ?p) (e_sieve s)) = Some x" for ta
      using sv.evict_None [OF sw] assms(6) by (metis option.exhaust prod.collapse)
    then show ?thesis using 1
      by (auto simp: select_victim_def Let_def evict_sieve_def case_prod_unfold policy_is_sieve_def)
  next
    case 2
    then have "k \<in> set (ac_keys (e_ac s))"
      using assms(2,3,6) kind by (auto simp: index_covers_def policy_index_simps)
    then have "\<exists>x. fst (ac_evict_one (e_store s) (policy_scope ?p) (e_ac s)) = Some x"
      using ac.evict_None [OF aw] assms(6) by (metis option.exhaust prod.collapse)
    then show ?thesis using 2
      by (auto simp: select_victim_def Let_def evict_ac_def case_prod_unfold policy_is_sieve_def
          policy_is_adaptive_climb_def)
  next
    case 3
    then show ?thesis using cs by_key_ex(2) [OF cs]
      by (auto simp: select_victim_def Let_def pick_victim_ahe_def)
  next
    case 4
    have "\<exists>c. pick_victim (f32_rnd v) (now_late v) ?p ?cs = Some c"
      using 4(1,2) cs assms(4) sample_all_ttl by (intro pick_victim_Some) auto
    then show ?thesis using 4 by (auto simp: select_victim_def Let_def)
  qed
qed

section \<open>Coverage of the index and progress of the loop\<close>

definition covers_but :: "bytes option \<Rightarrow> engine \<Rightarrow> bool" where
  "covers_but x s \<longleftrightarrow> (\<forall>k. eligible (e_store s) (policy_scope (policy (e_eviction s))) k \<longrightarrow>
     x \<noteq> Some k \<longrightarrow>
     (is_sieve (e_index_kind s) \<longrightarrow> k \<in> set (sieve_keys (e_sieve s)))
     \<and> (is_ac (e_index_kind s) \<longrightarrow> k \<in> set (ac_keys (e_ac s))))"

lemma index_covers_eq: "index_covers s = covers_but None s"
  by (simp add: index_covers_def covers_but_def)

lemma covers_but_frame:
  assumes "e_store s' = e_store s" "e_eviction s' = e_eviction s" "e_index_kind s' = e_index_kind s"
    "e_sieve s' = e_sieve s" "e_ac s' = e_ac s"
  shows "covers_but x s' = covers_but x s"
  using assms by (simp add: covers_but_def)

lemma covers_aof [simp]:
  "covers_but x (aof_note f s) = covers_but x s" "index_covers (aof_note f s) = index_covers s"
  by (simp_all add: index_covers_eq covers_but_def)

lemma eligible_update [simp]:
  "eligible (AList.update k e st) sc k' = (if k' = k then in_scope sc e else eligible st sc k')"
  by (simp add: eligible_def)

lemma eligible_delete [simp]:
  "eligible (AList.delete k st) sc k' \<longleftrightarrow> k' \<noteq> k \<and> eligible st sc k'"
  by (simp add: eligible_def)

lemma in_scope_tracks: "in_scope sc e = tracks sc (expire_at e \<noteq> None)"
  by (cases sc) (simp_all add: in_scope_def tracks_def)

lemma index_kind_simps [simp]:
  "e_index_kind (apply_delta d s) = e_index_kind s" "e_sieve (apply_delta d s) = e_sieve s"
  "e_ac (apply_delta d s) = e_ac s"
  "e_index_kind (sieve_notify_insert k b s) = e_index_kind s"
  "e_index_kind (sieve_notify_access k s) = e_index_kind s"
  "e_index_kind (sieve_notify_remove k s) = e_index_kind s"
  "e_index_kind (ac_notify_insert k b s) = e_index_kind s"
  "e_index_kind (ac_notify_access k s) = e_index_kind s"
  "e_index_kind (ac_notify_remove k s) = e_index_kind s"
  by (simp_all add: apply_delta_def sieve_notify_insert_def sieve_notify_access_def
      sieve_notify_remove_def ac_notify_insert_def ac_notify_access_def ac_notify_remove_def)

lemma notify_index [simp]:
  "e_sieve (ac_notify_insert k b s) = e_sieve s" "e_sieve (ac_notify_access k s) = e_sieve s"
  "e_sieve (ac_notify_remove k s) = e_sieve s" "e_ac (sieve_notify_insert k b s) = e_ac s"
  "e_ac (sieve_notify_access k s) = e_ac s" "e_ac (sieve_notify_remove k s) = e_ac s"
  by (simp_all add: sieve_notify_insert_def sieve_notify_access_def
      sieve_notify_remove_def ac_notify_insert_def ac_notify_access_def ac_notify_remove_def)

lemma e_sieve_notify:
  "is_sieve (e_index_kind s) \<Longrightarrow> e_sieve (sieve_notify_insert k b s) = sieve_observe_insert k b (e_sieve s)"
  "is_sieve (e_index_kind s) \<Longrightarrow> e_sieve (sieve_notify_remove k s) = sieve_observe_remove k (e_sieve s)"
  "is_sieve (e_index_kind s) \<Longrightarrow> e_sieve (sieve_notify_access k s) = sieve_observe_access k (e_sieve s)"
  "is_ac (e_index_kind s) \<Longrightarrow> e_ac (ac_notify_insert k b s) = ac_observe_insert k b (e_ac s)"
  "is_ac (e_index_kind s) \<Longrightarrow> e_ac (ac_notify_remove k s) = ac_observe_remove k (e_ac s)"
  "is_ac (e_index_kind s) \<Longrightarrow> e_ac (ac_notify_access k s) = ac_observe_access k (e_ac s)"
  by (simp_all add: sieve_notify_insert_def sieve_notify_access_def
      sieve_notify_remove_def ac_notify_insert_def ac_notify_access_def ac_notify_remove_def)

lemma track_insert_covers:
  assumes "index_ok s" "index_covers s"
  shows "index_covers (snd (track_insert k e s))"
  using assms
  by (auto simp: index_covers_def index_ok_def track_insert_def Let_def e_sieve_notify
      sieve_keys_insert ac_keys_insert in_scope_tracks)

lemma track_remove_index:
  "e_index_kind (snd (track_remove k s)) = e_index_kind s"
  "is_sieve (e_index_kind s) \<Longrightarrow> e_sieve (snd (track_remove k s)) = sieve_observe_remove k (e_sieve s)"
  "is_ac (e_index_kind s) \<Longrightarrow> e_ac (snd (track_remove k s)) = ac_observe_remove k (e_ac s)"
  by (cases "map_of (e_store s) k"; simp add: track_remove_def Let_def e_sieve_notify)+

lemma track_remove_covers:
  assumes "covers_but x s" "x = None \<or> x = Some k"
  shows "index_covers (snd (track_remove k s))"
  using assms
  by (auto simp: index_covers_def covers_but_def track_remove_index sieve_keys_remove ac_keys_remove)

lemma touch_access_covers:
  assumes "index_ok s" "index_covers s"
  shows "index_covers (touch_access v k s)"
  using assms
  by (auto simp: index_covers_def index_ok_def touch_access_def next_rand01_def Let_def e_sieve_notify
      sieve_keys_access ac_keys_access in_scope_tracks eligible_def split: option.splits)

lemma track_clear_covers: "index_covers (track_clear s)"
  by (simp add: index_covers_def track_clear_def eligible_def)

lemma select_victim_covers:
  assumes "engine_inv s" "index_covers s" "cfg = e_eviction s" "select_victim v cfg s = (r, s')"
  shows "covers_but r s'"
proof -
  let ?sc = "policy_scope (policy cfg)"
  have sw: "sieve_wf (e_sieve s)" and aw: "ac_wf (e_ac s)"
    and kind: "e_index_kind s = policy_index_kind (policy cfg)"
    using assms(1,3) by (simp_all add: engine_inv_def index_ok_def)
  have s: "covers_but r s'"
    if "evict_sieve v ?sc ta s = (r, s')" "policy_is_sieve (policy cfg)" for ta
    using assms(2,3) that kind sv.evict_keeps [OF sw] policy_kind_not_both
    by (auto simp: covers_but_def index_covers_def evict_sieve_def case_prod_unfold Let_def
        policy_index_simps) (metis prod.collapse)+
  have a: "covers_but r s'"
    if "evict_ac ?sc s = (r, s')" "policy_is_adaptive_climb (policy cfg)"
    using assms(2,3) that kind ac.evict_keeps [OF aw] policy_kind_not_both
    by (auto simp: covers_but_def index_covers_def evict_ac_def case_prod_unfold Let_def
        policy_index_simps) (metis prod.collapse)+
  have "covers_but r s" using assms(2) by (auto simp: covers_but_def index_covers_def)
  then show ?thesis
    using assms(4) s a by (auto simp: select_victim_def Let_def split: if_splits)
qed

text \<open>One turn of the loop that evicts.\<close>

definition evict_turn :: "bytes \<Rightarrow> engine \<Rightarrow> engine" where
  "evict_turn k s = (let s = snd (track_remove k s);
     s = s\<lparr>e_evicted_keys := wrap_u64 (e_evicted_keys s + 1)\<rparr> in aof_note (append_del k) s)"

lemma evict_turn_simps [simp]:
  "e_store (evict_turn k s) = AList.delete k (e_store s)" "e_eviction (evict_turn k s) = e_eviction s"
  "engine_inv s \<Longrightarrow> engine_inv (evict_turn k s)"
  by (simp_all add: evict_turn_def Let_def) (rule engine_inv_aof, rule engine_inv_frame, auto)

lemma evict_turn_covers:
  "covers_but (Some k) s \<Longrightarrow> index_covers (evict_turn k s)"
  using track_remove_covers [of "Some k" s k]
  by (simp add: evict_turn_def Let_def index_covers_eq covers_but_def)

lemma evict_loop_Suc:
  "evict_loop (Suc fuel) v cfg inc n s =
     (if mem_fits cfg inc (e_used_memory s) then (Ok n, s)
      else if policy cfg = NoEviction then (Err OutOfMemory, s)
      else case select_victim v cfg s of
        (None, s1) \<Rightarrow> (Err OutOfMemory, s1)
      | (Some k, s1) \<Rightarrow> evict_loop fuel v cfg inc (n + 1) (evict_turn k s1))"
  by (simp add: evict_turn_def Let_def case_prod_unfold split: option.splits)

lemma delete_map_le: "map_of (AList.delete k m) \<subseteq>\<^sub>m map_of m"
  by (auto simp: map_le_def split: if_splits)

lemma evict_loop_inv:
  assumes "engine_inv s" "evict_loop fuel v cfg inc n s = (r, s')"
  shows "engine_inv s' \<and> map_of (e_store s') \<subseteq>\<^sub>m map_of (e_store s) \<and> e_eviction s' = e_eviction s
     \<and> length (e_store s') \<le> length (e_store s)"
  using assms
proof (induction fuel arbitrary: n s)
  case (Suc fuel)
  obtain x s1 where x: "select_victim v cfg s = (x, s1)" by (cases "select_victim v cfg s")
  have s1: "engine_inv s1" "e_store s1 = e_store s" "e_eviction s1 = e_eviction s"
    using engine_inv_select_victim [OF Suc.prems(1), of v cfg] select_victim_simps [of v cfg s] x
    by simp_all
  show ?case
  proof (cases "mem_fits cfg inc (e_used_memory s) \<or> policy cfg = NoEviction \<or> x = None")
    case True
    then show ?thesis using Suc.prems s1 x
      by (auto simp: evict_loop_Suc simp del: evict_loop.simps split: if_splits)
  next
    case False
    then obtain k where k: "x = Some k" by auto
    then have "evict_loop fuel v cfg inc (n + 1) (evict_turn k s1) = (r, s')"
      using False Suc.prems x by (simp add: evict_loop_Suc del: evict_loop.simps)
    note ih = Suc.IH [OF evict_turn_simps(3) [OF s1(1)] this, unfolded evict_turn_simps s1(2,3)]
    note le = conjunct1 [OF conjunct2 [OF ih]] conjunct2 [OF conjunct2 [OF conjunct2 [OF ih]]]
    show ?thesis
      using ih map_le_trans [OF le(1) delete_map_le] le_trans [OF le(2) length_delete_le] by blast
  qed
qed simp

lemma evict_loop_covers:
  assumes "engine_inv s" "index_covers s" "cfg = e_eviction s"
    and "evict_loop fuel v cfg inc n s = (r, s')"
  shows "index_covers s'"
  using assms
proof (induction fuel arbitrary: n s)
  case (Suc fuel)
  obtain x s1 where x: "select_victim v cfg s = (x, s1)" by (cases "select_victim v cfg s")
  have s1: "engine_inv s1" "e_eviction s1 = e_eviction s"
    using engine_inv_select_victim [OF Suc.prems(1), of v cfg] select_victim_simps [of v cfg s] x
    by simp_all
  note cov = select_victim_covers [OF Suc.prems(1-3) x]
  show ?case
  proof (cases "mem_fits cfg inc (e_used_memory s) \<or> policy cfg = NoEviction \<or> x = None")
    case True
    then show ?thesis using Suc.prems cov x
      by (auto simp: evict_loop_Suc index_covers_eq simp del: evict_loop.simps split: if_splits)
  next
    case False
    then obtain k where k: "x = Some k" "evict_loop fuel v cfg inc (n + 1) (evict_turn k s1) = (r, s')"
      using Suc.prems(4) x
      by (auto simp: evict_loop_Suc simp del: evict_loop.simps)
    have "index_covers (evict_turn k s1)" using cov evict_turn_covers k(1) by simp
    then show ?thesis using Suc.IH [OF _ _ _ k(2)] s1 Suc.prems(3) by simp
  qed
qed simp

text \<open>The bytes of the keys the policy may not evict.\<close>

definition pinned_bytes :: "eviction_scope \<Rightarrow> store \<Rightarrow> nat" where
  "pinned_bytes sc st = total entry_bytes (filter (\<lambda>(k, e). \<not> in_scope sc e) st)"

lemma pinned_bytes_AllKeys [simp]: "pinned_bytes AllKeys st = 0"
  by (simp add: pinned_bytes_def in_scope_def case_prod_unfold)

lemma filter_delete_other:
  "well_keyed m \<Longrightarrow> map_of m k = Some e \<Longrightarrow> \<not> P (k, e) \<Longrightarrow> filter P (AList.delete k m) = filter P m"
proof (induction m)
  case (Cons p m)
  then show ?case
    by (cases "fst p = k") (auto simp: delete_idem split: if_splits)
qed simp

lemma pinned_bytes_delete:
  "well_keyed st \<Longrightarrow> eligible st sc k \<Longrightarrow> pinned_bytes sc (AList.delete k st) = pinned_bytes sc st"
  unfolding pinned_bytes_def
  by (auto simp: eligible_def split: option.splits
      intro!: arg_cong [where f = "total entry_bytes"] filter_delete_other)

lemma none_eligible_pinned:
  assumes "well_keyed st" "\<nexists>k. eligible st sc k"
  shows "pinned_bytes sc st = total entry_bytes st"
proof -
  have "filter (\<lambda>(k, e). \<not> in_scope sc e) st = st"
    using assms by (auto simp: filter_id_conv eligible_iff_mem)
  then show ?thesis by (simp add: pinned_bytes_def)
qed

lemma length_delete_mem: "map_of m k = Some e \<Longrightarrow> length (AList.delete k m) < length m"
proof (induction m)
  case (Cons p m)
  then show ?case using length_delete_le [of k m] by (auto split: if_splits)
qed simp

lemma evict_loop_progress:
  assumes "engine_inv s" "index_covers s" "cfg = e_eviction s" "policy cfg \<noteq> NoEviction"
    and "0 < samples cfg" "length (e_store s) < fuel"
    and "pinned_bytes (policy_scope (policy cfg)) (e_store s) + inc \<le> max_memory cfg"
  shows "\<exists>m s'. evict_loop fuel v cfg inc n s = (Ok m, s') \<and> mem_fits cfg inc (e_used_memory s')"
  using assms
proof (induction fuel arbitrary: n s)
  case (Suc fuel)
  let ?sc = "policy_scope (policy cfg)"
  have wk: "well_keyed (e_store s)" and used: "e_used_memory s = total entry_bytes (e_store s)"
    using engine_invD [OF Suc.prems(1)] by auto
  show ?case
  proof (cases "mem_fits cfg inc (e_used_memory s)")
    case True
    then show ?thesis by simp
  next
    case False
    have "\<exists>k. eligible (e_store s) ?sc k"
    proof (rule ccontr)
      assume "\<nexists>k. eligible (e_store s) ?sc k"
      then have "e_used_memory s + inc \<le> max_memory cfg"
        using none_eligible_pinned [OF wk] Suc.prems(7) used by simp
      then show False using False by (simp add: mem_fits_def sat_add_u64_def)
    qed
    then obtain x s1 where x: "select_victim v cfg s = (Some x, s1)"
      using select_victim_progress [OF Suc.prems(1-5), of _ v] by (metis fst_conv surj_pair)
    have el: "eligible (e_store s) ?sc x" by (rule select_victim_eligible [OF Suc.prems(1) x])
    have s1: "engine_inv s1" "e_store s1 = e_store s" "e_eviction s1 = e_eviction s"
      using engine_inv_select_victim [OF Suc.prems(1), of v cfg] select_victim_simps [of v cfg s] x
      by simp_all
    have len: "length (AList.delete x (e_store s)) < length (e_store s)"
      using el length_delete_mem [of "e_store s" x] by (auto simp: eligible_def split: option.splits)
    have "\<exists>m s'. evict_loop fuel v cfg inc (n + 1) (evict_turn x s1) = (Ok m, s')
        \<and> mem_fits cfg inc (e_used_memory s')"
      using Suc.prems s1 len select_victim_covers [OF Suc.prems(1-3) x] evict_turn_covers
        pinned_bytes_delete [OF wk el]
      by (intro Suc.IH) simp_all
    then show ?thesis using False Suc.prems(4) x by (simp add: evict_loop_Suc del: evict_loop.simps)
  qed
qed simp

lemma enforce_inv:
  assumes "engine_inv s" "enforce_memory_limit v inc s = (r, s')"
  shows "engine_inv s' \<and> map_of (e_store s') \<subseteq>\<^sub>m map_of (e_store s) \<and> e_eviction s' = e_eviction s"
  using assms evict_loop_inv [OF assms(1)]
  by (auto simp: enforce_memory_limit_def Let_def split: if_splits prod.splits sum.splits)
    (blast+)?

lemma enforce_Ok_fits:
  assumes "enforce_memory_limit v inc s = (Ok (), s')" "max_memory (e_eviction s) \<noteq> 0"
  shows "mem_fits (e_eviction s) inc (e_used_memory s')"
  using assms
  by (auto simp: enforce_memory_limit_def Let_def split: if_splits prod.splits sum.splits)

lemma enforce_covers:
  assumes "engine_inv s" "index_covers s" "enforce_memory_limit v inc s = (r, s')"
  shows "index_covers s'"
  using assms evict_loop_covers [OF assms(1,2) refl]
  by (auto simp: enforce_memory_limit_def Let_def engine_ahe_observe_def keyspace_stats_def
      index_covers_eq covers_but_def split: if_splits prod.splits sum.splits)

lemma enforce_unlimited: "max_memory (e_eviction s) = 0 \<Longrightarrow> enforce_memory_limit v inc s = (Ok (), s)"
  by (simp add: enforce_memory_limit_def)

end
