(* ===== verification/WriteGuard.thy ===== *)
theory WriteGuard
  imports Engine
begin

text \<open>
  Models \<^verbatim>\<open>src/src/storage/engine/write_guard.rs\<close>: the typed operations that run under the keyspace
  write lock, each with its lazy expiry, logging and accounting. A guard is the engine together
  with the flag \<^verbatim>\<open>wrote_aof\<close>; the two clock readings of \<^verbatim>\<open>WriteGuard::begin\<close> are \<open>now\<close> and
  \<open>now_ms\<close> of the environment. \<open>wg_drop\<close> is the destructor, which runs the durability barrier.
\<close>

section \<open>The guard\<close>

record write_guard =
  g_engine :: engine
  g_wrote_aof :: bool

definition wg_begin :: "engine \<Rightarrow> write_guard" where
  "wg_begin s = \<lparr>g_engine = s, g_wrote_aof = False\<rparr>"

definition wg_log :: "(aof_writer \<Rightarrow> unit result \<times> aof_writer) \<Rightarrow> write_guard \<Rightarrow> write_guard" where
  "wg_log opr g =
     (case e_aof (g_engine g) of
        None \<Rightarrow> g
      | Some _ \<Rightarrow> \<lparr>g_engine = aof_note opr (g_engine g), g_wrote_aof = True\<rparr>)"

definition wg_drop :: "write_guard \<Rightarrow> engine" where
  "wg_drop g =
     (if g_wrote_aof g then aof_note sync_if_needed (g_engine g) else g_engine g)"

text \<open>Run an engine operation under the guard.\<close>

definition wg_do :: "(engine \<Rightarrow> engine) \<Rightarrow> write_guard \<Rightarrow> write_guard" where
  "wg_do f g = g\<lparr>g_engine := f (g_engine g)\<rparr>"

abbreviation wg_lookup :: "bytes \<Rightarrow> write_guard \<Rightarrow> value_entry option" where
  "wg_lookup key g \<equiv> map_of (e_store (g_engine g)) key"

text \<open>The lazy expiry shared by the operations: drop the entry and log a \<^verbatim>\<open>DEL\<close>.\<close>

definition wg_expire_drop :: "bytes \<Rightarrow> write_guard \<Rightarrow> write_guard" where
  "wg_expire_drop key g = wg_do (\<lambda>s. log_expire_drop key (snd (track_remove key s))) g"

section \<open>Reads with lazy expiry\<close>

definition wg_fetch_live :: "env \<Rightarrow> bytes \<Rightarrow> write_guard \<Rightarrow> bytes option \<times> write_guard" where
  "wg_fetch_live v key g =
     (case wg_lookup key g of
        Some entry \<Rightarrow>
          if is_expired entry (now v) then (None, wg_do record_miss (wg_expire_drop key g))
          else (Some (data entry), wg_do (\<lambda>s. record_hit (touch_access v key s)) g)
      | None \<Rightarrow> (None, wg_do record_miss g))"

definition wg_contains_live :: "env \<Rightarrow> bytes \<Rightarrow> write_guard \<Rightarrow> bool \<times> write_guard" where
  "wg_contains_live v key g =
     (case wg_lookup key g of
        Some entry \<Rightarrow>
          if is_expired entry (now v) then (False, wg_do record_miss (wg_expire_drop key g))
          else (True, wg_do record_hit g)
      | None \<Rightarrow> (False, wg_do record_miss g))"

definition wg_read_state ::
  "env \<Rightarrow> bytes \<Rightarrow> write_guard \<Rightarrow> (bytes \<times> instant option) option \<times> write_guard" where
  "wg_read_state v key g =
     (case wg_lookup key g of
        Some entry \<Rightarrow>
          if is_expired entry (now v) then (None, wg_expire_drop key g)
          else (Some (data entry, expire_at entry), g)
      | None \<Rightarrow> (None, g))"

definition wg_ttl_of :: "env \<Rightarrow> bytes \<Rightarrow> write_guard \<Rightarrow> ttl_status \<times> write_guard" where
  "wg_ttl_of v key g =
     (case wg_lookup key g of
        None \<Rightarrow> (Missing, g)
      | Some entry \<Rightarrow>
          if is_expired entry (now v) then (Missing, wg_expire_drop key g)
          else (case expire_at entry of
                  None \<Rightarrow> NoExpire
                | Some deadline \<Rightarrow> Millis (int ((deadline - now v) div 1000000)), g))"

definition wg_strlen_of :: "env \<Rightarrow> bytes \<Rightarrow> write_guard \<Rightarrow> nat \<times> write_guard" where
  "wg_strlen_of v key g =
     (case wg_lookup key g of
        Some entry \<Rightarrow>
          if is_expired entry (now v) then (0, wg_expire_drop key g) else (length (data entry), g)
      | None \<Rightarrow> (0, g))"

definition wg_memory_of :: "env \<Rightarrow> bytes \<Rightarrow> write_guard \<Rightarrow> nat option \<times> write_guard" where
  "wg_memory_of v key g =
     (case wg_lookup key g of
        Some entry \<Rightarrow>
          if is_expired entry (now v) then
            (None, wg_do (\<lambda>s. log_expire_drop key
                        (untrack key entry (s\<lparr>e_store := AList.delete key (e_store s)\<rparr>))) g)
          else (Some (entry_bytes key entry), g)
      | None \<Rightarrow> (None, g))"

section \<open>Writes\<close>

definition wg_enforce :: "env \<Rightarrow> bytes \<Rightarrow> nat \<Rightarrow> write_guard \<Rightarrow> unit result \<times> write_guard" where
  "wg_enforce v key value_len g =
     (let (r, s) = enforce_for_write v key value_len (g_engine g) in (r, g\<lparr>g_engine := s\<rparr>))"

definition wg_put :: "bytes \<Rightarrow> value_entry \<Rightarrow> write_guard \<Rightarrow> write_guard" where
  "wg_put key entry g = wg_do (\<lambda>s. snd (track_insert key entry s)) g"

definition prev_payload :: "env \<Rightarrow> bytes \<Rightarrow> write_guard \<Rightarrow> bytes option" where
  "prev_payload v key g =
     (case wg_lookup key g of None \<Rightarrow> None | Some e \<Rightarrow> live_payload v e)"

definition wg_insert :: "env \<Rightarrow> bytes \<Rightarrow> bytes \<Rightarrow> write_guard \<Rightarrow> bytes option result \<times> write_guard" where
  "wg_insert v key val g =
     (case validate_key key of Inl e \<Rightarrow> (Err e, g) | Inr _ \<Rightarrow>
      case validate_value val of Inl e \<Rightarrow> (Err e, g) | Inr _ \<Rightarrow>
      case wg_enforce v key (length val) g of
        (Inl e, g) \<Rightarrow> (Err e, g)
      | (Inr _, g) \<Rightarrow>
          let g = wg_log (append_set key val) g
          in (Ok (prev_payload v key g), wg_put key (entry_new v val) g))"

definition wg_insert_nx :: "env \<Rightarrow> bytes \<Rightarrow> bytes \<Rightarrow> write_guard \<Rightarrow> bool result \<times> write_guard" where
  "wg_insert_nx v key val g =
     (case validate_key key of Inl e \<Rightarrow> (Err e, g) | Inr _ \<Rightarrow>
      case validate_value val of Inl e \<Rightarrow> (Err e, g) | Inr _ \<Rightarrow>
      let live = (case wg_lookup key g of Some e \<Rightarrow> \<not> is_expired e (now v) | None \<Rightarrow> False) in
      if live then (Ok False, g)
      else
        let g = (case wg_lookup key g of
                   Some _ \<Rightarrow> wg_do (\<lambda>s. snd (track_remove key s)) g | None \<Rightarrow> g) in
        case wg_enforce v key (length val) g of
          (Inl e, g) \<Rightarrow> (Err e, g)
        | (Inr _, g) \<Rightarrow>
            let g = wg_log (append_set key val) g
            in (Ok True, wg_put key (entry_new v val) g))"

fun validate_pairs :: "(bytes \<times> bytes) list \<Rightarrow> unit result" where
  "validate_pairs [] = Ok ()"
| "validate_pairs ((k, val) # ps) =
     (case validate_key k of Inl e \<Rightarrow> Err e | Inr _ \<Rightarrow>
      case validate_value val of Inl e \<Rightarrow> Err e | Inr _ \<Rightarrow> validate_pairs ps)"

fun enforce_pairs :: "env \<Rightarrow> (bytes \<times> bytes) list \<Rightarrow> write_guard \<Rightarrow> unit result \<times> write_guard" where
  "enforce_pairs v [] g = (Ok (), g)"
| "enforce_pairs v ((k, val) # ps) g =
     (case wg_enforce v k (length val) g of
        (Inl e, g) \<Rightarrow> (Err e, g) | (Inr _, g) \<Rightarrow> enforce_pairs v ps g)"

fun put_pairs :: "env \<Rightarrow> (bytes \<times> bytes) list \<Rightarrow> write_guard \<Rightarrow> write_guard" where
  "put_pairs v [] g = g"
| "put_pairs v ((k, val) # ps) g = put_pairs v ps (wg_put k (entry_new v val) g)"

definition wg_insert_many ::
  "env \<Rightarrow> (bytes \<times> bytes) list \<Rightarrow> write_guard \<Rightarrow> unit result \<times> write_guard" where
  "wg_insert_many v pairs g =
     (case validate_pairs pairs of Inl e \<Rightarrow> (Err e, g) | Inr _ \<Rightarrow>
      case enforce_pairs v pairs g of
        (Inl e, g) \<Rightarrow> (Err e, g)
      | (Inr _, g) \<Rightarrow> (Ok (), put_pairs v pairs (wg_log (append_set_many pairs) g)))"

definition wg_insert_keep_ttl ::
  "env \<Rightarrow> bytes \<Rightarrow> bytes \<Rightarrow> instant option \<Rightarrow> write_guard \<Rightarrow> bytes option result \<times> write_guard" where
  "wg_insert_keep_ttl v key val keep_ttl g =
     (case wg_enforce v key (length val) g of
        (Inl e, g) \<Rightarrow> (Err e, g)
      | (Inr _, g) \<Rightarrow>
          let g = wg_log (append_set key val) g;
              g = (case keep_ttl of
                     None \<Rightarrow> g
                   | Some deadline \<Rightarrow>
                       (case deadline_to_epoch_ms deadline (now v) (now_ms v) of
                          None \<Rightarrow> g
                        | Some abs_ms \<Rightarrow> wg_log (append_pexpireat key abs_ms) g))
          in (Ok (prev_payload v key g), wg_put key (entry_new_with v val keep_ttl) g))"

section \<open>Removal and expiry\<close>

definition wg_remove :: "env \<Rightarrow> bytes \<Rightarrow> write_guard \<Rightarrow> bool \<times> write_guard" where
  "wg_remove v key g =
     (let existed = (case wg_lookup key g of Some e \<Rightarrow> \<not> is_expired e (now v) | None \<Rightarrow> False);
          g = wg_do (\<lambda>s. snd (track_remove key s)) g
      in (existed, if existed then wg_log (append_del key) g else g))"

fun remove_keys :: "env \<Rightarrow> bytes list \<Rightarrow> write_guard \<Rightarrow> bytes list \<times> write_guard" where
  "remove_keys v [] g = ([], g)"
| "remove_keys v (key # keys) g =
     (let live = (case wg_lookup key g of Some e \<Rightarrow> \<not> is_expired e (now v) | None \<Rightarrow> False);
          (removed, g') = remove_keys v keys (wg_do (\<lambda>s. snd (track_remove key s)) g)
      in (if live then key # removed else removed, g'))"

fun log_dels :: "bytes list \<Rightarrow> write_guard \<Rightarrow> write_guard" where
  "log_dels [] g = g"
| "log_dels (key # keys) g = log_dels keys (wg_log (append_del key) g)"

definition wg_remove_many :: "env \<Rightarrow> bytes list \<Rightarrow> write_guard \<Rightarrow> nat \<times> write_guard" where
  "wg_remove_many v keys g =
     (let (removed, g) = remove_keys v keys g in (length removed, log_dels removed g))"

definition wg_expire_at :: "env \<Rightarrow> bytes \<Rightarrow> int \<Rightarrow> write_guard \<Rightarrow> bool \<times> write_guard" where
  "wg_expire_at v key abs_epoch_ms g =
     (let g = (case wg_lookup key g of
                 Some e \<Rightarrow> if is_expired e (now v) then wg_expire_drop key g else g
               | None \<Rightarrow> g)
      in case wg_lookup key g of
           None \<Rightarrow> (False, g)
         | Some entry \<Rightarrow>
             if abs_epoch_ms \<le> now_ms v then
               (True, wg_log (append_del key) (wg_do (\<lambda>s. snd (track_remove key s)) g))
             else
               let deadline = now v + nat (abs_epoch_ms - now_ms v) * 1000000;
                   g = wg_do (\<lambda>s. s\<lparr>e_store := AList.update key (entry\<lparr>expire_at := Some deadline\<rparr>)
                                                  (e_store s)\<rparr>) g;
                   g = wg_do (\<lambda>s. ac_notify_insert key True (sieve_notify_insert key True s)) g
               in (True, wg_log (append_pexpireat key abs_epoch_ms) g))"

definition wg_persist :: "env \<Rightarrow> bytes \<Rightarrow> write_guard \<Rightarrow> bool \<times> write_guard" where
  "wg_persist v key g =
     (case wg_lookup key g of
        None \<Rightarrow> (False, g)
      | Some entry \<Rightarrow>
          if is_expired entry (now v) then (False, wg_expire_drop key g)
          else if expire_at entry = None then (False, g)
          else
            let g = wg_do (\<lambda>s. s\<lparr>e_store := AList.update key (entry\<lparr>expire_at := None\<rparr>)
                                               (e_store s)\<rparr>) g;
                g = wg_do (\<lambda>s. ac_notify_remove key (sieve_notify_remove key s)) g
            in (True, wg_log (append_persist key) g))"

definition wg_clear :: "write_guard \<Rightarrow> write_guard" where
  "wg_clear g = wg_log append_flushdb (wg_do track_clear g)"

section \<open>Library lemmas\<close>

lemma wg_simps [simp]:
  "g_engine (wg_begin s) = s" "g_engine (wg_do f g) = f (g_engine g)"
  by (simp_all add: wg_begin_def wg_do_def)

lemma wg_log_engine: "g_engine (wg_log f g) = aof_note f (g_engine g)"
  by (auto simp: wg_log_def aof_note_def split: option.splits)

lemma wg_log_simps [simp]:
  "e_store (g_engine (wg_log f g)) = e_store (g_engine g)"
  "e_eviction (g_engine (wg_log f g)) = e_eviction (g_engine g)"
  "e_used_memory (g_engine (wg_log f g)) = e_used_memory (g_engine g)"
  "engine_inv (g_engine g) \<Longrightarrow> engine_inv (g_engine (wg_log f g))"
  "index_covers (g_engine (wg_log f g)) = index_covers (g_engine g)"
  by (simp_all add: wg_log_engine)

lemma wg_drop_simps [simp]:
  "e_store (wg_drop g) = e_store (g_engine g)"
  "e_eviction (wg_drop g) = e_eviction (g_engine g)"
  "e_used_memory (wg_drop g) = e_used_memory (g_engine g)"
  "engine_inv (g_engine g) \<Longrightarrow> engine_inv (wg_drop g)"
  "index_covers (wg_drop g) = index_covers (g_engine g)"
  by (simp_all add: wg_drop_def)

lemma wg_expire_drop_simps [simp]:
  "e_store (g_engine (wg_expire_drop k g)) = AList.delete k (e_store (g_engine g))"
  "e_eviction (g_engine (wg_expire_drop k g)) = e_eviction (g_engine g)"
  "engine_inv (g_engine g) \<Longrightarrow> engine_inv (g_engine (wg_expire_drop k g))"
  by (simp_all add: wg_expire_drop_def)

lemma index_covers_record [simp]:
  "index_covers (record_hit s) = index_covers s" "index_covers (record_miss s) = index_covers s"
  "index_covers (log_expire_drop k s) = index_covers s"
  by (simp_all add: index_covers_def record_hit_def record_miss_def log_expire_drop_def)

lemma track_remove_covers' [simp]: "index_covers s \<Longrightarrow> index_covers (snd (track_remove k s))"
  by (rule track_remove_covers [of None]) (simp_all add: index_covers_eq)

lemma wg_put_simps [simp]:
  "e_store (g_engine (wg_put k e g)) = AList.update k e (e_store (g_engine g))"
  "e_eviction (g_engine (wg_put k e g)) = e_eviction (g_engine g)"
  by (simp_all add: wg_put_def)

lemma wg_enforce_cases:
  assumes "engine_inv (g_engine g)" "wg_enforce v k n g = (r, g')"
  shows "engine_inv (g_engine g')" "map_of (e_store (g_engine g')) \<subseteq>\<^sub>m map_of (e_store (g_engine g))"
    "e_eviction (g_engine g') = e_eviction (g_engine g)"
    "index_covers (g_engine g) \<Longrightarrow> index_covers (g_engine g')"
  using assms enforce_inv [OF assms(1)] enforce_covers [OF assms(1)]
  by (auto simp: wg_enforce_def enforce_for_write_def Let_def case_prod_unfold) (metis prod.collapse)+

lemma wg_enforce_unlimited:
  "max_memory (e_eviction (g_engine g)) = 0 \<Longrightarrow> wg_enforce v k n g = (Ok (), g)"
  by (simp add: wg_enforce_def enforce_for_write_def Let_def enforce_unlimited)

end
