(* ===== verification/Glob.thy ===== *)
theory Glob
  imports Prelude
begin

text \<open>
  Models \<^verbatim>\<open>KvEngine::glob_match\<close> of \<^verbatim>\<open>src/src/storage/engine/mod.rs\<close>: Redis-style patterns with
  \<^verbatim>\<open>*\<close>, \<^verbatim>\<open>?\<close>, classes and escapes. The two cursors of the code are the remaining suffixes of the
  pattern and of the text; every recursive call has a shorter pattern, which is the termination
  measure. The lemmas characterise the three shapes the key browser sends: a literal, a literal
  prefix followed by a star, and an escaped text.
\<close>

section \<open>Matching\<close>

text \<open>The class loop after the opening bracket: whether the byte matched, and the pattern after the
  closing bracket, if there is one.\<close>

fun glob_class :: "byte \<Rightarrow> bytes \<Rightarrow> bool \<Rightarrow> bool \<times> bytes option" where
  "glob_class c [] matched = (matched, None)"
| "glob_class c (x # xs) matched =
     (if x = CHR '']'' then (matched, Some xs)
      else if x = CHR 0x5C \<and> xs \<noteq> [] then glob_class c (tl xs) (matched \<or> c = hd xs)
      else case xs of
        y # z # zs \<Rightarrow>
          if y = CHR ''-'' \<and> z \<noteq> CHR '']'' then
            let lo = of_char x :: nat; hi = of_char z; b = of_char c
            in glob_class c zs (matched \<or> (lo \<le> hi \<and> lo \<le> b \<and> b \<le> hi) \<or> (lo > hi \<and> (b \<ge> lo \<or> b \<le> hi)))
          else glob_class c xs (matched \<or> c = x)
      | _ \<Rightarrow> glob_class c xs (matched \<or> c = x))"

fun suffix_list :: "'a list \<Rightarrow> 'a list list" where
  "suffix_list [] = [[]]"
| "suffix_list (x # xs) = (x # xs) # suffix_list xs"

lemma glob_class_shorter:
  "glob_class c xs m = (b, Some r) \<Longrightarrow> length r < length xs"
proof (induction c xs m rule: glob_class.induct)
  case (2 c x xs m)
  show ?case
  proof (cases "x = CHR '']''")
    case True
    then show ?thesis using 2 by simp
  next
    case nb: False
    show ?thesis
    proof (cases "x = CHR 0x5C \<and> xs \<noteq> []")
      case True
      then have "length r < length (tl xs)" using 2 nb by simp
      then show ?thesis by (cases xs) auto
    next
      case False
      consider (short) "\<And>y z zs. xs \<noteq> y # z # zs" | (long) y z zs where "xs = y # z # zs"
        by blast
      then show ?thesis
      proof cases
        case short
        then have "glob_class c (x # xs) m = glob_class c xs (m \<or> c = x)"
          using nb False by (auto split: list.splits)
        then show ?thesis using nb False short 2 by (cases xs; cases "tl xs") auto
      next
        case (long y z zs)
        show ?thesis
        proof (cases "y = CHR ''-'' \<and> z \<noteq> CHR '']''")
          case True
          then have "length r < length zs" using nb False long 2 by (simp add: Let_def)
          then show ?thesis using long by simp
        next
          case f: False
          then have "length r < length xs" using nb False long 2 by auto
          then show ?thesis by simp
        qed
      qed
    qed
  qed
qed simp

function glob_match :: "bytes \<Rightarrow> bytes \<Rightarrow> bool" where
  "glob_match [] txt = (txt = [])"
| "glob_match (p # pat) txt =
     (if p = CHR ''*'' then
        (let rest = dropWhile (\<lambda>x. x = CHR ''*'') pat in
         if rest = [] then True else list_ex (\<lambda>u. glob_match rest u) (suffix_list txt))
      else if p = CHR ''?'' then
        (case txt of [] \<Rightarrow> False | t # ts \<Rightarrow> glob_match pat ts)
      else if p = CHR 0x5C then
        (let pc = (case pat of q # _ \<Rightarrow> q | [] \<Rightarrow> p) in
         case txt of [] \<Rightarrow> False
         | t # ts \<Rightarrow> if t \<noteq> pc then False else glob_match (drop 1 pat) ts)
      else if p = CHR ''['' then
        (case txt of [] \<Rightarrow> False
         | t # ts \<Rightarrow>
             let negate = (case pat of q # _ \<Rightarrow> q = CHR ''!'' | [] \<Rightarrow> False);
                 (matched, aft) = glob_class t (if negate then drop 1 pat else pat) False
             in case aft of
                  None \<Rightarrow> if t \<noteq> CHR ''['' then False else glob_match pat ts
                | Some rest \<Rightarrow> if matched = negate then False else glob_match rest ts)
      else
        (case txt of [] \<Rightarrow> False | t # ts \<Rightarrow> if t \<noteq> p then False else glob_match pat ts))"
  by pat_completeness auto
termination
proof (relation "measure (\<lambda>(pat, txt). length pat)", goal_cases)
  case (2 p pat t rest u)
  then show ?case using length_dropWhile_le [of "\<lambda>x. x = CHR ''*''" pat] by simp
next
  case (6 p pat t0 t ts negate cl matched aft rest)
  then have "length rest < length (if negate then drop 1 pat else pat)"
    using glob_class_shorter by metis
  then show ?case by (auto split: if_splits)
qed auto

declare glob_match.simps [simp del]

section \<open>Characterisations\<close>

definition literal :: "byte \<Rightarrow> bool" where
  "literal c \<longleftrightarrow> c \<notin> {CHR ''*'', CHR ''?'', CHR 0x5C, CHR ''[''}"

lemma set_suffix_list: "set (suffix_list t) = {u. \<exists>w. t = w @ u}"
  by (induction t) (auto simp: Cons_eq_append_conv)

lemma glob_match_Nil [simp]: "glob_match [] t \<longleftrightarrow> t = []"
  by (simp add: glob_match.simps)

lemma glob_match_star [simp]: "glob_match [CHR ''*''] t"
  by (simp add: glob_match.simps)

lemma glob_match_literal_Cons:
  "literal p \<Longrightarrow> glob_match (p # pat) t \<longleftrightarrow> (\<exists>ts. t = p # ts \<and> glob_match pat ts)"
  by (auto simp: glob_match.simps(2) literal_def split: list.splits)

lemma glob_match_literal_append:
  "\<forall>c\<in>set lit. literal c \<Longrightarrow> glob_match (lit @ pat) t \<longleftrightarrow> (\<exists>ts. t = lit @ ts \<and> glob_match pat ts)"
  by (induction lit arbitrary: t) (auto simp: glob_match_literal_Cons)

text \<open>A star stands for any sequence, whatever follows it.\<close>

lemma glob_match_star_Cons:
  "glob_match (CHR ''*'' # pat) t \<longleftrightarrow> (\<exists>w u. t = w @ u \<and> glob_match (dropWhile (\<lambda>x. x = CHR ''*'') pat) u)
     \<or> (\<forall>x\<in>set pat. x = CHR ''*'')"
  by (auto simp: glob_match.simps(2) Let_def list_ex_iff set_suffix_list)

definition glob_escape :: "bytes \<Rightarrow> bytes" where
  "glob_escape t = concat (map (\<lambda>c. [CHR 0x5C, c]) t)"

lemma glob_match_escape: "glob_match (glob_escape lit) t \<longleftrightarrow> t = lit"
  by (induction lit arbitrary: t) (auto simp: glob_escape_def glob_match.simps(2) Let_def split: list.splits)

end
