(* ===== verification/Commands.thy ===== *)
theory Commands
  imports WriteGuard Glob
begin

text \<open>
  Models the public command API of \<^verbatim>\<open>KvEngine\<close> (\<^verbatim>\<open>src/src/storage/engine/mod.rs\<close>), the active
  expiry round of \<^verbatim>\<open>src/src/storage/expire.rs\<close> and the AOF rewrite worker. A command that first
  looks under the shared lock and only then takes the exclusive lock has one environment for each
  of the two critical sections; it is modelled run without another command in between.

  \<^verbatim>\<open>f64\<close> values occur in \<^verbatim>\<open>incr_by_float\<close> only: their parser, printer, addition and finiteness test
  are the record \<open>f64_ops\<close>, an argument of that operation.
\<close>

section \<open>Writing commands\<close>

definition kv_set :: "env \<Rightarrow> bytes \<Rightarrow> bytes \<Rightarrow> engine \<Rightarrow> bytes option result \<times> engine" where
  "kv_set v key val s = (let (r, g) = wg_insert v key val (wg_begin s) in (r, wg_drop g))"

definition kv_set_nx :: "env \<Rightarrow> bytes \<Rightarrow> bytes \<Rightarrow> engine \<Rightarrow> bool result \<times> engine" where
  "kv_set_nx v key val s = (let (r, g) = wg_insert_nx v key val (wg_begin s) in (r, wg_drop g))"

definition kv_mset :: "env \<Rightarrow> (bytes \<times> bytes) list \<Rightarrow> engine \<Rightarrow> unit result \<times> engine" where
  "kv_mset v pairs s = (let (r, g) = wg_insert_many v pairs (wg_begin s) in (r, wg_drop g))"

definition not_integer :: ferrum_error where
  "not_integer = ParseError ''value is not an integer or out of range''"

definition kv_incr_by :: "env \<Rightarrow> bytes \<Rightarrow> int \<Rightarrow> engine \<Rightarrow> int result \<times> engine" where
  "kv_incr_by v key delta s =
     (case validate_key key of Inl e \<Rightarrow> (Err e, s) | Inr _ \<Rightarrow>
      let (st, g) = wg_read_state v key (wg_begin s) in
      case (case st of
              Some (d, ttl) \<Rightarrow> (case parse_i64 d of None \<Rightarrow> None | Some n \<Rightarrow> Some (n, ttl))
            | None \<Rightarrow> Some (0, None)) of
        None \<Rightarrow> (Err not_integer, wg_drop g)
      | Some (current, ttl) \<Rightarrow>
          (case checked_i64 (current + delta) of
             None \<Rightarrow> (Err not_integer, wg_drop g)
           | Some new_value \<Rightarrow>
               (case wg_insert_keep_ttl v key (show_int new_value) ttl g of
                  (Inl e, g) \<Rightarrow> (Err e, wg_drop g)
                | (Inr _, g) \<Rightarrow> (Ok new_value, wg_drop g))))"

record 'f f64_ops =
  f_parse :: "bytes \<Rightarrow> 'f option"
  f_zero :: 'f
  f_add :: "'f \<Rightarrow> 'f \<Rightarrow> 'f"
  f_is_finite :: "'f \<Rightarrow> bool"
  f_show :: "'f \<Rightarrow> bytes"

definition kv_incr_by_float ::
  "'f f64_ops \<Rightarrow> env \<Rightarrow> bytes \<Rightarrow> 'f \<Rightarrow> engine \<Rightarrow> 'f result \<times> engine" where
  "kv_incr_by_float fo v key delta s =
     (case validate_key key of Inl e \<Rightarrow> (Err e, s) | Inr _ \<Rightarrow>
      let (st, g) = wg_read_state v key (wg_begin s) in
      case (case st of
              Some (d, ttl) \<Rightarrow> (case f_parse fo d of None \<Rightarrow> None | Some n \<Rightarrow> Some (n, ttl))
            | None \<Rightarrow> Some (f_zero fo, None)) of
        None \<Rightarrow> (Err (ParseError ''value is not a valid float''), wg_drop g)
      | Some (current, ttl) \<Rightarrow>
          let new_value = f_add fo current delta in
          if \<not> f_is_finite fo new_value
          then (Err (ParseError ''increment would produce NaN or Infinity''), wg_drop g)
          else (case wg_insert_keep_ttl v key (f_show fo new_value) ttl g of
                  (Inl e, g) \<Rightarrow> (Err e, wg_drop g)
                | (Inr _, g) \<Rightarrow> (Ok new_value, wg_drop g)))"

definition kv_append :: "env \<Rightarrow> bytes \<Rightarrow> bytes \<Rightarrow> engine \<Rightarrow> nat result \<times> engine" where
  "kv_append v key sfx s =
     (case validate_key key of Inl e \<Rightarrow> (Err e, s) | Inr _ \<Rightarrow>
      let (st, g) = wg_read_state v key (wg_begin s);
          (new_value, ttl) = (case st of Some (d, ttl) \<Rightarrow> (d @ sfx, ttl) | None \<Rightarrow> (sfx, None))
      in case validate_value new_value of Inl e \<Rightarrow> (Err e, wg_drop g) | Inr _ \<Rightarrow>
         (case wg_insert_keep_ttl v key new_value ttl g of
            (Inl e, g) \<Rightarrow> (Err e, wg_drop g)
          | (Inr _, g) \<Rightarrow> (Ok (length new_value), wg_drop g)))"

definition kv_del :: "env \<Rightarrow> bytes \<Rightarrow> engine \<Rightarrow> bool \<times> engine" where
  "kv_del v key s = (let (r, g) = wg_remove v key (wg_begin s) in (r, wg_drop g))"

definition kv_del_many :: "env \<Rightarrow> bytes list \<Rightarrow> engine \<Rightarrow> nat \<times> engine" where
  "kv_del_many v keys s =
     (if keys = [] then (0, s)
      else let (r, g) = wg_remove_many v keys (wg_begin s) in (r, wg_drop g))"

definition kv_flushdb :: "engine \<Rightarrow> engine" where
  "kv_flushdb s = wg_drop (wg_clear (wg_begin s))"

definition kv_expire_at_ms :: "env \<Rightarrow> bytes \<Rightarrow> int \<Rightarrow> engine \<Rightarrow> bool \<times> engine" where
  "kv_expire_at_ms v key abs_epoch_ms s =
     (let (r, g) = wg_expire_at v key abs_epoch_ms (wg_begin s) in (r, wg_drop g))"

definition kv_persist :: "env \<Rightarrow> bytes \<Rightarrow> engine \<Rightarrow> bool \<times> engine" where
  "kv_persist v key s = (let (r, g) = wg_persist v key (wg_begin s) in (r, wg_drop g))"

section \<open>Reading commands\<close>

text \<open>What the shared-lock section of a read finds.\<close>

datatype probe = Live value_entry | Stale | Absent

definition peek :: "env \<Rightarrow> bytes \<Rightarrow> engine \<Rightarrow> probe" where
  "peek v key s =
     (case map_of (e_store s) key of
        Some entry \<Rightarrow> if is_expired entry (now v) then Stale else Live entry
      | None \<Rightarrow> Absent)"

definition kv_get :: "env \<Rightarrow> env \<Rightarrow> bytes \<Rightarrow> engine \<Rightarrow> bytes option \<times> engine" where
  "kv_get v v2 key s =
     (case peek v key s of
        Live entry \<Rightarrow> (Some (data entry), record_hit (touch_access v key s))
      | Absent \<Rightarrow> (None, record_miss s)
      | Stale \<Rightarrow> (let (r, g) = wg_fetch_live v2 key (wg_begin s) in (r, wg_drop g)))"

text \<open>The first pass of \<^verbatim>\<open>mget\<close>: the values, and the keys found expired.\<close>

fun mget_scan :: "env \<Rightarrow> bytes list \<Rightarrow> engine \<Rightarrow> (bytes option list \<times> bytes list) \<times> engine" where
  "mget_scan v [] s = (([], []), s)"
| "mget_scan v (key # keys) s =
     (case peek v key s of
        Live entry \<Rightarrow>
          (let ((out, ex), s') = mget_scan v keys (record_hit (touch_access v key s))
           in ((Some (data entry) # out, ex), s'))
      | Stale \<Rightarrow> (let ((out, ex), s') = mget_scan v keys s in ((None # out, key # ex), s'))
      | Absent \<Rightarrow> (let ((out, ex), s') = mget_scan v keys (record_miss s) in ((None # out, ex), s')))"

fun fetch_all :: "env \<Rightarrow> bytes list \<Rightarrow> write_guard \<Rightarrow> write_guard" where
  "fetch_all v [] g = g"
| "fetch_all v (key # keys) g = fetch_all v keys (snd (wg_fetch_live v key g))"

definition kv_mget :: "env \<Rightarrow> env \<Rightarrow> bytes list \<Rightarrow> engine \<Rightarrow> bytes option list \<times> engine" where
  "kv_mget v v2 keys s =
     (let ((out, expired), s) = mget_scan v keys s
      in (out, if expired = [] then s else wg_drop (fetch_all v2 expired (wg_begin s))))"

definition kv_exists :: "env \<Rightarrow> env \<Rightarrow> bytes \<Rightarrow> engine \<Rightarrow> bool \<times> engine" where
  "kv_exists v v2 key s =
     (case peek v key s of
        Live _ \<Rightarrow> (True, record_hit s)
      | Absent \<Rightarrow> (False, record_miss s)
      | Stale \<Rightarrow> (let (r, g) = wg_contains_live v2 key (wg_begin s) in (r, wg_drop g)))"

fun exists_scan :: "env \<Rightarrow> bytes list \<Rightarrow> engine \<Rightarrow> (nat \<times> bytes list) \<times> engine" where
  "exists_scan v [] s = ((0, []), s)"
| "exists_scan v (key # keys) s =
     (case peek v key s of
        Live _ \<Rightarrow> (let ((n, ex), s') = exists_scan v keys (record_hit s) in ((n + 1, ex), s'))
      | Stale \<Rightarrow> (let ((n, ex), s') = exists_scan v keys s in ((n, key # ex), s'))
      | Absent \<Rightarrow> (let ((n, ex), s') = exists_scan v keys (record_miss s) in ((n, ex), s')))"

fun contains_all :: "env \<Rightarrow> bytes list \<Rightarrow> nat \<Rightarrow> write_guard \<Rightarrow> nat \<times> write_guard" where
  "contains_all v [] n g = (n, g)"
| "contains_all v (key # keys) n g =
     (let (b, g) = wg_contains_live v key g in contains_all v keys (if b then n + 1 else n) g)"

definition kv_exists_many :: "env \<Rightarrow> env \<Rightarrow> bytes list \<Rightarrow> engine \<Rightarrow> nat \<times> engine" where
  "kv_exists_many v v2 keys s =
     (if keys = [] then (0, s)
      else let ((n, expired), s) = exists_scan v keys s in
      if expired = [] then (n, s)
      else let (n, g) = contains_all v2 expired n (wg_begin s) in (n, wg_drop g))"

definition kv_dbsize :: "env \<Rightarrow> engine \<Rightarrow> nat" where
  "kv_dbsize v s = length (filter (\<lambda>(k, e). \<not> is_expired e (now v)) (e_store s))"

definition SCAN_KEYS_LIMIT :: nat where "SCAN_KEYS_LIMIT = 10000"

definition kv_scan_keys :: "env \<Rightarrow> bytes \<Rightarrow> engine \<Rightarrow> bytes list" where
  "kv_scan_keys v pattern s =
     take SCAN_KEYS_LIMIT
       (map fst (filter (\<lambda>(k, e). \<not> is_expired e (now v) \<and> glob_match pattern k) (e_store s)))"

fun expire_sum :: "instant \<Rightarrow> store \<Rightarrow> nat \<Rightarrow> nat \<Rightarrow> nat \<times> nat" where
  "expire_sum t [] cnt sum_ms = (cnt, sum_ms)"
| "expire_sum t ((k, e) # st) cnt sum_ms =
     (case expire_at e of
        Some deadline \<Rightarrow>
          if is_expired e t then expire_sum t st cnt sum_ms
          else expire_sum t st (cnt + 1) (sat_add_u64 sum_ms ((deadline - t) div 1000000))
      | None \<Rightarrow> expire_sum t st cnt sum_ms)"

definition kv_expire_stats :: "env \<Rightarrow> engine \<Rightarrow> nat \<times> nat" where
  "kv_expire_stats v s =
     (let (cnt, sum_ms) = expire_sum (now v) (e_store s) 0 0
      in (cnt, if cnt = 0 then 0 else sum_ms div cnt))"

definition kv_strlen :: "env \<Rightarrow> env \<Rightarrow> bytes \<Rightarrow> engine \<Rightarrow> nat \<times> engine" where
  "kv_strlen v v2 key s =
     (case peek v key s of
        Live entry \<Rightarrow> (length (data entry), s)
      | Absent \<Rightarrow> (0, s)
      | Stale \<Rightarrow> (let (r, g) = wg_strlen_of v2 key (wg_begin s) in (r, wg_drop g)))"

definition kv_ttl_ms :: "env \<Rightarrow> env \<Rightarrow> bytes \<Rightarrow> engine \<Rightarrow> ttl_status \<times> engine" where
  "kv_ttl_ms v v2 key s =
     (case peek v key s of
        Live entry \<Rightarrow>
          (case expire_at entry of
             None \<Rightarrow> NoExpire
           | Some deadline \<Rightarrow> Millis (int ((deadline - now v) div 1000000)), s)
      | Absent \<Rightarrow> (Missing, s)
      | Stale \<Rightarrow> (let (r, g) = wg_ttl_of v2 key (wg_begin s) in (r, wg_drop g)))"

definition kv_memory_usage :: "env \<Rightarrow> env \<Rightarrow> bytes \<Rightarrow> engine \<Rightarrow> nat option \<times> engine" where
  "kv_memory_usage v v2 key s =
     (case peek v key s of
        Live entry \<Rightarrow> (Some (entry_bytes key entry), s)
      | Absent \<Rightarrow> (None, s)
      | Stale \<Rightarrow> (let (r, g) = wg_memory_of v2 key (wg_begin s) in (r, wg_drop g)))"

section \<open>Active expiry\<close>

fun drop_victims :: "bytes list \<Rightarrow> engine \<Rightarrow> engine" where
  "drop_victims [] s = s"
| "drop_victims (key # keys) s =
     (let s = snd (track_remove key s);
          s = s\<lparr>e_expired_keys := wrap_u64 (e_expired_keys s + 1)\<rparr>
      in drop_victims keys (aof_note (append_del key) s))"

definition sweep_window :: "nat \<Rightarrow> engine \<Rightarrow> store" where
  "sweep_window sample s =
     (let len = length (e_store s);
          start = (if len = 0 then 0 else e_sweep_cursor s mod len)
      in take sample (drop start (e_store s) @ take start (e_store s)))"

definition kv_sweep_expired :: "env \<Rightarrow> nat \<Rightarrow> engine \<Rightarrow> sweep_stats \<times> engine" where
  "kv_sweep_expired v sample s =
     (if sample = 0 then (\<lparr>examined = 0, evicted = 0\<rparr>, s)
      else
        let len = length (e_store s);
            start = (if len = 0 then 0 else e_sweep_cursor s mod len);
            window = sweep_window sample s;
            n = length window;
            victims = map fst (filter (\<lambda>(k, e). is_expired e (now v)) window);
            s = (if len > 0 then s\<lparr>e_sweep_cursor := wrap_u64 (start + n) mod len\<rparr> else s)
        in (\<lparr>examined = n, evicted = length victims\<rparr>, drop_victims victims s))"

text \<open>One tick of the sweeper thread: at most sixteen rounds.\<close>

fun sweep_rounds :: "nat \<Rightarrow> (nat \<Rightarrow> env) \<Rightarrow> nat \<Rightarrow> engine \<Rightarrow> engine" where
  "sweep_rounds 0 vs sample s = s"
| "sweep_rounds (Suc n) vs sample s =
     (let (stats, s) = kv_sweep_expired (vs n) sample s
      in if should_continue stats then sweep_rounds n vs sample s else s)"

definition sweep_tick :: "(nat \<Rightarrow> env) \<Rightarrow> nat \<Rightarrow> engine \<Rightarrow> engine" where
  "sweep_tick vs sample s = sweep_rounds 16 vs sample s"

section \<open>AOF rewrite\<close>

definition kv_rewrite_aof :: "bool \<Rightarrow> engine \<Rightarrow> unit result \<times> engine" where
  "kv_rewrite_aof spawned s =
     (case e_aof s of
        None \<Rightarrow> (Err AofNotEnabled, s)
      | Some w \<Rightarrow>
          let (claimed, w) = try_begin_rewrite w in
          if \<not> claimed then (Ok (), s)
          else if spawned then (Ok (), s\<lparr>e_aof := Some w\<rparr>)
          else (Err (Internal ''failed to spawn aof rewrite thread''),
                s\<lparr>e_aof := Some (abort_rewrite w)\<rparr>))"

definition rewrite_snapshot :: "env \<Rightarrow> store \<Rightarrow> (bytes \<times> bytes \<times> int option) list" where
  "rewrite_snapshot v st =
     map (\<lambda>(k, e). (k, data e,
            case expire_at e of None \<Rightarrow> None
            | Some d \<Rightarrow> deadline_to_epoch_ms d (now v) (now_ms v)))
       (filter (\<lambda>(k, e). \<not> is_expired e (now v)) st)"

definition serialise_entry :: "bytes \<times> bytes \<times> int option \<Rightarrow> bytes" where
  "serialise_entry = (\<lambda>(k, val, ttl). encode_command [''SET'', k, val] @
     (case ttl of None \<Rightarrow> []
      | Some abs_ms \<Rightarrow> encode_command [''PEXPIREAT'', k, show_int abs_ms]))"

definition serialise_compact_aof :: "(bytes \<times> bytes \<times> int option) list \<Rightarrow> bytes" where
  "serialise_compact_aof snapshot = concat (map serialise_entry snapshot)"

text \<open>The worker: the keyspace read under the shared lock, then the temporary file, whose creation
  may fail, then the swap. The writer it is given is the one at the time the swap starts.\<close>

definition perform_aof_rewrite :: "env \<Rightarrow> bool \<Rightarrow> store \<Rightarrow> aof_writer \<Rightarrow> aof_writer" where
  "perform_aof_rewrite v temp_ok st w =
     (let snapshot = rewrite_snapshot v st in
      if \<not> w_rewriting w then w
      else if \<not> temp_ok then abort_rewrite w
      else snd (finish_rewrite (serialise_compact_aof snapshot) w))"

end
