(* ===== verification/Keyspace.thy ===== *)
theory Keyspace
  imports Commands
begin

text \<open>
  The abstract contract of the engine: a partial map from keys to a value and an optional
  deadline, in which an expired key is simply absent. \<open>vw t st\<close> is the abstraction of a store at
  instant \<open>t\<close>, \<open>engine_op\<close> lists the commands of the engine API, \<open>run_op\<close> runs one on the
  concrete engine and \<open>spec_step\<close> on the abstract map. The lemmas show that every command of an
  engine without a memory limit is the abstract step, replies included.
\<close>

section \<open>The abstract keyspace\<close>

type_synonym kmap = "bytes \<rightharpoonup> bytes \<times> instant option"

definition vw :: "instant \<Rightarrow> store \<Rightarrow> kmap" where
  "vw t st k = (case map_of st k of None \<Rightarrow> None
     | Some e \<Rightarrow> if is_expired e t then None else Some (data e, expire_at e))"

abbreviation view :: "instant \<Rightarrow> engine \<Rightarrow> kmap" where
  "view t s \<equiv> vw t (e_store s)"

text \<open>Time passing: the keys whose deadline is reached disappear.\<close>

definition expire_to :: "instant \<Rightarrow> kmap \<Rightarrow> kmap" where
  "expire_to t m k = (case m k of None \<Rightarrow> None
     | Some (d, ttl) \<Rightarrow> (case ttl of Some dl \<Rightarrow> if dl \<le> t then None else m k | None \<Rightarrow> m k))"

lemma expire_to_vw: "t \<le> t' \<Longrightarrow> expire_to t' (vw t st) = vw t' st"
  by (rule ext) (auto simp: expire_to_def vw_def is_expired_def split: option.splits)

lemma vw_update [simp]:
  "vw t (AList.update k e st) = (vw t st)(k := if is_expired e t then None else Some (data e, expire_at e))"
  by (rule ext) (simp add: vw_def)

lemma vw_delete [simp]: "vw t (AList.delete k st) = (vw t st)(k := None)"
  by (rule ext) (simp add: vw_def)

lemma vw_Nil [simp]: "vw t [] = Map.empty"
  by (rule ext) (simp add: vw_def)

lemma vw_delete_expired:
  "map_of st k = Some e \<Longrightarrow> is_expired e t \<Longrightarrow> vw t (AList.delete k st) = vw t st"
  by (rule ext) (simp add: vw_def)

lemma vw_touch [simp]: "view t (touch_access v k s) = view t s"
  by (rule ext) (auto simp: touch_access_store vw_def split: option.splits)

lemma vw_dom: "well_keyed st \<Longrightarrow> card (dom (vw t st)) = length (filter (\<lambda>(k, e). \<not> is_expired e t) st)"
proof -
  assume wk: "well_keyed st"
  let ?l = "filter (\<lambda>(k, e). \<not> is_expired e t) st"
  have "dom (vw t st) = set (keys_of ?l)"
    using wk by (force simp: vw_def split: option.splits if_splits)
  moreover have "distinct (keys_of ?l)" using wk by (simp add: distinct_map_filter)
  ultimately show ?thesis by (metis distinct_card length_map)
qed

section \<open>Commands and replies\<close>

datatype engine_op =
    OSet bytes bytes | OSetNx bytes bytes | OMset "(bytes \<times> bytes) list"
  | OIncrBy bytes int | OAppend bytes bytes
  | OGet bytes | OMget "bytes list" | OExists bytes | OExistsMany "bytes list"
  | OStrlen bytes | OTtl bytes | OMemoryUsage bytes | ODbsize
  | ODel bytes | ODelMany "bytes list" | OFlushdb
  | OExpireAt bytes int | OPersist bytes | OSweep nat

datatype reply =
    RErr ferrum_error | RUnit | RBool bool | RNat nat | RInt int
  | RBulk "bytes option" | RBulks "bytes option list" | RTtl ttl_status | RUsage "nat option"

definition reply_of :: "('a \<Rightarrow> reply) \<Rightarrow> 'a result \<times> engine \<Rightarrow> reply \<times> engine" where
  "reply_of f p = (case p of (Inl e, s) \<Rightarrow> (RErr e, s) | (Inr a, s) \<Rightarrow> (f a, s))"

fun run_op :: "env \<Rightarrow> env \<Rightarrow> engine_op \<Rightarrow> engine \<Rightarrow> reply \<times> engine" where
  "run_op v v2 (OSet k val) s = reply_of RBulk (kv_set v k val s)"
| "run_op v v2 (OSetNx k val) s = reply_of RBool (kv_set_nx v k val s)"
| "run_op v v2 (OMset ps) s = reply_of (\<lambda>_. RUnit) (kv_mset v ps s)"
| "run_op v v2 (OIncrBy k d) s = reply_of RInt (kv_incr_by v k d s)"
| "run_op v v2 (OAppend k x) s = reply_of RNat (kv_append v k x s)"
| "run_op v v2 (OGet k) s = map_prod RBulk id (kv_get v v2 k s)"
| "run_op v v2 (OMget ks) s = map_prod RBulks id (kv_mget v v2 ks s)"
| "run_op v v2 (OExists k) s = map_prod RBool id (kv_exists v v2 k s)"
| "run_op v v2 (OExistsMany ks) s = map_prod RNat id (kv_exists_many v v2 ks s)"
| "run_op v v2 (OStrlen k) s = map_prod RNat id (kv_strlen v v2 k s)"
| "run_op v v2 (OTtl k) s = map_prod RTtl id (kv_ttl_ms v v2 k s)"
| "run_op v v2 (OMemoryUsage k) s = map_prod RUsage id (kv_memory_usage v v2 k s)"
| "run_op v v2 ODbsize s = (RNat (kv_dbsize v s), s)"
| "run_op v v2 (ODel k) s = map_prod RBool id (kv_del v k s)"
| "run_op v v2 (ODelMany ks) s = map_prod RNat id (kv_del_many v ks s)"
| "run_op v v2 OFlushdb s = (RUnit, kv_flushdb s)"
| "run_op v v2 (OExpireAt k ms) s = map_prod RBool id (kv_expire_at_ms v k ms s)"
| "run_op v v2 (OPersist k) s = map_prod RBool id (kv_persist v k s)"
| "run_op v v2 (OSweep n) s = (RUnit, snd (kv_sweep_expired v n s))"

text \<open>The abstract step.\<close>

definition valid_pair :: "bytes \<Rightarrow> bytes \<Rightarrow> unit result" where
  "valid_pair k val = (case validate_key k of Inl e \<Rightarrow> Err e | Inr _ \<Rightarrow> validate_value val)"

fun live_count :: "bytes list \<Rightarrow> kmap \<Rightarrow> nat" where
  "live_count [] m = 0"
| "live_count (k # ks) m = (if m k = None then 0 else 1) + live_count ks (m(k := None))"

fun spec_step :: "env \<Rightarrow> engine_op \<Rightarrow> kmap \<Rightarrow> reply \<times> kmap" where
  "spec_step v (OSet k val) m =
     (case valid_pair k val of Inl e \<Rightarrow> (RErr e, m)
      | Inr _ \<Rightarrow> (RBulk (map_option fst (expire_to (now_late v) m k)), m(k \<mapsto> (val, None))))"
| "spec_step v (OSetNx k val) m =
     (case valid_pair k val of Inl e \<Rightarrow> (RErr e, m)
      | Inr _ \<Rightarrow> if m k \<noteq> None then (RBool False, m) else (RBool True, m(k \<mapsto> (val, None))))"
| "spec_step v (OMset ps) m =
     (case validate_pairs ps of Inl e \<Rightarrow> (RErr e, m)
      | Inr _ \<Rightarrow> (RUnit, foldl (\<lambda>m (k, val). m(k \<mapsto> (val, None))) m ps))"
| "spec_step v (OIncrBy k d) m =
     (case validate_key k of Inl e \<Rightarrow> (RErr e, m)
      | Inr _ \<Rightarrow>
          (case (case m k of None \<Rightarrow> Some 0 | Some (x, _) \<Rightarrow> parse_i64 x) of
             None \<Rightarrow> (RErr not_integer, m)
           | Some n \<Rightarrow> if in_i64 (n + d)
               then (RInt (n + d), m(k \<mapsto> (show_int (n + d), Option.bind (m k) snd)))
               else (RErr not_integer, m)))"
| "spec_step v (OAppend k x) m =
     (case validate_key k of Inl e \<Rightarrow> (RErr e, m)
      | Inr _ \<Rightarrow>
          let y = (case m k of None \<Rightarrow> [] | Some (d, _) \<Rightarrow> d) @ x in
          (case validate_value y of Inl e \<Rightarrow> (RErr e, m)
           | Inr _ \<Rightarrow> (RNat (length y), m(k \<mapsto> (y, Option.bind (m k) snd)))))"
| "spec_step v (OGet k) m = (RBulk (map_option fst (m k)), m)"
| "spec_step v (OMget ks) m = (RBulks (map (\<lambda>k. map_option fst (m k)) ks), m)"
| "spec_step v (OExists k) m = (RBool (m k \<noteq> None), m)"
| "spec_step v (OExistsMany ks) m = (RNat (length (filter (\<lambda>k. m k \<noteq> None) ks)), m)"
| "spec_step v (OStrlen k) m = (RNat (case m k of None \<Rightarrow> 0 | Some (d, _) \<Rightarrow> length d), m)"
| "spec_step v (OTtl k) m =
     (RTtl (case m k of None \<Rightarrow> Missing
        | Some (_, None) \<Rightarrow> NoExpire
        | Some (_, Some dl) \<Rightarrow> Millis (int ((dl - now v) div 1000000))), m)"
| "spec_step v (OMemoryUsage k) m =
     (RUsage (case m k of None \<Rightarrow> None
        | Some (d, _) \<Rightarrow> Some (length k + length d + PER_ENTRY_OVERHEAD)), m)"
| "spec_step v ODbsize m = (RNat (card (dom m)), m)"
| "spec_step v (ODel k) m = (RBool (m k \<noteq> None), m(k := None))"
| "spec_step v (ODelMany ks) m = (RNat (live_count ks m), m |` (- set ks))"
| "spec_step v OFlushdb m = (RUnit, Map.empty)"
| "spec_step v (OExpireAt k ms) m =
     (case m k of None \<Rightarrow> (RBool False, m)
      | Some (d, _) \<Rightarrow>
          if ms \<le> now_ms v then (RBool True, m(k := None))
          else (RBool True, m(k \<mapsto> (d, Some (now v + nat (ms - now_ms v) * 1000000)))))"
| "spec_step v (OPersist k) m =
     (case m k of Some (d, Some _) \<Rightarrow> (RBool True, m(k \<mapsto> (d, None))) | _ \<Rightarrow> (RBool False, m))"
| "spec_step v (OSweep n) m = (RUnit, m)"

section \<open>Each command refines its abstract step\<close>

definition unlimited :: "engine \<Rightarrow> bool" where
  "unlimited s \<longleftrightarrow> max_memory (e_eviction s) = 0"

definition env_ok :: "env \<Rightarrow> bool" where
  "env_ok v \<longleftrightarrow> now v \<le> now_late v"

lemma vw_None_iff:
  "vw t st k = None \<longleftrightarrow> (case map_of st k of None \<Rightarrow> True | Some e \<Rightarrow> is_expired e t)"
  by (auto simp: vw_def split: option.splits)

lemma vw_of_live: "map_of st k = Some e \<Longrightarrow> \<not> is_expired e t \<Longrightarrow> vw t st k = Some (data e, expire_at e)"
  by (simp add: vw_def)

lemma vw_upd_None [simp]: "vw t st k = None \<Longrightarrow> (vw t st)(k := None) = vw t st"
  by (rule ext) simp

lemma peek_simps:
  "peek v k s = Live e \<longleftrightarrow> map_of (e_store s) k = Some e \<and> \<not> is_expired e (now v)"
  "peek v k s = Absent \<longleftrightarrow> map_of (e_store s) k = None"
  "peek v k s = Stale \<longleftrightarrow> (\<exists>e. map_of (e_store s) k = Some e \<and> is_expired e (now v))"
  by (auto simp: peek_def split: option.splits if_splits)

lemma peek_view:
  "peek v k s = Live e \<Longrightarrow> view (now v) s k = Some (data e, expire_at e)"
  "peek v k s = Stale \<Longrightarrow> view (now v) s k = None"
  "peek v k s = Absent \<Longrightarrow> view (now v) s k = None"
  by (auto simp: peek_simps vw_def)

lemma wg_expire_drop_view:
  "map_of (e_store (g_engine g)) k = Some e \<Longrightarrow> is_expired e t \<Longrightarrow>
   view t (g_engine (wg_expire_drop k g)) = view t (g_engine g)"
  by (simp add: vw_None_iff)

lemma set_refines:
  assumes "unlimited s" "env_ok v"
  shows "map_prod id (view (now v)) (reply_of RBulk (kv_set v k val s)) = spec_step v (OSet k val) (view (now v) s)"
  using assms
  by (auto simp: kv_set_def wg_insert_def valid_pair_def reply_of_def unlimited_def
      wg_enforce_unlimited Let_def prev_payload_def live_payload_def expire_to_def vw_def
      env_ok_def is_expired_def split: sum.splits option.splits)

lemma set_nx_refines:
  assumes "unlimited s"
  shows "map_prod id (view (now v)) (reply_of RBool (kv_set_nx v k val s)) = spec_step v (OSetNx k val) (view (now v) s)"
  using assms
  by (auto simp: kv_set_nx_def wg_insert_nx_def valid_pair_def reply_of_def unlimited_def
      wg_enforce_unlimited Let_def vw_None_iff split: sum.splits option.splits)

lemma enforce_pairs_unlimited:
  "unlimited (g_engine g) \<Longrightarrow> enforce_pairs v ps g = (Ok (), g)"
  by (induction v ps g rule: enforce_pairs.induct) (auto simp: wg_enforce_unlimited unlimited_def)

lemma put_pairs_view:
  "view t (g_engine (put_pairs v ps g)) = foldl (\<lambda>m (k, val). m(k \<mapsto> (val, None))) (view t (g_engine g)) ps"
  by (induction v ps g rule: put_pairs.induct) simp_all

lemma mset_refines:
  assumes "unlimited s"
  shows "map_prod id (view (now v)) (reply_of (\<lambda>_. RUnit) (kv_mset v ps s)) = spec_step v (OMset ps) (view (now v) s)"
  using assms enforce_pairs_unlimited [of "wg_begin s"]
  by (auto simp: kv_mset_def wg_insert_many_def reply_of_def put_pairs_view Let_def
      split: sum.splits)

text \<open>The in-place update shared by \<^verbatim>\<open>INCRBY\<close>, \<^verbatim>\<open>INCRBYFLOAT\<close> and \<^verbatim>\<open>APPEND\<close>.\<close>

lemma read_state_view:
  assumes "wg_read_state v k (wg_begin s) = (st, g)"
  shows "st = view (now v) s k" "view (now v) (g_engine g) = view (now v) s"
    "e_eviction (g_engine g) = e_eviction s"
  using assms
  by (auto simp: wg_read_state_def vw_def vw_None_iff split: option.splits if_splits)

lemma insert_keep_ttl_view:
  assumes "unlimited (g_engine g)" "\<forall>dl. ttl = Some dl \<longrightarrow> now v < dl"
  shows "\<exists>r g'. wg_insert_keep_ttl v k val ttl g = (Ok r, g')
     \<and> view (now v) (g_engine g') = (view (now v) (g_engine g))(k \<mapsto> (val, ttl))"
proof -
  have ne: "\<not> is_expired (entry_new_with v val ttl) (now v)"
    using assms(2) by (cases ttl) (auto simp: is_expired_def)
  show ?thesis
    using assms(1) ne
    by (auto simp: wg_insert_keep_ttl_def wg_enforce_unlimited unlimited_def Let_def
        split: option.splits)
qed

lemma vw_deadline: "vw t st k = Some (d, Some dl) \<Longrightarrow> t < dl"
  by (auto simp: vw_def is_expired_def split: option.splits if_splits)

lemma incr_by_refines:
  assumes "unlimited s"
  shows "map_prod id (view (now v)) (reply_of RInt (kv_incr_by v k d s)) = spec_step v (OIncrBy k d) (view (now v) s)"
proof (cases "validate_key k")
  case (Inl e)
  then show ?thesis by (simp add: kv_incr_by_def reply_of_def)
next
  case (Inr u)
  obtain st g where rs: "wg_read_state v k (wg_begin s) = (st, g)"
    by (cases "wg_read_state v k (wg_begin s)")
  note st = read_state_view [OF rs]
  have un: "unlimited (g_engine g)" using st(3) assms by (simp add: unlimited_def)
  have ttl: "\<forall>dl. Option.bind st snd = Some dl \<longrightarrow> now v < dl"
    using vw_deadline st(1) by (auto simp: bind_eq_Some_conv)
  obtain cur where cur: "cur = (case st of None \<Rightarrow> Some 0 | Some (x, _) \<Rightarrow> parse_i64 x)" by simp
  show ?thesis
  proof (cases cur)
    case None
    then show ?thesis using cur rs st Inr
      by (auto simp: kv_incr_by_def reply_of_def not_integer_def split: option.splits)
  next
    case (Some n)
    obtain r g' where ins: "wg_insert_keep_ttl v k (show_int (n + d)) (Option.bind st snd) g = (Ok r, g')"
      "view (now v) (g_engine g') = (view (now v) s)(k \<mapsto> (show_int (n + d), Option.bind st snd))"
      using insert_keep_ttl_view [OF un ttl] st(2) by metis
    show ?thesis
      using Some cur rs st Inr ins
      by (auto simp: kv_incr_by_def reply_of_def checked_i64_def split: option.splits)
  qed
qed

lemma append_refines:
  assumes "unlimited s"
  shows "map_prod id (view (now v)) (reply_of RNat (kv_append v k x s)) = spec_step v (OAppend k x) (view (now v) s)"
proof (cases "validate_key k")
  case (Inl e)
  then show ?thesis by (simp add: kv_append_def reply_of_def)
next
  case (Inr u)
  obtain st g where rs: "wg_read_state v k (wg_begin s) = (st, g)"
    by (cases "wg_read_state v k (wg_begin s)")
  note st = read_state_view [OF rs]
  have un: "unlimited (g_engine g)" using st(3) assms by (simp add: unlimited_def)
  have ttl: "\<forall>dl. Option.bind st snd = Some dl \<longrightarrow> now v < dl"
    using vw_deadline st(1) by (auto simp: bind_eq_Some_conv)
  define y where "y = (case st of None \<Rightarrow> [] | Some (d, _) \<Rightarrow> d) @ x"
  obtain r g' where ins: "wg_insert_keep_ttl v k y (Option.bind st snd) g = (Ok r, g')"
    "view (now v) (g_engine g') = (view (now v) s)(k \<mapsto> (y, Option.bind st snd))"
    using insert_keep_ttl_view [OF un ttl] st(2) by metis
  show ?thesis
    using rs st(2) Inr ins unfolding spec_step.simps st(1) [symmetric]
    by (cases st) (auto simp: kv_append_def reply_of_def y_def split: sum.splits)
qed

section \<open>Reads\<close>

lemma expired_later: "env_ok v \<Longrightarrow> now v \<le> now v2 \<Longrightarrow> is_expired e (now v) \<Longrightarrow> is_expired e (now v2)"
  by (rule is_expired_mono)

lemma fetch_live_stale:
  assumes "map_of (e_store (g_engine g)) k = Some e" "is_expired e t" "t \<le> now v"
  shows "fst (wg_fetch_live v k g) = None" "view t (g_engine (snd (wg_fetch_live v k g))) = view t (g_engine g)"
  using assms is_expired_mono [OF assms(2,3)]
  by (simp_all add: wg_fetch_live_def vw_None_iff)

lemma get_refines:
  assumes "now v \<le> now v2"
  shows "map_prod RBulk (view (now v)) (kv_get v v2 k s) = spec_step v (OGet k) (view (now v) s)"
proof (cases "peek v k s")
  case (Live e)
  then show ?thesis using peek_view(1) [OF Live] by (simp add: kv_get_def)
next
  case Stale
  then obtain e where e: "map_of (e_store s) k = Some e" "is_expired e (now v)" by (auto simp: peek_simps)
  then show ?thesis
    using Stale fetch_live_stale [of "wg_begin s" k e "now v" v2] assms
    by (simp add: kv_get_def case_prod_unfold Let_def vw_def)
next
  case Absent
  then show ?thesis using peek_view(3) [OF Absent] by (simp add: kv_get_def)
qed

lemma mget_scan_view:
  "mget_scan v ks s = ((out, ex), s') \<Longrightarrow>
   out = map (\<lambda>k. map_option fst (view (now v) s k)) ks \<and> view (now v) s' = view (now v) s
   \<and> (\<forall>k\<in>set ex. view (now v) s k = None)"
proof (induction ks arbitrary: s out ex)
  case (Cons k ks)
  show ?case
  proof (cases "peek v k s")
    case (Live e)
    then show ?thesis
      using Cons.prems Cons.IH [of "record_hit (touch_access v k s)"] peek_view(1) [OF Live]
      by (auto split: prod.splits)
  next
    case Stale
    then have "view (now v) s k = None" by (rule peek_view)
    then show ?thesis using Stale Cons.prems Cons.IH [of s] by (auto split: prod.splits)
  next
    case Absent
    then have "view (now v) s k = None" by (rule peek_view)
    then show ?thesis using Absent Cons.prems Cons.IH [of "record_miss s"] by (auto split: prod.splits)
  qed
qed simp

lemma fetch_live_absent_view:
  assumes "view t (g_engine g) k = None" "t \<le> now v"
  shows "view t (g_engine (snd (wg_fetch_live v k g))) = view t (g_engine g)"
  using assms is_expired_mono
  by (auto simp: wg_fetch_live_def vw_None_iff split: option.splits)

lemma fetch_all_view:
  "\<forall>k\<in>set ks. view t (g_engine g) k = None \<Longrightarrow> t \<le> now v \<Longrightarrow>
   view t (g_engine (fetch_all v ks g)) = view t (g_engine g)"
  by (induction v ks g rule: fetch_all.induct) (auto simp: fetch_live_absent_view)

lemma mget_refines:
  assumes "now v \<le> now v2"
  shows "map_prod RBulks (view (now v)) (kv_mget v v2 ks s) = spec_step v (OMget ks) (view (now v) s)"
proof -
  obtain out ex s' where m: "mget_scan v ks s = ((out, ex), s')" by (metis prod.exhaust)
  show ?thesis
    using mget_scan_view [OF m] fetch_all_view [of ex "now v" "wg_begin s'" v2] assms m
    by (simp add: kv_mget_def)
qed

lemma contains_live_view:
  assumes "view t (g_engine g) k = None" "t \<le> now v"
  shows "fst (wg_contains_live v k g) = False"
    "view t (g_engine (snd (wg_contains_live v k g))) = view t (g_engine g)"
  using assms is_expired_mono
  by (auto simp: wg_contains_live_def vw_None_iff split: option.splits)

lemma exists_refines:
  assumes "now v \<le> now v2"
  shows "map_prod RBool (view (now v)) (kv_exists v v2 k s) = spec_step v (OExists k) (view (now v) s)"
proof (cases "peek v k s")
  case (Live e)
  then show ?thesis using peek_view(1) [OF Live] by (simp add: kv_exists_def)
next
  case Stale
  then have "view (now v) s k = None" by (rule peek_view)
  then show ?thesis using Stale contains_live_view [of "now v" "wg_begin s" k v2] assms
    by (simp add: kv_exists_def case_prod_unfold Let_def)
next
  case Absent
  then show ?thesis using peek_view(3) [OF Absent] by (simp add: kv_exists_def)
qed

lemma exists_scan_view:
  "exists_scan v ks s = ((n, ex), s') \<Longrightarrow>
   n = length (filter (\<lambda>k. view (now v) s k \<noteq> None) ks) \<and> view (now v) s' = view (now v) s
   \<and> (\<forall>k\<in>set ex. view (now v) s k = None)"
proof (induction ks arbitrary: s n ex)
  case (Cons k ks)
  show ?case
  proof (cases "peek v k s")
    case (Live e)
    then have "view (now v) s k \<noteq> None" using peek_view(1) by fastforce
    then show ?thesis
      using Live Cons.prems Cons.IH [of "record_hit s"] by (auto split: prod.splits)
  next
    case Stale
    then have "view (now v) s k = None" by (rule peek_view)
    then show ?thesis using Stale Cons.prems Cons.IH [of s] by (auto split: prod.splits)
  next
    case Absent
    then have "view (now v) s k = None" by (rule peek_view)
    then show ?thesis using Absent Cons.prems Cons.IH [of "record_miss s"] by (auto split: prod.splits)
  qed
qed simp

lemma contains_all_view:
  "\<forall>k\<in>set ks. view t (g_engine g) k = None \<Longrightarrow> t \<le> now v \<Longrightarrow>
   fst (contains_all v ks n g) = n \<and> view t (g_engine (snd (contains_all v ks n g))) = view t (g_engine g)"
proof (induction ks arbitrary: n g)
  case (Cons k ks)
  then show ?case using contains_live_view [of t g k v] Cons.IH [of "snd (wg_contains_live v k g)"]
    by (auto simp: case_prod_unfold Let_def)
qed simp

lemma exists_many_refines:
  assumes "now v \<le> now v2"
  shows "map_prod RNat (view (now v)) (kv_exists_many v v2 ks s) = spec_step v (OExistsMany ks) (view (now v) s)"
proof -
  obtain n ex s' where m: "exists_scan v ks s = ((n, ex), s')" by (metis prod.exhaust)
  show ?thesis
    using exists_scan_view [OF m] contains_all_view [of ex "now v" "wg_begin s'" v2 n] assms m
    by (auto simp: kv_exists_many_def case_prod_unfold Let_def)
qed

lemma strlen_refines:
  assumes "now v \<le> now v2"
  shows "map_prod RNat (view (now v)) (kv_strlen v v2 k s) = spec_step v (OStrlen k) (view (now v) s)"
proof (cases "peek v k s")
  case Stale
  then obtain e where "map_of (e_store s) k = Some e" "is_expired e (now v)" by (auto simp: peek_simps)
  then show ?thesis using Stale peek_view(2) [OF Stale] is_expired_mono assms
    by (auto simp: kv_strlen_def wg_strlen_of_def)
qed (auto simp: kv_strlen_def peek_view)

lemma ttl_refines:
  assumes "now v \<le> now v2"
  shows "map_prod RTtl (view (now v)) (kv_ttl_ms v v2 k s) = spec_step v (OTtl k) (view (now v) s)"
proof (cases "peek v k s")
  case Stale
  then obtain e where "map_of (e_store s) k = Some e" "is_expired e (now v)" by (auto simp: peek_simps)
  then show ?thesis using Stale peek_view(2) [OF Stale] is_expired_mono assms
    by (auto simp: kv_ttl_ms_def wg_ttl_of_def)
qed (auto simp: kv_ttl_ms_def peek_view split: option.splits)

lemma memory_usage_refines:
  assumes "now v \<le> now v2"
  shows "map_prod RUsage (view (now v)) (kv_memory_usage v v2 k s) = spec_step v (OMemoryUsage k) (view (now v) s)"
proof (cases "peek v k s")
  case Stale
  then obtain e where "map_of (e_store s) k = Some e" "is_expired e (now v)" by (auto simp: peek_simps)
  then show ?thesis using Stale peek_view(2) [OF Stale] is_expired_mono assms
    by (auto simp: kv_memory_usage_def wg_memory_of_def untrack_def)
qed (auto simp: kv_memory_usage_def peek_view entry_bytes_def)

section \<open>Removal and expiry\<close>

lemma del_refines:
  "map_prod RBool (view (now v)) (kv_del v k s) = spec_step v (ODel k) (view (now v) s)"
  by (auto simp: kv_del_def wg_remove_def Let_def vw_None_iff split: option.splits)

lemma log_dels_simps [simp]:
  "e_store (g_engine (log_dels ks g)) = e_store (g_engine g)"
  "e_eviction (g_engine (log_dels ks g)) = e_eviction (g_engine g)"
  by (induction ks g rule: log_dels.induct) simp_all

lemma remove_keys_view:
  "remove_keys v ks g = (removed, g') \<Longrightarrow>
   length removed = live_count ks (view (now v) (g_engine g))
   \<and> view (now v) (g_engine g') = view (now v) (g_engine g) |` (- set ks)"
proof (induction ks arbitrary: g removed g')
  case Nil
  then show ?case by (auto simp: restrict_map_def)
next
  case (Cons k ks)
  obtain r1 g1 where 1: "remove_keys v ks (wg_do (\<lambda>s. snd (track_remove k s)) g) = (r1, g1)"
    by (metis prod.exhaust)
  let ?m = "view (now v) (g_engine g)"
  let ?live = "case wg_lookup k g of Some e \<Rightarrow> \<not> is_expired e (now v) | None \<Rightarrow> False"
  have v1: "view (now v) (g_engine (wg_do (\<lambda>s. snd (track_remove k s)) g)) = ?m(k := None)"
    by simp
  have live: "?live \<longleftrightarrow> ?m k \<noteq> None" by (auto simp: vw_None_iff split: option.splits)
  have res: "removed = (if ?live then k # r1 else r1)" "g' = g1"
    using Cons.prems 1 by (auto simp: Let_def)
  have ih: "length r1 = live_count ks (?m(k := None))"
    "view (now v) (g_engine g1) = ?m(k := None) |` (- set ks)"
    using Cons.IH [OF 1] unfolding v1 by blast+
  have "?m(k := None) |` (- set ks) = ?m |` (- set (k # ks))"
    by (rule ext) (simp add: restrict_map_def)
  then show ?case using ih res live by simp
qed

lemma del_many_refines:
  "map_prod RNat (view (now v)) (kv_del_many v ks s) = spec_step v (ODelMany ks) (view (now v) s)"
proof (cases "ks = []")
  case True
  then show ?thesis by (simp add: kv_del_many_def restrict_map_def)
next
  case False
  obtain r g where r: "remove_keys v ks (wg_begin s) = (r, g)" by (metis prod.exhaust)
  show ?thesis using False remove_keys_view [OF r] r
    by (simp add: kv_del_many_def wg_remove_many_def)
qed

lemma flushdb_refines: "view t (kv_flushdb s) = Map.empty"
  by (simp add: kv_flushdb_def wg_clear_def track_clear_def)

lemma expire_at_refines:
  "map_prod RBool (view (now v)) (kv_expire_at_ms v k ms s) = spec_step v (OExpireAt k ms) (view (now v) s)"
proof (cases "map_of (e_store s) k")
  case None
  then show ?thesis by (simp add: kv_expire_at_ms_def wg_expire_at_def vw_def)
next
  case (Some e)
  show ?thesis
  proof (cases "is_expired e (now v)")
    case True
    then show ?thesis using Some
      by (simp add: kv_expire_at_ms_def wg_expire_at_def vw_None_iff) (simp add: vw_def)
  next
    case False
    let ?dl = "now v + nat (ms - now_ms v) * 1000000"
    have "ms > now_ms v \<Longrightarrow> \<not> is_expired (e\<lparr>expire_at := Some ?dl\<rparr>) (now v)"
      by (simp add: is_expired_def)
    then show ?thesis using Some False vw_of_live [OF Some False]
      by (auto simp: kv_expire_at_ms_def wg_expire_at_def Let_def)
  qed
qed

lemma persist_refines:
  "map_prod RBool (view (now v)) (kv_persist v k s) = spec_step v (OPersist k) (view (now v) s)"
proof (cases "map_of (e_store s) k")
  case None
  then show ?thesis by (simp add: kv_persist_def wg_persist_def vw_def)
next
  case (Some e)
  show ?thesis
  proof (cases "is_expired e (now v)")
    case True
    then show ?thesis using Some
      by (simp add: kv_persist_def wg_persist_def vw_None_iff) (simp add: vw_def)
  next
    case False
    then show ?thesis using Some vw_of_live [OF Some False]
      by (auto simp: kv_persist_def wg_persist_def Let_def split: option.splits)
  qed
qed

lemma drop_victims_view:
  "\<forall>k\<in>set ks. view t s k = None \<Longrightarrow> view t (drop_victims ks s) = view t s"
proof (induction ks arbitrary: s)
  case (Cons k ks)
  then show ?case by (simp add: Let_def)
qed simp

lemma sweep_window_sub: "set (sweep_window n s) \<subseteq> set (e_store s)"
  by (auto simp: sweep_window_def Let_def dest!: in_set_takeD dest: in_set_dropD)

lemma sweep_refines:
  assumes "well_keyed (e_store s)"
  shows "view (now v) (snd (kv_sweep_expired v n s)) = view (now v) s"
proof -
  let ?vs = "map fst (filter (\<lambda>(k, e). is_expired e (now v)) (sweep_window n s))"
  have "view (now v) s k = None" if "k \<in> set ?vs" for k
  proof -
    from that obtain e where "(k, e) \<in> set (e_store s)" "is_expired e (now v)"
      using sweep_window_sub [of n s] by auto
    then show ?thesis using assms by (simp add: vw_def)
  qed
  then show ?thesis
    by (auto simp: kv_sweep_expired_def Let_def drop_victims_view)
qed

section \<open>The refinement\<close>

lemma map_prod_reply [simp]: "map_prod id f (map_prod g id p) = map_prod g f p"
  by (cases p) simp

lemma run_op_refines_spec:
  assumes "engine_inv s" "unlimited s" "env_ok v" "now v \<le> now v2"
  shows "map_prod id (view (now v)) (run_op v v2 op s) = spec_step v op (view (now v) s)"
proof (cases op)
  case ODbsize
  then show ?thesis using vw_dom engine_invD(4) [OF assms(1)] by (simp add: kv_dbsize_def)
next
  case (OSweep n)
  then show ?thesis using sweep_refines engine_invD(4) [OF assms(1)] by simp
next
  case OFlushdb
  then show ?thesis by (simp add: flushdb_refines)
qed (use assms in \<open>simp_all add: set_refines set_nx_refines mset_refines incr_by_refines append_refines
  get_refines mget_refines exists_refines exists_many_refines strlen_refines ttl_refines
  memory_usage_refines del_refines del_many_refines flushdb_refines expire_at_refines
  persist_refines del: spec_step.simps\<close>)

end
