(* ===== verification/Reachable.thy ===== *)
theory Reachable
  imports Keyspace
begin

text \<open>
  The state machine of the engine: \<open>engine_step\<close> is one step of the running server as the engine
  sees it (a command, a configuration change, a step of the AOF machinery, or a re-hash of the
  map, which may permute its iteration order), and \<open>reachable\<close> its closure from a new engine.
  The invariant says that the memory counter is the exact cost of the keyspace, that the indexes
  are well-formed and belong to the configured policy, and that the password flag agrees with
  the password. \<open>good (True, cfg)\<close> adds that the active index tracks every evictable key; every command
  keeps it but \<^verbatim>\<open>PERSIST\<close>.

  A command may only add bytes that the 64-bit counter can hold: \<open>headroom\<close>, the size of the
  address space, is the premise of the command steps.
\<close>

section \<open>Cost of the keyspace\<close>

lemma total_conv_sum: "well_keyed m \<Longrightarrow> total f m = (\<Sum>p\<in>set m. f (fst p) (snd p))"
  by (simp add: total_def case_prod_unfold distinct_map sum_list_distinct_conv_sum_set)

lemma total_mono:
  assumes "well_keyed m" "well_keyed m'" "map_of m' \<subseteq>\<^sub>m map_of m"
  shows "total f m' \<le> total f m"
proof -
  have "set m' \<subseteq> set m"
  proof
    fix p assume p: "p \<in> set m'"
    then have "map_of m' (fst p) = Some (snd p)" using assms(2) by simp
    then have "map_of m (fst p) = Some (snd p)" using assms(3) by (auto simp: map_le_def dom_def)
    then show "p \<in> set m" using map_of_SomeD by fastforce
  qed
  then show ?thesis using assms(1,2) by (simp add: total_conv_sum sum_mono2)
qed

lemma total_update_delete:
  "well_keyed m \<Longrightarrow> total f (AList.update k e m) = total f (AList.delete k m) + f k e"
  using total_update [of m f k e] total_delete [of m f k] by (simp split: option.splits)

lemma delete_map_le_mono: "map_of m' \<subseteq>\<^sub>m map_of m \<Longrightarrow> map_of (AList.delete k m') \<subseteq>\<^sub>m map_of (AList.delete k m)"
  by (auto simp: map_le_def dom_def)

lemma total_put_after_evict:
  assumes "well_keyed m" "well_keyed m'" "map_of m' \<subseteq>\<^sub>m map_of m"
    and "total f (AList.delete k m) + f k e \<le> b"
  shows "total f (AList.update k e m') \<le> b"
  using assms total_mono [of "AList.delete k m" "AList.delete k m'" f]
    delete_map_le_mono [OF assms(3), of k]
  by (simp add: total_update_delete)

section \<open>The invariant of the guard operations\<close>

definition good :: "bool \<times> eviction_config \<Rightarrow> engine \<Rightarrow> bool" where
  "good c s \<longleftrightarrow> engine_inv s \<and> (fst c \<longrightarrow> index_covers s) \<and> e_eviction s = snd c"

definition headroom :: "engine \<Rightarrow> nat \<Rightarrow> bool" where
  "headroom s n \<longleftrightarrow> total entry_bytes (e_store s) + n \<le> u64_max"

abbreviation gg :: "bool \<times> eviction_config \<Rightarrow> write_guard \<Rightarrow> bool" where
  "gg c g \<equiv> good c (g_engine g)"

lemma track_clear_eviction [simp]: "e_eviction (track_clear s) = e_eviction s"
  by (simp add: track_clear_def)

lemma good_simps [simp]:
  "good c s \<Longrightarrow> good c (aof_note f s)" "good c s \<Longrightarrow> good c (record_hit s)"
  "good c s \<Longrightarrow> good c (record_miss s)" "good c s \<Longrightarrow> good c (touch_access v k s)"
  "good c s \<Longrightarrow> good c (snd (track_remove k s))" "good c s \<Longrightarrow> good c (track_clear s)"
  "good c s \<Longrightarrow> good c (log_expire_drop k s)"
  by (auto simp: good_def touch_access_covers track_clear_covers engine_invD)

lemma good_wg_simps [simp]:
  "gg c g \<Longrightarrow> gg c (wg_log f g)" "gg c g \<Longrightarrow> good c (wg_drop g)"
  "gg c g \<Longrightarrow> gg c (wg_expire_drop k g)"
  by (auto simp: wg_log_engine wg_drop_def wg_expire_drop_def)

lemma good_put:
  assumes "gg c g" "total entry_bytes (AList.update k e (e_store (g_engine g))) \<le> u64_max"
  shows "gg c (wg_put k e g)"
  using assms engine_inv_track_insert track_insert_covers engine_invD(2)
  by (auto simp: good_def wg_put_def)

lemma good_enforce:
  assumes "gg c g" "wg_enforce v k n g = (r, g')"
  shows "gg c g'"
  using assms wg_enforce_cases [OF _ assms(2)] by (auto simp: good_def)

text \<open>Enforce, log, then put: the tail of every insertion.\<close>

lemma good_enforce_put:
  assumes "gg c g" "wg_enforce v k n g = (r, g1)"
    and "total entry_bytes (AList.delete k (e_store (g_engine g))) + entry_bytes k e \<le> u64_max"
    and "e_store (g_engine g2) = e_store (g_engine g1)" "gg c g2"
  shows "gg c (wg_put k e g2)"
proof (rule good_put [OF assms(5)])
  have wk: "well_keyed (e_store (g_engine g))" "well_keyed (e_store (g_engine g1))"
    using assms(1) good_enforce [OF assms(1,2)] engine_invD(4) by (auto simp: good_def)
  have "map_of (e_store (g_engine g1)) \<subseteq>\<^sub>m map_of (e_store (g_engine g))"
    using wg_enforce_cases(2) assms(1,2) by (auto simp: good_def)
  then show "total entry_bytes (AList.update k e (e_store (g_engine g2))) \<le> u64_max"
    using total_put_after_evict [OF wk] assms(3,4) by simp
qed

lemma total_delete_le: "well_keyed m \<Longrightarrow> total f (AList.delete k m) \<le> total f m"
  using total_delete [of m f k] by (simp split: option.splits)

lemma good_wk: "good c s \<Longrightarrow> well_keyed (e_store s)"
  by (simp add: good_def engine_invD)

lemma entry_bytes_new [simp]:
  "entry_bytes k (entry_new v val) = length k + length val + PER_ENTRY_OVERHEAD"
  "entry_bytes k (entry_new_with v val ttl) = length k + length val + PER_ENTRY_OVERHEAD"
  by (simp_all add: entry_bytes_def)

lemma headroom_delete:
  "good c s \<Longrightarrow> headroom s n \<Longrightarrow> total entry_bytes (AList.delete k (e_store s)) + n \<le> u64_max"
  using total_delete_le [OF good_wk, of c s entry_bytes k] by (simp add: headroom_def)

lemma good_insert:
  assumes "gg c g" "headroom (g_engine g) (length k + length val + PER_ENTRY_OVERHEAD)"
  shows "gg c (snd (wg_insert v k val g))"
proof -
  obtain r g1 where e: "wg_enforce v k (length val) g = (r, g1)" by (metis prod.exhaust)
  note g1 = good_enforce [OF assms(1) e]
  have "gg c (wg_put k (entry_new v val) (wg_log f g1))" for f
    using good_enforce_put [OF assms(1) e, of "entry_new v val" "wg_log f g1"] g1
      headroom_delete [OF assms] by simp
  then show ?thesis using e g1 assms(1)
    by (simp add: wg_insert_def Let_def split: sum.splits)
qed

lemma good_insert_nx:
  assumes "gg c g" "headroom (g_engine g) (length k + length val + PER_ENTRY_OVERHEAD)"
  shows "gg c (snd (wg_insert_nx v k val g))"
proof -
  define g0 where "g0 = (case wg_lookup k g of
      Some _ \<Rightarrow> wg_do (\<lambda>s. snd (track_remove k s)) g | None \<Rightarrow> g)"
  have g0: "gg c g0" and st: "e_store (g_engine g0) = AList.delete k (e_store (g_engine g))"
    using assms(1) by (auto simp: g0_def split: option.splits)
  obtain r g1 where e: "wg_enforce v k (length val) g0 = (r, g1)" by (metis prod.exhaust)
  note g1 = good_enforce [OF g0 e]
  have "total entry_bytes (AList.delete k (e_store (g_engine g0)))
      + entry_bytes k (entry_new v val) \<le> u64_max"
    using headroom_delete [OF assms, of k] by (simp add: st delete_idem)
  then have "gg c (wg_put k (entry_new v val) (wg_log f g1))" for f
    using good_enforce_put [OF g0 e, of "entry_new v val" "wg_log f g1"] g1 by simp
  then show ?thesis using e g1 assms(1)
    by (simp add: wg_insert_nx_def Let_def g0_def [symmetric] split: sum.splits)
qed

fun pairs_bytes :: "(bytes \<times> bytes) list \<Rightarrow> nat" where
  "pairs_bytes [] = 0"
| "pairs_bytes ((k, val) # ps) = length k + length val + PER_ENTRY_OVERHEAD + pairs_bytes ps"

lemma good_enforce_pairs:
  assumes "gg c g" "enforce_pairs v ps g = (r, g')"
  shows "gg c g' \<and> map_of (e_store (g_engine g')) \<subseteq>\<^sub>m map_of (e_store (g_engine g))"
  using assms
proof (induction v ps g arbitrary: r g' rule: enforce_pairs.induct)
  case (2 v k val ps g)
  obtain r1 g1 where e: "wg_enforce v k (length val) g = (r1, g1)" by (metis prod.exhaust)
  note g1 = good_enforce [OF 2(2) e]
  have le: "map_of (e_store (g_engine g1)) \<subseteq>\<^sub>m map_of (e_store (g_engine g))"
    using wg_enforce_cases(2) [OF _ e] 2(2) by (simp add: good_def)
  show ?case
  proof (cases r1)
    case (Inl x)
    then show ?thesis using 2(3) e g1 le by simp
  next
    case (Inr x)
    then have "enforce_pairs v ps g1 = (r, g')" using 2(3) e by simp
    from 2(1) [OF e [symmetric] Inr g1 this] show ?thesis using map_le_trans [OF _ le] by blast
  qed
qed simp

lemma good_put_pairs:
  "gg c g \<Longrightarrow> headroom (g_engine g) (pairs_bytes ps) \<Longrightarrow> gg c (put_pairs v ps g)"
proof (induction v ps g rule: put_pairs.induct)
  case (2 v k val ps g)
  let ?g = "wg_put k (entry_new v val) g"
  have "total entry_bytes (AList.update k (entry_new v val) (e_store (g_engine g)))
      + pairs_bytes ps \<le> u64_max"
    using 2(2,3) total_delete_le [OF good_wk [OF 2(2)], of entry_bytes k]
    by (simp add: total_update_delete good_wk [OF 2(2)] headroom_def)
  then show ?case using 2 good_put [OF 2(2), of k "entry_new v val"] by (simp add: headroom_def)
qed simp

lemma good_insert_many:
  assumes "gg c g" "headroom (g_engine g) (pairs_bytes ps)"
  shows "gg c (snd (wg_insert_many v ps g))"
proof -
  obtain r g1 where e: "enforce_pairs v ps g = (r, g1)" by (metis prod.exhaust)
  note g1 = good_enforce_pairs [OF assms(1) e]
  have "headroom (g_engine (wg_log f g1)) (pairs_bytes ps)" for f
    using total_mono [of "e_store (g_engine g)" "e_store (g_engine g1)" entry_bytes]
      g1 assms good_wk by (fastforce simp: headroom_def)
  then show ?thesis using e g1 assms(1) good_put_pairs
    by (simp add: wg_insert_many_def split: sum.splits)
qed

lemma good_insert_keep_ttl:
  assumes "gg c g"
    and "total entry_bytes (AList.delete k (e_store (g_engine g)))
           + (length k + length val + PER_ENTRY_OVERHEAD) \<le> u64_max"
  shows "gg c (snd (wg_insert_keep_ttl v k val ttl g))"
proof -
  obtain r g1 where e: "wg_enforce v k (length val) g = (r, g1)" by (metis prod.exhaust)
  note g1 = good_enforce [OF assms(1) e]
  have "gg c (wg_put k (entry_new_with v val ttl) g2)"
    if "e_store (g_engine g2) = e_store (g_engine g1)" "gg c g2" for g2
    using good_enforce_put [OF assms(1) e _ that] assms(2) by simp
  then show ?thesis using e g1
    by (simp add: wg_insert_keep_ttl_def Let_def split: sum.splits option.splits)
qed

section \<open>The invariant of the commands\<close>

lemma length_show_nat: "n < 10 ^ Suc d \<Longrightarrow> length (show_nat n) \<le> Suc d"
proof (induction d arbitrary: n)
  case 0
  then show ?case by (simp add: show_nat.simps)
next
  case (Suc d)
  have "n div 10 < 10 ^ Suc d" using Suc.prems by (simp add: less_mult_imp_div_less mult.commute)
  then show ?case using Suc.IH [of "n div 10"] by (subst show_nat.simps) auto
qed

lemma length_show_int: "in_i64 n \<Longrightarrow> length (show_int n) \<le> 20"
proof -
  assume "in_i64 n"
  then have "nat n < 10 ^ Suc 18" "nat (- n) < 10 ^ Suc 18"
    by (simp_all add: in_i64_def nat_less_iff) linarith+
  from this [THEN length_show_nat] show ?thesis by (auto simp: show_int_def)
qed

lemma good_read_state:
  assumes "good c s" "wg_read_state v k (wg_begin s) = (st, g)"
  shows "gg c g"
    and "total entry_bytes (AList.delete k (e_store (g_engine g))) = total entry_bytes (AList.delete k (e_store s))"
    and "case st of Some (d, _) \<Rightarrow>
       total entry_bytes (AList.delete k (e_store s)) + (length k + length d + PER_ENTRY_OVERHEAD)
         = total entry_bytes (e_store s) | None \<Rightarrow> True"
  using assms total_delete [OF good_wk [OF assms(1)], of entry_bytes k]
  by (auto simp: wg_read_state_def delete_idem entry_bytes_def split: option.splits if_splits)

lemma good_incr_by:
  assumes "good c s" "headroom s (length k + 20 + PER_ENTRY_OVERHEAD)"
  shows "good c (snd (kv_incr_by v k d s))"
proof -
  obtain st g where rs: "wg_read_state v k (wg_begin s) = (st, g)" by (metis prod.exhaust)
  note g = good_read_state [OF assms(1) rs]
  have "gg c (snd (wg_insert_keep_ttl v k (show_int n) ttl g))" if "in_i64 n" for n ttl
    using good_insert_keep_ttl [OF g(1), of k "show_int n" v ttl] g(2) length_show_int [OF that]
      headroom_delete [OF assms, of k] by simp
  then show ?thesis using rs g(1) assms(1)
    by (simp add: kv_incr_by_def case_prod_unfold Let_def checked_i64_def split: sum.splits option.splits)
qed

lemma good_append:
  assumes "good c s" "headroom s (length k + length x + PER_ENTRY_OVERHEAD)"
  shows "good c (snd (kv_append v k x s))"
proof -
  obtain st g where rs: "wg_read_state v k (wg_begin s) = (st, g)" by (metis prod.exhaust)
  note g = good_read_state [OF assms(1) rs]
  define y where "y = (case st of None \<Rightarrow> [] | Some (d, _) \<Rightarrow> d) @ x"
  have "total entry_bytes (AList.delete k (e_store s)) + (length k + length y + PER_ENTRY_OVERHEAD) \<le> u64_max"
    using g(3) headroom_delete [OF assms, of k] assms(2)
    by (auto simp: y_def headroom_def split: option.splits)
  then have "gg c (snd (wg_insert_keep_ttl v k y ttl g))" for ttl
    using good_insert_keep_ttl [OF g(1), of k y v ttl] g(2) by simp
  then show ?thesis using rs g(1) assms(1)
    by (cases st) (auto simp: kv_append_def case_prod_unfold Let_def y_def split: sum.splits)
qed

lemma good_reads [simp]:
  assumes "gg c g"
  shows "gg c (snd (wg_fetch_live v k g))" "gg c (snd (wg_contains_live v k g))"
    "gg c (snd (wg_ttl_of v k g))" "gg c (snd (wg_strlen_of v k g))"
  using assms
  by (auto simp: wg_fetch_live_def wg_contains_live_def wg_ttl_of_def wg_strlen_of_def split: option.splits)

lemma good_memory_of [simp]:
  assumes "gg c g"
  shows "gg c (snd (wg_memory_of v k g))"
proof (cases "wg_lookup k g")
  case None
  then show ?thesis using assms by (simp add: wg_memory_of_def)
next
  case (Some e)
  let ?s = "apply_delta (- int (entry_bytes k e))
      (g_engine g\<lparr>e_store := AList.delete k (e_store (g_engine g))\<rparr>)"
  have "engine_inv ?s" using engine_inv_delete [OF _ Some] assms by (simp add: good_def)
  moreover have "index_covers (g_engine g) \<Longrightarrow> index_covers ?s" by (simp add: index_covers_def)
  ultimately have "good c ?s" using assms by (simp add: good_def)
  then show ?thesis using Some assms by (simp add: wg_memory_of_def untrack_def)
qed

lemma good_mget_scan: "good c s \<Longrightarrow> good c (snd (mget_scan v ks s))"
  by (induction v ks s rule: mget_scan.induct) (simp_all add: case_prod_unfold Let_def split: probe.splits)

lemma good_exists_scan: "good c s \<Longrightarrow> good c (snd (exists_scan v ks s))"
  by (induction v ks s rule: exists_scan.induct) (simp_all add: case_prod_unfold Let_def split: probe.splits)

lemma good_fetch_all: "gg c g \<Longrightarrow> gg c (fetch_all v ks g)"
  by (induction v ks g rule: fetch_all.induct) simp_all

lemma good_contains_all: "gg c g \<Longrightarrow> gg c (snd (contains_all v ks n g))"
  by (induction v ks n g rule: contains_all.induct) (simp_all add: case_prod_unfold Let_def)

lemma good_remove_keys: "gg c g \<Longrightarrow> gg c (snd (remove_keys v ks g))"
  by (induction v ks g rule: remove_keys.induct) (simp_all add: case_prod_unfold Let_def)

lemma good_log_dels: "gg c g \<Longrightarrow> gg c (log_dels ks g)"
  by (induction ks g rule: log_dels.induct) simp_all

lemma engine_inv_retime:
  assumes "engine_inv s" "map_of (e_store s) k = Some e"
  shows "engine_inv (s\<lparr>e_store := AList.update k (e\<lparr>expire_at := t\<rparr>) (e_store s)\<rparr>)"
proof -
  have "total entry_bytes (AList.update k (e\<lparr>expire_at := t\<rparr>) (e_store s)) = total entry_bytes (e_store s)"
    by (rule total_same_cost [OF engine_invD(4) [OF assms(1)] assms(2)]) (simp add: entry_bytes_def)
  then show ?thesis using assms(1)
    by (simp add: engine_inv_def memory_ok_def index_ok_def auth_ok_def)
qed

lemma good_retime:
  assumes "good c s" "map_of (e_store s) k = Some e"
  shows "good c (ac_notify_insert k True (sieve_notify_insert k True
     (s\<lparr>e_store := AList.update k (e\<lparr>expire_at := Some t\<rparr>) (e_store s)\<rparr>)))"
proof -
  let ?s = "s\<lparr>e_store := AList.update k (e\<lparr>expire_at := Some t\<rparr>) (e_store s)\<rparr>"
  have "index_covers s \<Longrightarrow> index_covers (ac_notify_insert k True (sieve_notify_insert k True ?s))"
    by (auto simp: index_covers_def e_sieve_notify sieve_keys_insert ac_keys_insert tracks_def)
  then show ?thesis using assms engine_inv_retime [of s k e "Some t"] by (simp add: good_def)
qed

lemma good_expire_at [simp]:
  assumes "gg c g"
  shows "gg c (snd (wg_expire_at v k ms g))"
proof -
  define g0 where "g0 = (case wg_lookup k g of
      Some e \<Rightarrow> if is_expired e (now v) then wg_expire_drop k g else g | None \<Rightarrow> g)"
  have g0: "gg c g0" using assms by (simp add: g0_def split: option.splits)
  show ?thesis
  proof (cases "wg_lookup k g0")
    case None
    then show ?thesis using g0 by (simp add: wg_expire_at_def g0_def [symmetric])
  next
    case (Some e)
    then show ?thesis using g0 good_retime [OF g0 Some]
      by (simp add: wg_expire_at_def g0_def [symmetric] Let_def)
  qed
qed

lemma good_persist:
  assumes "gg c g" "\<not> fst c"
  shows "gg c (snd (wg_persist v k g))"
  using assms engine_inv_retime [of "g_engine g" k _ None]
  by (auto simp: wg_persist_def Let_def split: option.splits) (auto simp: good_def)

lemma good_drop_victims: "good c s \<Longrightarrow> good c (drop_victims ks s)"
proof (induction ks s rule: drop_victims.induct)
  case (2 k ks s)
  have "good c (s'\<lparr>e_expired_keys := n\<rparr>)" if "good c s'" for s' n
    using that engine_inv_frame by (auto simp: good_def index_covers_def)
  then show ?case using 2 by (simp add: Let_def)
qed simp

lemma good_sweep: "good c s \<Longrightarrow> good c (snd (kv_sweep_expired v n s))"
proof -
  assume g: "good c s"
  then have "good c (s\<lparr>e_sweep_cursor := m\<rparr>)" for m
    using engine_inv_frame by (auto simp: good_def index_covers_def)
  then show ?thesis using g by (simp add: kv_sweep_expired_def Let_def good_drop_victims)
qed

section \<open>Steps and reachable states\<close>

fun op_bytes :: "engine_op \<Rightarrow> nat" where
  "op_bytes (OSet k val) = length k + length val + PER_ENTRY_OVERHEAD"
| "op_bytes (OSetNx k val) = length k + length val + PER_ENTRY_OVERHEAD"
| "op_bytes (OMset ps) = pairs_bytes ps"
| "op_bytes (OIncrBy k d) = length k + 20 + PER_ENTRY_OVERHEAD"
| "op_bytes (OAppend k x) = length k + length x + PER_ENTRY_OVERHEAD"
| "op_bytes _ = 0"

lemma snd_reply_of [simp]: "snd (reply_of f p) = snd p"
  by (cases p) (simp add: reply_of_def split: sum.splits)

lemma run_op_good:
  assumes "good c s" "headroom s (op_bytes op)" "fst c \<Longrightarrow> \<forall>k. op \<noteq> OPersist k"
  shows "good c (snd (run_op v v2 op s))"
proof (cases op)
  case (OPersist k)
  then have "\<not> fst c" using assms(3) by blast
  then show ?thesis using OPersist assms(1) good_persist [of c "wg_begin s" v k]
    by (simp add: kv_persist_def case_prod_unfold Let_def)
qed (use assms(1,2) in \<open>auto simp: kv_set_def kv_set_nx_def kv_mset_def kv_get_def kv_mget_def kv_exists_def
    kv_exists_many_def kv_strlen_def kv_ttl_ms_def kv_memory_usage_def kv_del_def kv_del_many_def
    kv_flushdb_def kv_expire_at_ms_def wg_remove_def wg_remove_many_def wg_clear_def
    case_prod_unfold Let_def good_insert good_insert_nx good_insert_many good_incr_by good_append
    good_mget_scan good_exists_scan good_fetch_all good_contains_all good_remove_keys good_log_dels
    good_sweep split: probe.splits\<close>)

inductive engine_step :: "engine \<Rightarrow> engine \<Rightarrow> bool" where
  step_op: "headroom s (op_bytes op) \<Longrightarrow> engine_step s (snd (run_op v v2 op s))"
| step_config: "engine_step s (set_eviction_config cfg s)"
| step_requirepass: "engine_step s (set_requirepass pw s)"
| step_aof: "engine_step s (s\<lparr>e_aof := w\<rparr>)"
| step_rehash: "mset st = mset (e_store s) \<Longrightarrow> engine_step s (s\<lparr>e_store := st\<rparr>)"

inductive reachable :: "engine \<Rightarrow> bool" where
  reach_new: "reachable (engine_new rnd epoch_nanos)"
| reach_step: "reachable s \<Longrightarrow> engine_step s s' \<Longrightarrow> reachable s'"

inductive_cases engine_stepE: "engine_step s s'"

lemma rng_seed_nonzero: "rng_seed n \<noteq> 0"
proof -
  have "bit ((x :: u32) OR 1) 0" for x by (simp add: bit_simps)
  then show ?thesis unfolding rng_seed_def by (metis bit_0_eq bot_apply bot_bool_def)
qed

lemma good_rehash:
  assumes "good c s" "mset st = mset (e_store s)"
  shows "good c (s\<lparr>e_store := st\<rparr>)"
proof -
  have m: "map_of st = map_of (e_store s)"
    using map_of_perm [OF good_wk [OF assms(1)] assms(2) [symmetric]] by simp
  have "mset (keys_of st) = mset (keys_of (e_store s))" using assms(2) by simp
  then have "well_keyed st" using good_wk [OF assms(1)] mset_eq_imp_distinct_iff by blast
  moreover have "total entry_bytes st = total entry_bytes (e_store s)" by (rule total_perm [OF assms(2)])
  moreover have "eligible st sc k = eligible (e_store s) sc k" for sc k using m by (simp add: eligible_def)
  ultimately show ?thesis
    using assms(1)
    by (auto simp: good_def engine_inv_def memory_ok_def index_ok_def auth_ok_def index_covers_def)
qed

lemma engine_step_inv:
  assumes "engine_step s s'" "engine_inv s"
  shows "engine_inv s'"
  using assms
proof (cases rule: engine_step.cases)
  case (step_op op v v2)
  then show ?thesis using run_op_good [of "(False, e_eviction s)" s op v v2] assms(2) by (simp add: good_def)
next
  case (step_aof w)
  then show ?thesis using assms(2) engine_inv_frame [of s "s\<lparr>e_aof := w\<rparr>"] by simp
next
  case (step_rehash st)
  then show ?thesis using good_rehash [of "(False, e_eviction s)" s st] assms(2) by (simp add: good_def)
qed (use assms(2) in simp_all)

lemma reachable_inv: "reachable s \<Longrightarrow> engine_inv s"
  by (induction rule: reachable.induct) (simp_all add: engine_inv_new rng_seed_nonzero engine_step_inv)

text \<open>Switching to a policy with an index covers the keyspace at once.\<close>

lemma set_eviction_config_covers:
  assumes "engine_inv s" "index_covers s \<or> policy_index_kind (policy cfg) \<noteq> e_index_kind s"
  shows "index_covers (set_eviction_config cfg s)"
proof -
  have wk: "well_keyed (e_store s)" by (rule engine_invD [OF assms(1)])
  have kinds: "policy_index_kind p = policy_index_kind q \<Longrightarrow> is_sieve (policy_index_kind q)
      \<or> is_ac (policy_index_kind q) \<Longrightarrow> policy_scope p = policy_scope q" for p q
    by (cases p; cases q) (simp_all add: is_sieve_def is_ac_def)
  show ?thesis
    using assms kinds [of "policy cfg" "policy (e_eviction s)"]
    by (auto simp: set_eviction_config_def Let_def index_covers_def engine_inv_def index_ok_def
        sv.keys_rebuild [OF wk] ac.keys_rebuild [OF wk] policy_kind_not_both)
qed

section \<open>Traces\<close>

text \<open>A run of commands, each with the environments of its two critical sections.\<close>

type_synonym trace = "(env \<times> env \<times> engine_op) list"

fun run_trace :: "trace \<Rightarrow> engine \<Rightarrow> reply list \<times> engine" where
  "run_trace [] s = ([], s)"
| "run_trace ((v, v2, op) # tr) s =
     (let (r, s1) = run_op v v2 op s; (rs, s2) = run_trace tr s1 in (r # rs, s2))"

fun spec_trace :: "trace \<Rightarrow> kmap \<Rightarrow> reply list" where
  "spec_trace [] m = []"
| "spec_trace ((v, v2, op) # tr) m =
     (let (r, m1) = spec_step v op (expire_to (now v) m) in r # spec_trace tr m1)"

text \<open>Clocks do not run backwards, and the counter can hold what the commands add.\<close>

fun trace_ok :: "instant \<Rightarrow> trace \<Rightarrow> engine \<Rightarrow> bool" where
  "trace_ok t [] s = True"
| "trace_ok t ((v, v2, op) # tr) s =
     (env_ok v \<and> t \<le> now v \<and> now v \<le> now v2 \<and> headroom s (op_bytes op)
      \<and> trace_ok (now v) tr (snd (run_op v v2 op s)))"

lemma run_trace_refines:
  assumes "good (False, cfg) s" "max_memory cfg = 0" "trace_ok t tr s"
  shows "fst (run_trace tr s) = spec_trace tr (view t s)"
  using assms
proof (induction tr arbitrary: t s)
  case (Cons x tr)
  obtain v v2 op where x: "x = (v, v2, op)" by (cases x)
  obtain r s1 where r: "run_op v v2 op s = (r, s1)" by (metis prod.exhaust)
  have ok: "env_ok v" "t \<le> now v" "now v \<le> now v2" "headroom s (op_bytes op)" "trace_ok (now v) tr s1"
    using Cons.prems(3) x r by auto
  have "good (False, cfg) s1" using run_op_good [OF Cons.prems(1) ok(4), of v v2] r by simp
  from Cons.IH [OF this Cons.prems(2) ok(5)]
  have ih: "fst (run_trace tr s1) = spec_trace tr (view (now v) s1)" .
  have "map_prod id (view (now v)) (run_op v v2 op s) = spec_step v op (view (now v) s)"
    using run_op_refines_spec [of s v v2 op] Cons.prems(1,2) ok
    by (simp add: good_def unlimited_def)
  then show ?case using ih x r expire_to_vw [OF ok(2)] by (simp add: case_prod_unfold Let_def) (metis fst_conv snd_conv)
qed simp

section \<open>Writes under a memory limit\<close>

text \<open>
  With a limit, a write that succeeds stores its value and otherwise only loses keys; the ones it
  loses are those the policy evicted.
\<close>

lemma vw_mono: "map_of m' \<subseteq>\<^sub>m map_of m \<Longrightarrow> vw t m' \<subseteq>\<^sub>m vw t m"
  by (force simp: map_le_def vw_def dom_def split: option.splits if_splits)

lemma set_Ok_cases:
  assumes "engine_inv s" "kv_set v k val s = (Ok r, s')"
  obtains g where "wg_enforce v k (length val) (wg_begin s) = (Ok (), g)"
    "e_store s' = AList.update k (entry_new v val) (e_store (g_engine g))"
    "e_used_memory s' = e_used_memory (g_engine (wg_put k (entry_new v val) (wg_log (append_set k val) g)))"
proof -
  obtain q g where e: "wg_enforce v k (length val) (wg_begin s) = (q, g)" by (metis prod.exhaust)
  then have q: "q = Ok ()"
    using assms(2) by (cases q) (auto simp: kv_set_def wg_insert_def split: sum.splits)
  have "s' = wg_drop (wg_put k (entry_new v val) (wg_log (append_set k val) g))"
    using assms(2) e q by (auto simp: kv_set_def wg_insert_def Let_def split: sum.splits)
  then show thesis using that e q by simp
qed

end
