(* ===== verification/Parser.thy ===== *)
theory Parser
  imports AofWriter
begin

text \<open>
  Models \<^verbatim>\<open>src/src/protocol/parser.rs\<close>: the commands, the incremental RESP2 frame parser and the
  command builder, and \<^verbatim>\<open>Command::args\<close>, which turns a command back into its argument vector.
  Positions are indexes into the receive buffer, as in the code.

  The parser of \<^verbatim>\<open>f64\<close> literals is an argument of the command builder. Error messages are those
  of the code, less the text the \<^verbatim>\<open>{:?}\<close> formatter makes of a received byte or string.
\<close>

section \<open>UTF-8\<close>

definition byte_in :: "nat \<Rightarrow> nat \<Rightarrow> byte \<Rightarrow> bool" where
  "byte_in lo hi c \<longleftrightarrow> lo \<le> (of_char c :: nat) \<and> (of_char c :: nat) \<le> hi"

fun utf8_valid :: "bytes \<Rightarrow> bool" where
  "utf8_valid [] = True"
| "utf8_valid (a # as) =
     (if byte_in 0x00 0x7F a then utf8_valid as
      else case as of
        [] \<Rightarrow> False
      | b # bs \<Rightarrow>
          if byte_in 0xC2 0xDF a then byte_in 0x80 0xBF b \<and> utf8_valid bs
          else case bs of
            [] \<Rightarrow> False
          | c # cs \<Rightarrow>
              if byte_in 0xE0 0xEF a then
                byte_in (if of_char a = (0xE0::nat) then 0xA0 else 0x80)
                        (if of_char a = (0xED::nat) then 0x9F else 0xBF) b
                \<and> byte_in 0x80 0xBF c \<and> utf8_valid cs
              else case cs of
                [] \<Rightarrow> False
              | d # ds \<Rightarrow>
                  byte_in 0xF0 0xF4 a
                  \<and> byte_in (if of_char a = (0xF0::nat) then 0x90 else 0x80)
                            (if of_char a = (0xF4::nat) then 0x8F else 0xBF) b
                  \<and> byte_in 0x80 0xBF c \<and> byte_in 0x80 0xBF d \<and> utf8_valid ds)"

text \<open>\<^verbatim>\<open>String::from_utf8_lossy\<close>: every maximal ill-formed run becomes one U+FFFD. The length of such
  a run at the head of the input, or 0 when the head is a well-formed character.\<close>

definition replacement_char :: bytes where
  "replacement_char = [CHR 0xEF, CHR 0xBF, CHR 0xBD]"

fun starts_with :: "(byte \<Rightarrow> bool) \<Rightarrow> bytes \<Rightarrow> bool" where
  "starts_with P [] = False"
| "starts_with P (b # bs) = P b"

definition second_byte_ok :: "byte \<Rightarrow> byte \<Rightarrow> bool" where
  "second_byte_ok a = byte_in
     (if of_char a = (0xE0::nat) then 0xA0 else if of_char a = (0xF0::nat) then 0x90 else 0x80)
     (if of_char a = (0xED::nat) then 0x9F else if of_char a = (0xF4::nat) then 0x8F else 0xBF)"

definition utf8_char :: "byte \<Rightarrow> bytes \<Rightarrow> bool \<times> nat" where
  "utf8_char a bs =
     (let cont = byte_in 0x80 0xBF in
      if byte_in 0x00 0x7F a then (True, 0)
      else if byte_in 0xC2 0xDF a then
        (if starts_with cont bs then (True, 1) else (False, 0))
      else if byte_in 0xE0 0xEF a then
        (if \<not> starts_with (second_byte_ok a) bs then (False, 0)
         else if \<not> starts_with cont (drop 1 bs) then (False, 1) else (True, 2))
      else if byte_in 0xF0 0xF4 a then
        (if \<not> starts_with (second_byte_ok a) bs then (False, 0)
         else if \<not> starts_with cont (drop 1 bs) then (False, 1)
         else if \<not> starts_with cont (drop 2 bs) then (False, 2) else (True, 3))
      else (False, 0))"

function from_utf8_lossy :: "bytes \<Rightarrow> bytes" where
  "from_utf8_lossy [] = []"
| "from_utf8_lossy (a # bs) =
     (let (ok, n) = utf8_char a bs
      in (if ok then a # take n bs else replacement_char) @ from_utf8_lossy (drop n bs))"
  by pat_completeness auto
termination by (relation "measure length") auto

section \<open>Commands\<close>

datatype 'f command =
    Set bytes bytes
  | SetNx bytes bytes
  | MSet "(bytes \<times> bytes) list"
  | MGet "bytes list"
  | IncrBy bytes int
  | IncrByFloat bytes 'f
  | Get bytes
  | Del "bytes list"
  | Exists "bytes list"
  | Ping "bytes option"
  | Append bytes bytes
  | StrLen bytes
  | DbSize
  | FlushDb
  | Expire bytes int
  | PExpire bytes int
  | PExpireAt bytes int
  | Persist bytes
  | Ttl bytes
  | PTtl bytes
  | MemoryUsage bytes
  | Info "bytes option"
  | Config bytes "bytes list"
  | Auth bytes
  | SlowLog bytes "bytes list"
  | RewriteAof
  | Monitor
  | Hello "nat option"

fun command_args :: "('f \<Rightarrow> bytes) \<Rightarrow> 'f command \<Rightarrow> bytes list" where
  "command_args fs (Set k v) = [''SET'', k, v]"
| "command_args fs (SetNx k v) = [''SETNX'', k, v]"
| "command_args fs (MSet pairs) = ''MSET'' # concat (map (\<lambda>(k, v). [k, v]) pairs)"
| "command_args fs (MGet ks) = ''MGET'' # ks"
| "command_args fs (IncrBy k d) = [''INCRBY'', k, show_int d]"
| "command_args fs (IncrByFloat k d) = [''INCRBYFLOAT'', k, fs d]"
| "command_args fs (Get k) = [''GET'', k]"
| "command_args fs (Del ks) = ''DEL'' # ks"
| "command_args fs (Exists ks) = ''EXISTS'' # ks"
| "command_args fs (Ping m) = (case m of None \<Rightarrow> [''PING''] | Some x \<Rightarrow> [''PING'', x])"
| "command_args fs (Append k v) = [''APPEND'', k, v]"
| "command_args fs (StrLen k) = [''STRLEN'', k]"
| "command_args fs DbSize = [''DBSIZE'']"
| "command_args fs FlushDb = [''FLUSHDB'']"
| "command_args fs (Expire k n) = [''EXPIRE'', k, show_int n]"
| "command_args fs (PExpire k n) = [''PEXPIRE'', k, show_int n]"
| "command_args fs (PExpireAt k n) = [''PEXPIREAT'', k, show_int n]"
| "command_args fs (Persist k) = [''PERSIST'', k]"
| "command_args fs (Ttl k) = [''TTL'', k]"
| "command_args fs (PTtl k) = [''PTTL'', k]"
| "command_args fs (MemoryUsage k) = [''MEMORY'', ''USAGE'', k]"
| "command_args fs (Info s) = (case s of None \<Rightarrow> [''INFO''] | Some x \<Rightarrow> [''INFO'', x])"
| "command_args fs (Config sub as) = ''CONFIG'' # sub # as"
| "command_args fs (Auth p) = [''AUTH'', p]"
| "command_args fs (SlowLog sub as) = ''SLOWLOG'' # sub # as"
| "command_args fs RewriteAof = [''BGREWRITEAOF'']"
| "command_args fs Monitor = [''MONITOR'']"
| "command_args fs (Hello ver) = (case ver of None \<Rightarrow> [''HELLO''] | Some x \<Rightarrow> [''HELLO'', show_nat x])"

definition args_redacted :: "('f \<Rightarrow> bytes) \<Rightarrow> 'f command \<Rightarrow> bytes list" where
  "args_redacted fs cmd =
     (case cmd of Auth _ \<Rightarrow> [''AUTH'', ''***''] | _ \<Rightarrow> command_args fs cmd)"

section \<open>Building a command\<close>

definition ascii_uppercase :: "bytes \<Rightarrow> bytes" where
  "ascii_uppercase bs = map ascii_upper bs"

definition parse_integer_argument :: "bytes \<Rightarrow> int result" where
  "parse_integer_argument bs =
     (case parse_i64 bs of
        None \<Rightarrow> Err (ParseError ''value is not an integer or out of range'')
      | Some n \<Rightarrow> Ok n)"

definition parse_float_argument :: "(bytes \<Rightarrow> 'f option) \<Rightarrow> bytes \<Rightarrow> 'f result" where
  "parse_float_argument fp bs =
     (case fp bs of None \<Rightarrow> Err (ParseError ''value is not a valid float'') | Some x \<Rightarrow> Ok x)"

fun pair_up :: "bytes list \<Rightarrow> (bytes \<times> bytes) list" where
  "pair_up (k # v # rest) = (k, v) # pair_up rest"
| "pair_up _ = []"

text \<open>The arms that take one key, one key and a value, and one key and a number.\<close>

definition with_key :: "string \<Rightarrow> (bytes \<Rightarrow> 'f command) \<Rightarrow> bytes list \<Rightarrow> 'f command result" where
  "with_key cmd f args = (case args of [k] \<Rightarrow> Ok (f k) | _ \<Rightarrow> Err (WrongArity cmd))"

definition with_key_value ::
  "string \<Rightarrow> (bytes \<Rightarrow> bytes \<Rightarrow> 'f command) \<Rightarrow> bytes list \<Rightarrow> 'f command result" where
  "with_key_value cmd f args = (case args of [k, v] \<Rightarrow> Ok (f k v) | _ \<Rightarrow> Err (WrongArity cmd))"

definition with_key_int ::
  "string \<Rightarrow> (bytes \<Rightarrow> int \<Rightarrow> 'f command) \<Rightarrow> bytes list \<Rightarrow> 'f command result" where
  "with_key_int cmd f args =
     (case args of
        [k, x] \<Rightarrow> (case parse_integer_argument x of Inl e \<Rightarrow> Err e | Inr n \<Rightarrow> Ok (f k n))
      | _ \<Rightarrow> Err (WrongArity cmd))"

text \<open>\<^verbatim>\<open>build_command\<close> in three parts of its \<^verbatim>\<open>match\<close>; \<open>None\<close> means the name is handled elsewhere.\<close>

definition build_data_command ::
  "(bytes \<Rightarrow> 'f option) \<Rightarrow> bytes \<Rightarrow> bytes list \<Rightarrow> 'f command result option" where
  "build_data_command fp upper args =
     (if upper = ''SET'' then Some (with_key_value ''SET'' Set args)
      else if upper = ''SETNX'' then Some (with_key_value ''SETNX'' SetNx args)
      else if upper = ''MSET'' then
        Some (if args = [] \<or> odd (length args) then Err (WrongArity ''MSET'')
              else Ok (MSet (pair_up args)))
      else if upper = ''MGET'' then
        Some (if args = [] then Err (WrongArity ''MGET'') else Ok (MGet args))
      else if upper = ''INCR'' then Some (with_key ''INCR'' (\<lambda>k. IncrBy k 1) args)
      else if upper = ''DECR'' then Some (with_key ''DECR'' (\<lambda>k. IncrBy k (- 1)) args)
      else if upper = ''INCRBY'' then Some (with_key_int ''INCRBY'' IncrBy args)
      else if upper = ''DECRBY'' then
        Some (case args of
          [k, x] \<Rightarrow>
            (case parse_integer_argument x of
               Inl e \<Rightarrow> Err e
             | Inr raw \<Rightarrow>
                 (case checked_i64 (- raw) of
                    None \<Rightarrow> Err (ParseError ''value is not an integer or out of range'')
                  | Some d \<Rightarrow> Ok (IncrBy k d)))
        | _ \<Rightarrow> Err (WrongArity ''DECRBY''))
      else if upper = ''INCRBYFLOAT'' then
        Some (case args of
          [k, x] \<Rightarrow> (case parse_float_argument fp x of Inl e \<Rightarrow> Err e | Inr d \<Rightarrow> Ok (IncrByFloat k d))
        | _ \<Rightarrow> Err (WrongArity ''INCRBYFLOAT''))
      else None)"

definition build_key_command :: "bytes \<Rightarrow> bytes list \<Rightarrow> 'f command result option" where
  "build_key_command upper args =
     (if upper = ''GET'' then Some (with_key ''GET'' Get args)
      else if upper = ''DEL'' then
        Some (if args = [] then Err (WrongArity ''DEL'') else Ok (Del args))
      else if upper = ''EXISTS'' then
        Some (if args = [] then Err (WrongArity ''EXISTS'') else Ok (Exists args))
      else if upper = ''PING'' then
        Some (case args of [] \<Rightarrow> Ok (Ping None) | [m] \<Rightarrow> Ok (Ping (Some m))
              | _ \<Rightarrow> Err (WrongArity ''PING''))
      else if upper = ''APPEND'' then Some (with_key_value ''APPEND'' Append args)
      else if upper = ''STRLEN'' then Some (with_key ''STRLEN'' StrLen args)
      else if upper = ''DBSIZE'' then
        Some (if args \<noteq> [] then Err (WrongArity ''DBSIZE'') else Ok DbSize)
      else if upper = ''FLUSHDB'' then
        Some (if args \<noteq> [] then Err (WrongArity ''FLUSHDB'') else Ok FlushDb)
      else if upper = ''EXPIRE'' then Some (with_key_int ''EXPIRE'' Expire args)
      else if upper = ''PEXPIRE'' then Some (with_key_int ''PEXPIRE'' PExpire args)
      else if upper = ''PEXPIREAT'' then Some (with_key_int ''PEXPIREAT'' PExpireAt args)
      else if upper = ''PERSIST'' then Some (with_key ''PERSIST'' Persist args)
      else if upper = ''TTL'' then Some (with_key ''TTL'' Ttl args)
      else if upper = ''PTTL'' then Some (with_key ''PTTL'' PTtl args)
      else None)"

definition build_config :: "bytes \<Rightarrow> bytes list \<Rightarrow> 'f command result" where
  "build_config sub rest =
     (if ascii_uppercase sub = ''GET'' then
        (case rest of [p] \<Rightarrow> Ok (Config ''GET'' [p]) | _ \<Rightarrow> Err (WrongArity ''CONFIG GET''))
      else if ascii_uppercase sub = ''SET'' then
        (case rest of [p, v] \<Rightarrow> Ok (Config ''SET'' [p, v]) | _ \<Rightarrow> Err (WrongArity ''CONFIG SET''))
      else Err (UnknownCommand (''CONFIG '' @ from_utf8_lossy sub)))"

definition build_slowlog :: "bytes \<Rightarrow> bytes list \<Rightarrow> 'f command result" where
  "build_slowlog sub rest =
     (if ascii_uppercase sub = ''GET'' then
        (case rest of [] \<Rightarrow> Ok (SlowLog ''GET'' []) | [n] \<Rightarrow> Ok (SlowLog ''GET'' [n])
         | _ \<Rightarrow> Err (WrongArity ''SLOWLOG GET''))
      else if ascii_uppercase sub = ''LEN'' then
        (if rest \<noteq> [] then Err (WrongArity ''SLOWLOG LEN'') else Ok (SlowLog ''LEN'' []))
      else if ascii_uppercase sub = ''RESET'' then
        (if rest \<noteq> [] then Err (WrongArity ''SLOWLOG RESET'') else Ok (SlowLog ''RESET'' []))
      else Err (UnknownCommand (''SLOWLOG '' @ from_utf8_lossy sub)))"

definition build_admin_command :: "bytes \<Rightarrow> bytes list \<Rightarrow> 'f command result option" where
  "build_admin_command upper args =
     (if upper = ''MEMORY'' then
        Some (case args of
          sub # k # _ \<Rightarrow>
            if ascii_uppercase sub \<noteq> ''USAGE'' then Err (UnknownCommand (''MEMORY '' @ from_utf8_lossy sub))
            else Ok (MemoryUsage k)
        | _ \<Rightarrow> Err (WrongArity ''MEMORY''))
      else if upper = ''INFO'' then
        Some (case args of [] \<Rightarrow> Ok (Info None) | [s] \<Rightarrow> Ok (Info (Some s))
              | _ \<Rightarrow> Err (WrongArity ''INFO''))
      else if upper = ''CONFIG'' then
        Some (case args of [] \<Rightarrow> Err (WrongArity ''CONFIG'') | sub # rest \<Rightarrow> build_config sub rest)
      else if upper = ''AUTH'' then Some (with_key ''AUTH'' Auth args)
      else if upper = ''SLOWLOG'' then
        Some (case args of [] \<Rightarrow> Err (WrongArity ''SLOWLOG'') | sub # rest \<Rightarrow> build_slowlog sub rest)
      else if upper = ''BGREWRITEAOF'' then
        Some (if args \<noteq> [] then Err (WrongArity ''BGREWRITEAOF'') else Ok RewriteAof)
      else if upper = ''MONITOR'' then
        Some (if args \<noteq> [] then Err (WrongArity ''MONITOR'') else Ok Monitor)
      else if upper = ''HELLO'' then
        Some (case args of
          [] \<Rightarrow> Ok (Hello None)
        | [ver] \<Rightarrow> if ver = ''2'' then Ok (Hello (Some 2)) else if ver = ''3'' then Ok (Hello (Some 3))
                  else Err (ParseError ''NOPROTO unsupported protocol version'')
        | _ \<Rightarrow> Err (WrongArity ''HELLO''))
      else None)"

definition build_command :: "(bytes \<Rightarrow> 'f option) \<Rightarrow> bytes list \<Rightarrow> 'f command result" where
  "build_command fp parts =
     (let name = hd parts; args = tl parts; upper = ascii_uppercase name in
      case build_data_command fp upper args of Some r \<Rightarrow> r | None \<Rightarrow>
      case build_key_command upper args of Some r \<Rightarrow> r | None \<Rightarrow>
      case build_admin_command upper args of Some r \<Rightarrow> r | None \<Rightarrow>
      Err (UnknownCommand (from_utf8_lossy name)))"

section \<open>Frames\<close>

datatype 'f frame_parse =
    Complete "'f command" nat
  | Invalid ferrum_error nat
  | Incomplete

definition MAX_ARRAY_ELEMENTS :: nat where "MAX_ARRAY_ELEMENTS = 1048576"
definition MAX_BULK_LEN :: int where "MAX_BULK_LEN = 536870912"

fun crlf_pos :: "bytes \<Rightarrow> nat option" where
  "crlf_pos (a # b # bs) =
     (if a = CR \<and> b = LF then Some 0 else map_option Suc (crlf_pos (b # bs)))"
| "crlf_pos _ = None"

definition find_crlf :: "bytes \<Rightarrow> nat \<Rightarrow> nat option" where
  "find_crlf buf from =
     (if from \<ge> length buf then None
      else map_option (\<lambda>pos. pos + from) (crlf_pos (drop from buf)))"

definition read_integer_line :: "bytes \<Rightarrow> nat \<Rightarrow> (int \<times> nat) option result" where
  "read_integer_line buf start =
     (case find_crlf buf start of
        None \<Rightarrow> Ok None
      | Some crlf \<Rightarrow>
          let slice = take (crlf - start) (drop start buf) in
          if \<not> utf8_valid slice then Err (ParseError ''non-ASCII length prefix'')
          else (case parse_i64 slice of
                  None \<Rightarrow> Err (ParseError ''invalid integer'')
                | Some val \<Rightarrow> Ok (Some (val, crlf + 2))))"

definition read_bulk_string :: "bytes \<Rightarrow> nat \<Rightarrow> (bytes \<times> nat) option result" where
  "read_bulk_string buf start =
     (if start \<ge> length buf then Ok None
      else if buf ! start \<noteq> CHR ''$'' then Err (ParseError ''expected '$' at start of bulk string'')
      else case read_integer_line buf (start + 1) of
        Inl e \<Rightarrow> Err e
      | Inr None \<Rightarrow> Ok None
      | Inr (Some (len, after_len)) \<Rightarrow>
          if len < 0 then Err (ParseError ''null bulk string is not allowed in requests'')
          else if len > MAX_BULK_LEN then Err (ParseError (''bulk string too large ('' @ show_int len @ '' bytes)''))
          else
            let payload_end = after_len + nat len in
            if length buf < payload_end + 2 then Ok None
            else if take 2 (drop payload_end buf) \<noteq> CRLF
            then Err (ParseError ''bulk string not terminated by CRLF'')
            else Ok (Some (take (nat len) (drop after_len buf), payload_end + 2)))"

fun read_bulks :: "nat \<Rightarrow> bytes \<Rightarrow> nat \<Rightarrow> (bytes list \<times> nat) option result" where
  "read_bulks 0 buf cursor = Ok (Some ([], cursor))"
| "read_bulks (Suc n) buf cursor =
     (case read_bulk_string buf cursor of
        Inl e \<Rightarrow> Err e
      | Inr None \<Rightarrow> Ok None
      | Inr (Some (s, nxt)) \<Rightarrow>
          (case read_bulks n buf nxt of
             Inl e \<Rightarrow> Err e
           | Inr None \<Rightarrow> Ok None
           | Inr (Some (ss, fin)) \<Rightarrow> Ok (Some (s # ss, fin))))"

definition parse_frame :: "(bytes \<Rightarrow> 'f option) \<Rightarrow> bytes \<Rightarrow> 'f frame_parse result" where
  "parse_frame fp buf =
     (if buf = [] then Ok Incomplete
      else if hd buf \<noteq> CHR ''*'' then Err (ParseError ''expected '*' at start of RESP array'')
      else case read_integer_line buf 1 of
        Inl e \<Rightarrow> Err e
      | Inr None \<Rightarrow> Ok Incomplete
      | Inr (Some (n, cursor)) \<Rightarrow>
          if n < 1 then 
            Err (ParseError (''RESP array must contain at least one element, got '' @ show_int n))
          else if nat n > MAX_ARRAY_ELEMENTS then 
            Err (ParseError (''RESP array too large ('' @ show_int n @ '' elements, max '' @
              show_nat MAX_ARRAY_ELEMENTS @ '')''))
          else (case read_bulks (nat n) buf cursor of
                  Inl e \<Rightarrow> Err e
                | Inr None \<Rightarrow> Ok Incomplete
                | Inr (Some (parts, fin)) \<Rightarrow>
                    (case build_command fp parts of
                       Inl e \<Rightarrow> Ok (Invalid e fin)
                     | Inr cmd \<Rightarrow> Ok (Complete cmd fin))))"

section \<open>Stability: further input never changes a decided frame\<close>

lemma crlf_pos_bound: "crlf_pos bs = Some p \<Longrightarrow> p + 2 \<le> length bs"
  by (induction bs arbitrary: p rule: crlf_pos.induct) (auto split: if_splits)

lemma crlf_pos_append: "crlf_pos bs = Some p \<Longrightarrow> crlf_pos (bs @ tail) = Some p"
  by (induction bs arbitrary: p rule: crlf_pos.induct) (auto split: if_splits)

lemma find_crlf_bound: "find_crlf buf from = Some p \<Longrightarrow> from \<le> p \<and> p + 2 \<le> length buf"
  by (auto simp: find_crlf_def split: if_splits dest!: crlf_pos_bound)

lemma find_crlf_append: "find_crlf buf from = Some p \<Longrightarrow> find_crlf (buf @ tail) from = Some p"
  by (auto simp: find_crlf_def crlf_pos_append split: if_splits)

lemma read_integer_line_append:
  assumes "read_integer_line buf start \<noteq> Ok None"
  shows "read_integer_line (buf @ tail) start = read_integer_line buf start"
proof -
  obtain p where p: "find_crlf buf start = Some p"
    using assms by (cases "find_crlf buf start") (auto simp: read_integer_line_def)
  have slice: "take (p - start) (drop start (buf @ tail)) = take (p - start) (drop start buf)"
    using find_crlf_bound [OF p] by simp
  show ?thesis unfolding read_integer_line_def p find_crlf_append [OF p] option.case slice ..
qed

lemma read_integer_line_bound:
  "read_integer_line buf start = Ok (Some (n, nxt)) \<Longrightarrow> start < nxt \<and> nxt \<le> length buf"
  using find_crlf_bound by (fastforce simp: read_integer_line_def Let_def split: option.splits if_splits)

lemma read_bulk_string_append:
  assumes "read_bulk_string buf start \<noteq> Ok None"
  shows "read_bulk_string (buf @ tail) start = read_bulk_string buf start"
proof -
  have lt: "start < length buf" using assms by (auto simp: read_bulk_string_def split: if_splits)
  show ?thesis
  proof (cases "buf ! start = CHR ''$''")
    case False
    then show ?thesis using lt by (simp add: read_bulk_string_def nth_append)
  next
    case True
    have nn: "read_integer_line buf (start + 1) \<noteq> Ok None"
      using assms True lt by (auto simp: read_bulk_string_def)
    show ?thesis
      using assms True lt read_integer_line_append [OF nn, of tail] read_integer_line_bound
      by (auto simp: read_bulk_string_def nth_append Let_def split: sum.splits option.splits if_splits)
  qed
qed

lemma read_bulk_string_bound:
  "read_bulk_string buf start = Ok (Some (p, nxt)) \<Longrightarrow> start < nxt \<and> nxt \<le> length buf"
  by (auto simp: read_bulk_string_def Let_def split: if_splits sum.splits option.splits
      dest!: read_integer_line_bound)

lemma read_bulks_append:
  "read_bulks n buf c \<noteq> Ok None \<Longrightarrow> read_bulks n (buf @ tail) c = read_bulks n buf c"
proof (induction n arbitrary: c)
  case (Suc n)
  then have "read_bulk_string buf c \<noteq> Ok None" by auto
  from read_bulk_string_append [OF this, of tail] show ?case
    using Suc by (auto split: sum.splits option.splits)
qed simp

lemma read_bulks_bound: "read_bulks n buf c = Ok (Some (ps, fin)) \<Longrightarrow> c \<le> length buf \<Longrightarrow> fin \<le> length buf"
proof (induction n arbitrary: c ps)
  case (Suc n)
  then show ?case by (auto split: sum.splits option.splits dest!: read_bulk_string_bound)
qed simp

lemma parse_frame_append:
  assumes "parse_frame fp buf \<noteq> Ok Incomplete"
  shows "parse_frame fp (buf @ tail) = parse_frame fp buf"
proof -
  have ne: "buf \<noteq> []" using assms by (auto simp: parse_frame_def)
  show ?thesis
  proof (cases "hd buf = CHR ''*''")
    case False
    then show ?thesis using ne by (simp add: parse_frame_def)
  next
    case True
    have "read_integer_line buf 1 \<noteq> Ok None" using assms True ne by (auto simp: parse_frame_def)
    note line = read_integer_line_append [OF this, of tail]
    show ?thesis
    proof (cases "read_integer_line buf 1")
      case (Inl e)
      then show ?thesis using line True ne by (simp add: parse_frame_def)
    next
      case (Inr r)
      then obtain n c where nc: "read_integer_line buf 1 = Ok (Some (n, c))"
        using assms True ne by (cases r) (auto simp: parse_frame_def)
      show ?thesis
        using assms line True ne nc read_bulks_append [of "nat n" buf c tail]
        by (cases "read_bulks (nat n) buf c") (auto simp: parse_frame_def split: if_splits option.splits)
    qed
  qed
qed

lemma parse_frame_consumed:
  "parse_frame fp buf = Ok (Complete cmd n) \<Longrightarrow> n \<le> length buf"
  "parse_frame fp buf = Ok (Invalid e n) \<Longrightarrow> n \<le> length buf"
  by (auto simp: parse_frame_def split: if_splits sum.splits option.splits
      dest!: read_integer_line_bound read_bulks_bound)

lemma read_bulks_advance: "read_bulks n buf c = Ok (Some (ps, fin)) \<Longrightarrow> c \<le> fin"
proof (induction n arbitrary: c ps)
  case (Suc n)
  then show ?case by (fastforce split: sum.splits option.splits dest!: read_bulk_string_bound)
qed simp

lemma parse_frame_positive:
  "parse_frame fp buf = Ok (Complete cmd n) \<Longrightarrow> 0 < n"
  "parse_frame fp buf = Ok (Invalid e n) \<Longrightarrow> 0 < n"
  by (auto simp: parse_frame_def split: if_splits sum.splits option.splits
      dest!: read_integer_line_bound read_bulks_advance)

section \<open>Decoding the encoder's output\<close>

lemma crlf_pos_plain:
  "\<forall>c\<in>set ds. c \<noteq> CR \<Longrightarrow> crlf_pos (ds @ CRLF @ post) = Some (length ds)"
proof (induction ds)
  case (Cons c ds)
  then show ?case by (cases ds) auto
qed simp

lemma utf8_digits: "\<forall>c\<in>set ds. is_digit c \<Longrightarrow> utf8_valid ds"
  by (induction ds) (auto simp: is_digit_def byte_in_def)

lemma show_nat_no_CR: "\<forall>c\<in>set (show_nat n). c \<noteq> CR"
  using show_nat_digits is_digit_not_special by blast

lemma read_integer_line_at:
  assumes "in_i64 (int n)"
  shows "read_integer_line (pre @ show_nat n @ CRLF @ post) (length pre)
     = Ok (Some (int n, length pre + length (show_nat n) + 2))"
proof -
  have "find_crlf (pre @ show_nat n @ CRLF @ post) (length pre) = Some (length pre + length (show_nat n))"
    using crlf_pos_plain [OF show_nat_no_CR, of n post] by (simp add: find_crlf_def)
  moreover have "utf8_valid (show_nat n)" using utf8_digits show_nat_digits by blast
  ultimately show ?thesis using assms by (simp add: read_integer_line_def)
qed

lemma read_bulk_string_at:
  assumes "int (length p) \<le> MAX_BULK_LEN"
  shows "read_bulk_string (pre @ encode_part p @ post) (length pre)
     = Ok (Some (p, length pre + length (encode_part p)))"
proof -
  let ?buf = "pre @ encode_part p @ post"
  have "in_i64 (int (length p))" using assms by (simp add: in_i64_def MAX_BULK_LEN_def)
  from read_integer_line_at [OF this, of "pre @ [CHR ''$'']" "p @ CRLF @ post"]
  have line: "read_integer_line ?buf (length pre + 1)
      = Ok (Some (int (length p), length pre + length (show_nat (length p)) + 3))"
    by (simp add: encode_part_def)
  have d: "drop (length pre + length (show_nat (length p)) + 3) ?buf = p @ CRLF @ post"
    by (simp add: encode_part_def numeral_3_eq_3)
  have d2: "drop (length pre + length (show_nat (length p)) + 3 + length p) ?buf = CRLF @ post"
    by (simp add: encode_part_def numeral_3_eq_3)
  have first: "?buf ! length pre = CHR ''$''" by (simp add: encode_part_def nth_append)
  have len: "length ?buf = length pre + length (show_nat (length p)) + 5 + length p + length post"
    by (simp add: encode_part_def)
  show ?thesis
    using assms line d d2 first len
    by (simp add: read_bulk_string_def Let_def MAX_BULK_LEN_def encode_part_def)
qed

lemma read_bulks_at:
  assumes "\<forall>p\<in>set ps. int (length p) \<le> MAX_BULK_LEN"
  shows "read_bulks (length ps) (pre @ concat (map encode_part ps) @ post) (length pre)
     = Ok (Some (ps, length pre + length (concat (map encode_part ps))))"
  using assms
proof (induction ps arbitrary: pre)
  case (Cons p ps)
  have "read_bulk_string (pre @ encode_part p @ concat (map encode_part ps) @ post) (length pre)
      = Ok (Some (p, length pre + length (encode_part p)))"
    using Cons.prems by (intro read_bulk_string_at) simp
  moreover have "read_bulks (length ps) ((pre @ encode_part p) @ concat (map encode_part ps) @ post)
      (length (pre @ encode_part p))
      = Ok (Some (ps, length (pre @ encode_part p) + length (concat (map encode_part ps))))"
    using Cons.prems by (intro Cons.IH) simp
  ultimately show ?case by simp
qed simp

definition frame_ok :: "bytes list \<Rightarrow> bool" where
  "frame_ok parts \<longleftrightarrow> parts \<noteq> [] \<and> length parts \<le> MAX_ARRAY_ELEMENTS
     \<and> (\<forall>p\<in>set parts. int (length p) \<le> MAX_BULK_LEN)"

lemma parse_frame_encode:
  assumes "frame_ok parts"
  shows "parse_frame fp (encode_command parts @ post) =
     (case build_command fp parts of
        Inl e \<Rightarrow> Ok (Invalid e (length (encode_command parts)))
      | Inr cmd \<Rightarrow> Ok (Complete cmd (length (encode_command parts))))"
proof -
  let ?body = "concat (map encode_part parts)"
  let ?n = "length parts"
  let ?pre = "CHR ''*'' # show_nat ?n @ CRLF"
  have i64: "in_i64 (int ?n)" using assms by (simp add: frame_ok_def MAX_ARRAY_ELEMENTS_def in_i64_def)
  have line: "read_integer_line (encode_command parts @ post) 1 = Ok (Some (int ?n, length ?pre))"
    using read_integer_line_at [OF i64, of "[CHR ''*'']" "?body @ post"] by (simp add: encode_command_def)
  have bulks: "read_bulks ?n (encode_command parts @ post) (length ?pre)
      = Ok (Some (parts, length (encode_command parts)))"
    using read_bulks_at [of parts ?pre post] assms by (simp add: encode_command_def frame_ok_def)
  show ?thesis
    using line bulks assms
    by (simp add: parse_frame_def frame_ok_def) (simp add: encode_command_def)
qed

lemma parse_frame_strict_prefix:
  assumes "frame_ok parts" "n < length (encode_command parts)"
  shows "parse_frame fp (take n (encode_command parts)) = Ok Incomplete"
proof (rule ccontr)
  let ?b = "take n (encode_command parts)"
  assume "parse_frame fp ?b \<noteq> Ok Incomplete"
  from parse_frame_append [OF this, of "drop n (encode_command parts)"]
  have "parse_frame fp ?b = (case build_command fp parts of
        Inl e \<Rightarrow> Ok (Invalid e (length (encode_command parts)))
      | Inr cmd \<Rightarrow> Ok (Complete cmd (length (encode_command parts))))"
    using parse_frame_encode [OF assms(1), of fp "[]"] by simp
  then show False
    using parse_frame_consumed [of fp ?b] assms(2) by (fastforce split: sum.splits)
qed

section \<open>Rebuilding a command from its arguments\<close>

text \<open>The commands the builder can produce.\<close>

fun command_ok :: "(bytes \<Rightarrow> 'f option) \<Rightarrow> ('f \<Rightarrow> bytes) \<Rightarrow> 'f command \<Rightarrow> bool" where
  "command_ok fp fs (MSet ps) = (ps \<noteq> [])"
| "command_ok fp fs (MGet ks) = (ks \<noteq> [])"
| "command_ok fp fs (Del ks) = (ks \<noteq> [])"
| "command_ok fp fs (Exists ks) = (ks \<noteq> [])"
| "command_ok fp fs (IncrBy k d) = in_i64 d"
| "command_ok fp fs (IncrByFloat k d) = (fp (fs d) = Some d)"
| "command_ok fp fs (Expire k n) = in_i64 n"
| "command_ok fp fs (PExpire k n) = in_i64 n"
| "command_ok fp fs (PExpireAt k n) = in_i64 n"
| "command_ok fp fs (Config sub as) =
     (sub = ''GET'' \<and> length as = 1 \<or> sub = ''SET'' \<and> length as = 2)"
| "command_ok fp fs (SlowLog sub as) =
     (sub = ''GET'' \<and> length as \<le> 1 \<or> (sub = ''LEN'' \<or> sub = ''RESET'') \<and> as = [])"
| "command_ok fp fs (Hello ver) = (ver = None \<or> ver = Some 2 \<or> ver = Some 3)"
| "command_ok fp fs _ = True"

lemma pair_up_concat [simp]: "pair_up (concat (map (\<lambda>(k, v). [k, v]) ps)) = ps"
  by (induction ps) auto

lemma even_pairs [simp]: "even (length (concat (map (\<lambda>(k, v). [k, v]) ps)))"
  by (induction ps) auto

lemma upper_names [simp]:
  "ascii_uppercase ''SET'' = ''SET''"
  "ascii_uppercase ''SETNX'' = ''SETNX''"
  "ascii_uppercase ''MSET'' = ''MSET''"
  "ascii_uppercase ''MGET'' = ''MGET''"
  "ascii_uppercase ''INCRBY'' = ''INCRBY''"
  "ascii_uppercase ''INCRBYFLOAT'' = ''INCRBYFLOAT''"
  "ascii_uppercase ''GET'' = ''GET''"
  "ascii_uppercase ''DEL'' = ''DEL''"
  "ascii_uppercase ''EXISTS'' = ''EXISTS''"
  "ascii_uppercase ''PING'' = ''PING''"
  "ascii_uppercase ''APPEND'' = ''APPEND''"
  "ascii_uppercase ''STRLEN'' = ''STRLEN''"
  "ascii_uppercase ''DBSIZE'' = ''DBSIZE''"
  "ascii_uppercase ''FLUSHDB'' = ''FLUSHDB''"
  "ascii_uppercase ''EXPIRE'' = ''EXPIRE''"
  "ascii_uppercase ''PEXPIRE'' = ''PEXPIRE''"
  "ascii_uppercase ''PEXPIREAT'' = ''PEXPIREAT''"
  "ascii_uppercase ''PERSIST'' = ''PERSIST''"
  "ascii_uppercase ''TTL'' = ''TTL''"
  "ascii_uppercase ''PTTL'' = ''PTTL''"
  "ascii_uppercase ''MEMORY'' = ''MEMORY''"
  "ascii_uppercase ''USAGE'' = ''USAGE''"
  "ascii_uppercase ''INFO'' = ''INFO''"
  "ascii_uppercase ''CONFIG'' = ''CONFIG''"
  "ascii_uppercase ''AUTH'' = ''AUTH''"
  "ascii_uppercase ''SLOWLOG'' = ''SLOWLOG''"
  "ascii_uppercase ''LEN'' = ''LEN''"
  "ascii_uppercase ''RESET'' = ''RESET''"
  "ascii_uppercase ''BGREWRITEAOF'' = ''BGREWRITEAOF''"
  "ascii_uppercase ''MONITOR'' = ''MONITOR''"
  "ascii_uppercase ''HELLO'' = ''HELLO''"
  by (simp_all add: ascii_uppercase_def ascii_upper_def Let_def)

text \<open>The dispatch on the command name, arm by arm.\<close>

lemma build_dispatch:
  "build_command fp (''SET'' # args) = with_key_value ''SET'' Set args"
  "build_command fp (''SETNX'' # args) = with_key_value ''SETNX'' SetNx args"
  "build_command fp (''MSET'' # args) = (if args = [] \<or> odd (length args) then Err (WrongArity
      ''MSET'') else Ok (MSet (pair_up args)))"
  "build_command fp (''MGET'' # args) = (if args = [] then Err (WrongArity ''MGET'') else Ok (MGet
      args))"
  "build_command fp (''DEL'' # args) = (if args = [] then Err (WrongArity ''DEL'') else Ok (Del
      args))"
  "build_command fp (''EXISTS'' # args) = (if args = [] then Err (WrongArity ''EXISTS'') else Ok
      (Exists args))"
  "build_command fp (''INCRBY'' # args) = with_key_int ''INCRBY'' IncrBy args"
  "build_command fp (''INCRBYFLOAT'' # args) = (case args of [k, x] \<Rightarrow> (case
      parse_float_argument fp x of Inl e \<Rightarrow> Err e | Inr d \<Rightarrow> Ok (IncrByFloat k
      d)) | _ \<Rightarrow> Err (WrongArity ''INCRBYFLOAT''))"
  "build_command fp (''GET'' # args) = with_key ''GET'' Get args"
  "build_command fp (''PING'' # args) = (case args of [] \<Rightarrow> Ok (Ping None) | [m]
      \<Rightarrow> Ok (Ping (Some m)) | _ \<Rightarrow> Err (WrongArity ''PING''))"
  "build_command fp (''APPEND'' # args) = with_key_value ''APPEND'' Append args"
  "build_command fp (''STRLEN'' # args) = with_key ''STRLEN'' StrLen args"
  "build_command fp (''DBSIZE'' # args) = (if args \<noteq> [] then Err (WrongArity ''DBSIZE'') else
      Ok DbSize)"
  "build_command fp (''FLUSHDB'' # args) = (if args \<noteq> [] then Err (WrongArity ''FLUSHDB'')
      else Ok FlushDb)"
  "build_command fp (''BGREWRITEAOF'' # args) = (if args \<noteq> [] then Err (WrongArity
      ''BGREWRITEAOF'') else Ok RewriteAof)"
  "build_command fp (''MONITOR'' # args) = (if args \<noteq> [] then Err (WrongArity ''MONITOR'')
      else Ok Monitor)"
  "build_command fp (''EXPIRE'' # args) = with_key_int ''EXPIRE'' Expire args"
  "build_command fp (''PEXPIRE'' # args) = with_key_int ''PEXPIRE'' PExpire args"
  "build_command fp (''PEXPIREAT'' # args) = with_key_int ''PEXPIREAT'' PExpireAt args"
  "build_command fp (''PERSIST'' # args) = with_key ''PERSIST'' Persist args"
  "build_command fp (''TTL'' # args) = with_key ''TTL'' Ttl args"
  "build_command fp (''PTTL'' # args) = with_key ''PTTL'' PTtl args"
  "build_command fp (''MEMORY'' # args) = (case args of sub # k # _ \<Rightarrow> if ascii_uppercase
      sub \<noteq> ''USAGE'' then Err (UnknownCommand (''MEMORY '' @ from_utf8_lossy sub)) else Ok (MemoryUsage k) |
      _ \<Rightarrow> Err (WrongArity ''MEMORY''))"
  "build_command fp (''INFO'' # args) = (case args of [] \<Rightarrow> Ok (Info None) | [s]
      \<Rightarrow> Ok (Info (Some s)) | _ \<Rightarrow> Err (WrongArity ''INFO''))"
  "build_command fp (''CONFIG'' # args) = (case args of [] \<Rightarrow> Err (WrongArity ''CONFIG'')
      | sub # rest \<Rightarrow> build_config sub rest)"
  "build_command fp (''AUTH'' # args) = with_key ''AUTH'' Auth args"
  "build_command fp (''SLOWLOG'' # args) = (case args of [] \<Rightarrow> Err (WrongArity
      ''SLOWLOG'') | sub # rest \<Rightarrow> build_slowlog sub rest)"
  "build_command fp (''HELLO'' # args) = (case args of [] \<Rightarrow> Ok (Hello None) | [ver]
      \<Rightarrow> if ver = ''2'' then Ok (Hello (Some 2)) else if ver = ''3'' then Ok (Hello (Some
      3)) else Err (ParseError ''NOPROTO unsupported protocol version'') | _ \<Rightarrow> Err
      (WrongArity ''HELLO''))"
  by (simp_all add: build_command_def build_data_command_def build_key_command_def
      build_admin_command_def Let_def)

lemmas build_arm_defs = with_key_def with_key_value_def with_key_int_def parse_integer_argument_def
  parse_float_argument_def build_config_def build_slowlog_def

lemma length_one: "length as = Suc 0 \<longleftrightarrow> (\<exists>a. as = [a])"
  by (cases as) auto

lemma length_two: "length as = Suc (Suc 0) \<longleftrightarrow> (\<exists>a b. as = [a, b])"
  by (cases as; cases "tl as") auto

lemma show_protocol_version: "show_nat 2 = ''2''" "show_nat 3 = ''3''"
  by code_simp+

lemma build_command_args:
  assumes "command_ok fp fs cmd"
  shows "build_command fp (command_args fs cmd) = Ok cmd"
proof (cases cmd)
  case (Config sub as)
  then show ?thesis using assms
    by (auto simp: build_dispatch build_config_def numeral_2_eq_2 length_one length_two)
next
  case (SlowLog sub as)
  then have "as = [] \<or> (\<exists>a. as = [a])" using assms by (cases as) auto
  then show ?thesis using SlowLog assms by (auto simp: build_dispatch build_slowlog_def)
next
  case (MSet ps)
  then have "concat (map (\<lambda>(k, v). [k, v]) ps) \<noteq> []" using assms by (cases ps) auto
  then show ?thesis using MSet by (simp add: build_dispatch del: concat_eq_Nil_conv)
next
  case (Hello ver)
  then show ?thesis using assms by (auto simp: build_dispatch show_protocol_version)
qed (use assms in \<open>auto simp: build_dispatch build_arm_defs split: option.splits\<close>)

end
