(* ===== verification/Encoder.thy ===== *)
theory Encoder
  imports Parser
begin

text \<open>
  Models \<^verbatim>\<open>src/src/protocol/encoder.rs\<close>, the printed form of the errors of \<^verbatim>\<open>src/src/error/kind.rs\<close> and
  \<^verbatim>\<open>write_ferrum_error\<close> of \<^verbatim>\<open>src/src/network/server.rs\<close>. An encoder here is the bytes the code appends
  to its buffer. The second part is a reader's side: the values of RESP2 and RESP3, their encoding
  and a decoder, with the lemma that a decoder finds every value again and stops exactly at its end.
  The text the operating system gives for an I/O error is left out.
\<close>

section \<open>Encoders\<close>

definition encode_simple_string :: "bytes \<Rightarrow> bytes" where
  "encode_simple_string t = CHR ''+'' # t @ CRLF"

definition encode_error :: "bytes \<Rightarrow> bytes" where
  "encode_error message = CHR ''-'' # message @ CRLF"

definition encode_integer :: "int \<Rightarrow> bytes" where
  "encode_integer n = CHR '':'' # show_int n @ CRLF"

definition encode_bulk_string :: "bytes \<Rightarrow> bytes" where
  "encode_bulk_string payload = CHR ''$'' # show_nat (length payload) @ CRLF @ payload @ CRLF"

definition encode_null_bulk :: bytes where
  "encode_null_bulk = ''$-1'' @ CRLF"

definition encode_array_header :: "nat \<Rightarrow> bytes" where
  "encode_array_header n = CHR ''*'' # show_nat n @ CRLF"

definition encode_null :: bytes where
  "encode_null = ''_'' @ CRLF"

definition encode_boolean :: "bool \<Rightarrow> bytes" where
  "encode_boolean v = (if v then ''#t'' @ CRLF else ''#f'' @ CRLF)"

text \<open>\<open>fixed17\<close> is the value printed with seventeen decimals.\<close>

definition encode_double :: "bytes \<Rightarrow> bytes" where
  "encode_double fixed17 =
     (let t = rev (dropWhile (\<lambda>c. c = CHR ''0'') (rev fixed17)); buf = CHR '','' # t
      in buf @ (if last buf = CHR ''.'' then ''0'' else []) @ CRLF)"

definition encode_map_header :: "nat \<Rightarrow> bytes" where
  "encode_map_header n = CHR ''%'' # show_nat n @ CRLF"

section \<open>Errors on the wire\<close>

fun error_text :: "ferrum_error \<Rightarrow> bytes" where
  "error_text IoError = ''io error: ''"
| "error_text (Internal msg) = ''internal error: '' @ msg"
| "error_text (ParseError msg) = msg"
| "error_text (UnknownCommand cmd) = ''unknown command: '' @ [CHR 0x27] @ cmd @ [CHR 0x27]"
| "error_text (WrongArity cmd) =
     ''wrong number of arguments for '' @ [CHR 0x27] @ cmd @ [CHR 0x27] @ '' command''"
| "error_text (KeyTooLong len mx) =
     ''key too long ('' @ show_nat len @ '' bytes, max '' @ show_nat mx @ '')''"
| "error_text (ValueTooLarge len mx) =
     ''value too large ('' @ show_nat len @ '' bytes, max '' @ show_nat mx @ '')''"
| "error_text OutOfMemory = ''command not allowed when used memory > maxmemory''"
| "error_text (PersistenceError msg) = ''persistence error: '' @ msg"
| "error_text AofNotEnabled = ''BGREWRITEAOF cannot be issued when AOF is not enabled''"

definition sanitise :: "bytes \<Rightarrow> bytes" where
  "sanitise = map (\<lambda>c. if c = CR \<or> c = LF then CHR '' '' else c)"

definition write_ferrum_error :: "ferrum_error \<Rightarrow> bytes" where
  "write_ferrum_error err =
     (let tag = (case err of OutOfMemory \<Rightarrow> ''OOM'' | _ \<Rightarrow> ''ERR'')
      in encode_error (tag @ '' '' @ sanitise (error_text err)))"

section \<open>The values a client reads\<close>

datatype resp =
    VSimple bytes
  | VError bytes
  | VInteger int
  | VBulk bytes
  | VNullBulk
  | VArray "resp list"
  | VNull
  | VBoolean bool
  | VDouble bytes
  | VMap "resp list"

fun resp_encode :: "resp \<Rightarrow> bytes" where
  "resp_encode (VSimple t) = encode_simple_string t"
| "resp_encode (VError t) = encode_error t"
| "resp_encode (VInteger n) = encode_integer n"
| "resp_encode (VBulk b) = encode_bulk_string b"
| "resp_encode VNullBulk = encode_null_bulk"
| "resp_encode (VArray vs) = encode_array_header (length vs) @ concat (map resp_encode vs)"
| "resp_encode VNull = encode_null"
| "resp_encode (VBoolean b) = encode_boolean b"
| "resp_encode (VDouble t) = CHR '','' # t @ CRLF"
| "resp_encode (VMap vs) = encode_map_header (length vs div 2) @ concat (map resp_encode vs)"

definition one_line :: "bytes \<Rightarrow> bool" where
  "one_line t \<longleftrightarrow> (\<forall>c\<in>set t. c \<noteq> CR \<and> c \<noteq> LF)"

text \<open>A value of nesting depth at most \<open>n\<close>: lines hold no line end, a map has as many keys as values.\<close>

fun resp_ok :: "nat \<Rightarrow> resp \<Rightarrow> bool" where
  "resp_ok n (VSimple t) = one_line t"
| "resp_ok n (VError t) = one_line t"
| "resp_ok n (VDouble t) = one_line t"
| "resp_ok n (VArray vs) = (case n of 0 \<Rightarrow> False | Suc m \<Rightarrow> list_all (resp_ok m) vs)"
| "resp_ok n (VMap vs) = (case n of 0 \<Rightarrow> False | Suc m \<Rightarrow> even (length vs) \<and> list_all (resp_ok m) vs)"
| "resp_ok n _ = True"

fun cut_line :: "bytes \<Rightarrow> (bytes \<times> bytes) option" where
  "cut_line (a # b # bs) =
     (if a = CR \<and> b = LF then Some ([], bs)
      else map_option (\<lambda>(l, r). (a # l, r)) (cut_line (b # bs)))"
| "cut_line _ = None"

definition read_int :: "bytes \<Rightarrow> int option" where
  "read_int s = (case s of
      c # cs \<Rightarrow> if c = CHR ''-'' then map_option (\<lambda>n. - int n) (parse_digits cs)
                else map_option int (parse_digits s)
    | [] \<Rightarrow> None)"

fun take_values :: "(bytes \<Rightarrow> (resp \<times> bytes) option) \<Rightarrow> nat \<Rightarrow> bytes \<Rightarrow> (resp list \<times> bytes) option" where
  "take_values f 0 bs = Some ([], bs)"
| "take_values f (Suc n) bs =
     (case f bs of
        None \<Rightarrow> None
      | Some (v, bs') \<Rightarrow> map_option (\<lambda>(vs, r). (v # vs, r)) (take_values f n bs'))"

definition cut_bulk :: "int \<Rightarrow> bytes \<Rightarrow> (resp \<times> bytes) option" where
  "cut_bulk len rest =
     (if len = - 1 then Some (VNullBulk, rest)
      else if len < 0 \<or> length rest < nat len + 2 \<or> take 2 (drop (nat len) rest) \<noteq> CRLF then None
      else Some (VBulk (take (nat len) rest), drop (nat len + 2) rest))"

fun resp_decode :: "nat \<Rightarrow> bytes \<Rightarrow> (resp \<times> bytes) option" where
  "resp_decode n [] = None"
| "resp_decode n (c # bs) =
     (case cut_line bs of
        None \<Rightarrow> None
      | Some (line, rest) \<Rightarrow>
          if c = CHR ''+'' then Some (VSimple line, rest)
          else if c = CHR ''-'' then Some (VError line, rest)
          else if c = CHR '':'' then map_option (\<lambda>i. (VInteger i, rest)) (read_int line)
          else if c = CHR ''$'' then (case read_int line of None \<Rightarrow> None | Some len \<Rightarrow> cut_bulk len rest)
          else if c = CHR ''_'' then (if line = [] then Some (VNull, rest) else None)
          else if c = CHR ''#'' then
            (if line = ''t'' then Some (VBoolean True, rest)
             else if line = ''f'' then Some (VBoolean False, rest) else None)
          else if c = CHR '','' then Some (VDouble line, rest)
          else if c = CHR ''*'' then
            (case (parse_digits line, n) of
               (Some k, Suc m) \<Rightarrow> map_option (\<lambda>(vs, r). (VArray vs, r)) (take_values (resp_decode m) k rest)
             | _ \<Rightarrow> None)
          else if c = CHR ''%'' then
            (case (parse_digits line, n) of
               (Some k, Suc m) \<Rightarrow> map_option (\<lambda>(vs, r). (VMap vs, r)) (take_values (resp_decode m) (2 * k) rest)
             | _ \<Rightarrow> None)
          else None)"

section \<open>Framing\<close>

lemma one_line_simps [simp]:
  "one_line []" "one_line (c # t) \<longleftrightarrow> c \<noteq> CR \<and> c \<noteq> LF \<and> one_line t"
  "one_line (s @ t) \<longleftrightarrow> one_line s \<and> one_line t"
  by (auto simp: one_line_def)

lemma one_line_sanitise [simp]: "one_line (sanitise t)"
  by (auto simp: one_line_def sanitise_def)

lemma one_line_show_nat [simp]: "one_line (show_nat n)"
  by (auto simp: one_line_def dest!: show_nat_digits dest: is_digit_not_special)

lemma one_line_show_int [simp]: "one_line (show_int n)"
  by (auto simp: one_line_def dest!: show_int_chars dest: is_digit_not_special)

lemma cut_line_append [simp]: "one_line t \<Longrightarrow> cut_line (t @ CR # LF # rest) = Some (t, rest)"
  by (induction t rule: induct_list012) auto

lemma read_int_show_nat [simp]: "read_int (show_nat n) = Some (int n)"
  using show_nat_Cons [of n] parse_digits_show_nat [of n]
  by (auto simp: read_int_def dest!: is_digit_not_special simp del: parse_digits_show_nat)

lemma read_int_show_int [simp]: "read_int (show_int n) = Some n"
proof (cases "n < 0")
  case True
  then show ?thesis by (simp add: show_int_def read_int_def)
next
  case False
  then show ?thesis by (simp add: show_int_def)
qed

lemma cut_bulk_payload [simp]: "cut_bulk (int (length b)) (b @ CR # LF # rest) = Some (VBulk b, rest)"
  by (simp add: cut_bulk_def)

lemma null_bulk_line [simp]: "read_int ''-1'' = Some (- 1)" "cut_bulk (- 1) rest = Some (VNullBulk, rest)"
  by (simp_all add: read_int_def parse_digits_def is_digit_def digit_val_def cut_bulk_def)

lemma take_values_encode:
  assumes "\<And>v rest. v \<in> set vs \<Longrightarrow> f (resp_encode v @ rest) = Some (v, rest)"
  shows "take_values f (length vs) (concat (map resp_encode vs) @ rest) = Some (vs, rest)"
  using assms by (induction vs) auto

lemma resp_decode_encode: "resp_ok n v \<Longrightarrow> resp_decode n (resp_encode v @ rest) = Some (v, rest)"
proof (induction n v arbitrary: rest rule: resp_ok.induct)
  case (4 n vs)
  then obtain m where m: "n = Suc m" "list_all (resp_ok m) vs" by (auto split: nat.splits)
  then have "take_values (resp_decode m) (length vs) (concat (map resp_encode vs) @ rest) = Some (vs, rest)"
    using "4.IH" [of m] by (intro take_values_encode) (auto simp: list_all_iff)
  then show ?case using m by (simp add: encode_array_header_def)
next
  case (5 n vs)
  then obtain m where m: "n = Suc m" "even (length vs)" "list_all (resp_ok m) vs" by (auto split: nat.splits)
  then have "take_values (resp_decode m) (length vs) (concat (map resp_encode vs) @ rest) = Some (vs, rest)"
    using "5.IH" [of m] by (intro take_values_encode) (auto simp: list_all_iff)
  then show ?case using m by (simp add: encode_map_header_def)
qed (auto simp: encode_simple_string_def encode_error_def encode_integer_def encode_bulk_string_def
    encode_null_bulk_def encode_null_def encode_boolean_def)

end
