(* ===== verification/Config_File.thy ===== *)
theory Config_File
  imports Eviction AofWriter
begin

text \<open>
  Models \<^verbatim>\<open>src/src/config/file.rs\<close>, the Redis-style configuration file, and the textual form of the
  fsync policy (\<^verbatim>\<open>src/src/persistence/config.rs\<close>). A \<^verbatim>\<open>str\<close> is its UTF-8 bytes, a path is its bytes and
  \<^verbatim>\<open>usize\<close> has 64 bits. Reading the file is not modelled: the loader is given what the read returned,
  \<open>None\<close> when it failed. The lemmas on trimming and on byte sizes at the end serve the command line and
  \<^verbatim>\<open>CONFIG SET\<close> too.
\<close>

section \<open>White space and lines\<close>

text \<open>The UTF-8 encodings of the characters \<^verbatim>\<open>char::is_whitespace\<close> accepts.\<close>

definition unicode_ws :: "bytes list" where
  "unicode_ws =
     [[CHR 0x09], [CHR 0x0A], [CHR 0x0B], [CHR 0x0C], [CHR 0x0D], [CHR 0x20],
      [CHR 0xC2, CHR 0x85], [CHR 0xC2, CHR 0xA0], [CHR 0xE1, CHR 0x9A, CHR 0x80],
      [CHR 0xE2, CHR 0x80, CHR 0x80], [CHR 0xE2, CHR 0x80, CHR 0x81], [CHR 0xE2, CHR 0x80, CHR 0x82],
      [CHR 0xE2, CHR 0x80, CHR 0x83], [CHR 0xE2, CHR 0x80, CHR 0x84], [CHR 0xE2, CHR 0x80, CHR 0x85],
      [CHR 0xE2, CHR 0x80, CHR 0x86], [CHR 0xE2, CHR 0x80, CHR 0x87], [CHR 0xE2, CHR 0x80, CHR 0x88],
      [CHR 0xE2, CHR 0x80, CHR 0x89], [CHR 0xE2, CHR 0x80, CHR 0x8A], [CHR 0xE2, CHR 0x80, CHR 0xA8],
      [CHR 0xE2, CHR 0x80, CHR 0xA9], [CHR 0xE2, CHR 0x80, CHR 0xAF], [CHR 0xE2, CHR 0x81, CHR 0x9F],
      [CHR 0xE3, CHR 0x80, CHR 0x80]]"

definition head_match :: "bytes list \<Rightarrow> bytes \<Rightarrow> bytes option" where
  "head_match ws s = find (\<lambda>w. w \<noteq> [] \<and> take (length w) s = w) ws"

lemma head_match_Some: "head_match ws s = Some w \<Longrightarrow> w \<in> set ws \<and> w \<noteq> [] \<and> take (length w) s = w"
  by (auto simp: head_match_def find_Some_iff)

lemma head_match_shorter: "head_match ws s = Some w \<Longrightarrow> length (drop (length w) s) < length s"
  using head_match_Some [of ws s w] by (cases s) auto

function trim_with :: "bytes list \<Rightarrow> bytes \<Rightarrow> bytes" where
  "trim_with ws s = (case head_match ws s of None \<Rightarrow> s | Some w \<Rightarrow> trim_with ws (drop (length w) s))"
  by pat_completeness auto
termination by (relation "measure (length \<circ> snd)") (auto dest: head_match_shorter)

declare trim_with.simps [simp del]

definition trim :: "bytes \<Rightarrow> bytes" where
  "trim s = rev (trim_with (map rev unicode_ws) (rev (trim_with unicode_ws s)))"

text \<open>\<^verbatim>\<open>splitn(2, char::is_whitespace)\<close>: what precedes the first white space and, if there is one, what
  follows it.\<close>

fun split_ws :: "bytes \<Rightarrow> bytes \<times> bytes option" where
  "split_ws [] = ([], None)"
| "split_ws (c # cs) =
     (case head_match unicode_ws (c # cs) of
        Some w \<Rightarrow> ([], Some (drop (length w) (c # cs)))
      | None \<Rightarrow> (let (key, rest) = split_ws cs in (c # key, rest)))"

text \<open>\<^verbatim>\<open>str::lines\<close>: split at every line feed, a carriage return before it belongs to the line end, and an
  empty last line is not reported.\<close>

fun split_lf :: "bytes \<Rightarrow> bytes list" where
  "split_lf [] = [[]]"
| "split_lf (c # cs) =
     (if c = LF then [] # split_lf cs else (case split_lf cs of l # ls \<Rightarrow> (c # l) # ls | [] \<Rightarrow> [[c]]))"

definition strip_cr :: "bytes \<Rightarrow> bytes" where
  "strip_cr l = (if l \<noteq> [] \<and> last l = CR then butlast l else l)"

definition str_lines :: "bytes \<Rightarrow> bytes list" where
  "str_lines t = (let ls = split_lf t in
     map strip_cr (butlast ls) @ (if last ls = [] then [] else [last ls]))"

section \<open>Values\<close>

definition to_ascii_lowercase :: "bytes \<Rightarrow> bytes" where
  "to_ascii_lowercase s = map ascii_lower s"

abbreviation quote :: byte where "quote \<equiv> CHR 0x27"

definition quoted :: "bytes \<Rightarrow> bytes" where
  "quoted s = quote # s @ [quote]"

definition fsync_parse :: "bytes \<Rightarrow> string + fsync_policy" where
  "fsync_parse input =
     (let s = to_ascii_lowercase (trim input) in
      case fsync_from_name s of
        Some p \<Rightarrow> Ok p
      | None \<Rightarrow> Err (''invalid appendfsync value '' @ quoted s @
                     '', expected one of always|everysec|no''))"

definition parse_u16 :: "bytes \<Rightarrow> string \<Rightarrow> string + nat" where
  "parse_u16 raw name =
     (case parse_unsigned 65535 raw of
        Some n \<Rightarrow> Ok n
      | None \<Rightarrow> Err (''invalid '' @ name @ '': '' @ quoted raw @ '' is not a u16''))"

definition parse_u64 :: "bytes \<Rightarrow> string \<Rightarrow> string + nat" where
  "parse_u64 raw name =
     (case parse_unsigned u64_max raw of
        Some n \<Rightarrow> Ok n
      | None \<Rightarrow> Err (''invalid '' @ name @ '': '' @ quoted raw @ '' is not a non-negative integer''))"

definition parse_usize :: "bytes \<Rightarrow> string \<Rightarrow> string + nat" where
  "parse_usize raw name =
     (case parse_unsigned u64_max raw of
        Some n \<Rightarrow> Ok n
      | None \<Rightarrow> Err (''invalid '' @ name @ '': '' @ quoted raw @ '' is not a non-negative integer''))"

definition parse_bool :: "bytes \<Rightarrow> string + bool" where
  "parse_bool raw =
     (let s = to_ascii_lowercase raw in
      if s \<in> set [''yes'', ''true'', ''on'', ''1''] then Ok True
      else if s \<in> set [''no'', ''false'', ''off'', ''0''] then Ok False
      else Err (''expected yes/no, got '' @ quoted s))"

definition strip_quotes :: "bytes \<Rightarrow> bytes" where
  "strip_quotes raw =
     (if length raw \<ge> 2 \<and>
         (hd raw = CHR 0x22 \<and> last raw = CHR 0x22 \<or> hd raw = quote \<and> last raw = quote)
      then butlast (tl raw) else raw)"

definition strip_suffix :: "bytes \<Rightarrow> bytes \<Rightarrow> bytes option" where
  "strip_suffix sfx s =
     (if length sfx \<le> length s \<and> drop (length s - length sfx) s = sfx
      then Some (take (length s - length sfx) s) else None)"

definition size_suffix :: "bytes \<Rightarrow> bytes \<times> nat" where
  "size_suffix lower =
     (case strip_suffix ''gb'' lower of Some n \<Rightarrow> (n, 1024 * 1024 * 1024) | None \<Rightarrow>
      case strip_suffix ''mb'' lower of Some n \<Rightarrow> (n, 1024 * 1024) | None \<Rightarrow>
      case strip_suffix ''kb'' lower of Some n \<Rightarrow> (n, 1024) | None \<Rightarrow>
      case strip_suffix ''g'' lower of Some n \<Rightarrow> (n, 1024 * 1024 * 1024) | None \<Rightarrow>
      case strip_suffix ''m'' lower of Some n \<Rightarrow> (n, 1024 * 1024) | None \<Rightarrow>
      case strip_suffix ''k'' lower of Some n \<Rightarrow> (n, 1024) | None \<Rightarrow>
      case strip_suffix ''b'' lower of Some n \<Rightarrow> (n, 1) | None \<Rightarrow> (lower, 1))"

definition parse_bytes :: "bytes \<Rightarrow> string \<Rightarrow> string + nat" where
  "parse_bytes raw name =
     (let lower = to_ascii_lowercase (trim raw); (num, factor) = size_suffix lower in
      case parse_unsigned u64_max (trim num) of
        None \<Rightarrow> Err (''invalid '' @ name @ '': '' @ quoted raw @ '' is not a byte size'')
      | Some n \<Rightarrow>
          if n * factor \<le> u64_max then Ok (n * factor)
          else Err (''invalid '' @ name @ '': '' @ quoted raw @ '' overflows u64''))"

section \<open>The configuration\<close>

record file_config =
  fc_bind :: "bytes option"
  fc_port :: "nat option"
  fc_timeout_secs :: "nat option"
  fc_max_clients :: "nat option"
  fc_appendonly :: "bool option"
  fc_appendfilename :: "bytes option"
  fc_appendfsync :: "fsync_policy option"
  fc_loglevel :: "bytes option"
  fc_max_memory :: "nat option"
  fc_max_memory_policy :: "eviction_policy option"
  fc_max_memory_samples :: "nat option"
  fc_requirepass :: "bytes option"
  fc_io_threads :: "nat option"
  fc_dashboard_addr :: "bytes option"
  fc_dashboard_token :: "bytes option"

definition file_config_default :: file_config where
  "file_config_default =
     \<lparr>fc_bind = None, fc_port = None, fc_timeout_secs = None, fc_max_clients = None,
      fc_appendonly = None, fc_appendfilename = None, fc_appendfsync = None, fc_loglevel = None,
      fc_max_memory = None, fc_max_memory_policy = None, fc_max_memory_samples = None,
      fc_requirepass = None, fc_io_threads = None, fc_dashboard_addr = None,
      fc_dashboard_token = None\<rparr>"

datatype file_config_error = FileIo bytes | FileParse bytes nat string

definition log_levels :: "bytes list" where
  "log_levels = [''off'', ''error'', ''warn'', ''info'', ''debug'', ''trace'']"

definition policy_list_text :: string where
  "policy_list_text = ''allkeys-lru, volatile-lru, allkeys-lfu, volatile-lfu, '' @
     ''allkeys-random, volatile-random, volatile-ttl, '' @
     ''allkeys-ahe, volatile-ahe, allkeys-sieve, volatile-sieve, '' @
     ''allkeys-sieves, volatile-sieves, allkeys-adaptiveclimb, '' @ ''volatile-adaptiveclimb)''"

definition apply_directive :: "file_config \<Rightarrow> bytes \<Rightarrow> bytes \<Rightarrow> string + file_config" where
  "apply_directive cfg key val =
     (let k = to_ascii_lowercase key in
      if k = ''bind'' then Ok (cfg\<lparr>fc_bind := Some val\<rparr>)
      else if k = ''port'' then
        map_sum id (\<lambda>n. cfg\<lparr>fc_port := Some n\<rparr>) (parse_u16 val ''port'')
      else if k = ''timeout'' then
        map_sum id (\<lambda>n. cfg\<lparr>fc_timeout_secs := Some n\<rparr>) (parse_u64 val ''timeout'')
      else if k = ''maxclients'' then
        map_sum id (\<lambda>n. cfg\<lparr>fc_max_clients := Some n\<rparr>) (parse_usize val ''maxclients'')
      else if k = ''appendonly'' then
        map_sum id (\<lambda>b. cfg\<lparr>fc_appendonly := Some b\<rparr>) (parse_bool val)
      else if k = ''appendfilename'' then Ok (cfg\<lparr>fc_appendfilename := Some (strip_quotes val)\<rparr>)
      else if k = ''appendfsync'' then
        map_sum (\<lambda>e. ''invalid appendfsync: '' @ e) (\<lambda>p. cfg\<lparr>fc_appendfsync := Some p\<rparr>)
          (fsync_parse val)
      else if k = ''loglevel'' then
        (let normalised = to_ascii_lowercase val in
         if normalised \<notin> set log_levels
         then Err (''invalid loglevel '' @ quoted val @ '' (expected off|error|warn|info|debug|trace)'')
         else Ok (cfg\<lparr>fc_loglevel := Some normalised\<rparr>))
      else if k = ''maxmemory'' then
        map_sum id (\<lambda>n. cfg\<lparr>fc_max_memory := Some n\<rparr>) (parse_bytes val ''maxmemory'')
      else if k = ''maxmemory-policy'' then
        (case from_name (to_ascii_lowercase val) of
           Some p \<Rightarrow> Ok (cfg\<lparr>fc_max_memory_policy := Some p\<rparr>)
         | None \<Rightarrow> Err (''invalid maxmemory-policy '' @ quoted val @
                        '' (expected one of noeviction, '' @ policy_list_text))
      else if k = ''maxmemory-samples'' then
        map_sum id (\<lambda>n. cfg\<lparr>fc_max_memory_samples := Some n\<rparr>) (parse_usize val ''maxmemory-samples'')
      else if k = ''requirepass'' then Ok (cfg\<lparr>fc_requirepass := Some val\<rparr>)
      else if k = ''io-threads'' then
        map_sum id (\<lambda>n. cfg\<lparr>fc_io_threads := Some n\<rparr>) (parse_usize val ''io-threads'')
      else if k = ''dashboard-token'' then Ok (cfg\<lparr>fc_dashboard_token := Some (strip_quotes val)\<rparr>)
      else if k = ''dashboard-addr'' then
        (let v = trim val in
         if eq_ignore_ascii_case v ''off'' \<or> eq_ignore_ascii_case v ''no''
         then Ok (cfg\<lparr>fc_dashboard_addr := Some ''off''\<rparr>)
         else Ok (cfg\<lparr>fc_dashboard_addr := Some v\<rparr>))
      else Err (''unknown directive '' @ quoted k))"

text \<open>One line of the file: comments and blanks leave the configuration alone.\<close>

definition parse_line :: "file_config \<Rightarrow> bytes \<Rightarrow> string + file_config" where
  "parse_line cfg raw_line =
     (let trimmed = trim raw_line in
      if trimmed = [] \<or> hd trimmed = CHR ''#'' then Ok cfg
      else let (key, rest) = split_ws trimmed;
               val = (case rest of None \<Rightarrow> [] | Some r \<Rightarrow> trim r)
           in if val = [] then Err (''directive '' @ quoted key @ '' requires a value'')
              else apply_directive cfg key val)"

fun parse_lines :: "bytes \<Rightarrow> nat \<Rightarrow> bytes list \<Rightarrow> file_config \<Rightarrow> file_config_error + file_config" where
  "parse_lines src line_no [] cfg = Ok cfg"
| "parse_lines src line_no (l # ls) cfg =
     (case parse_line cfg l of
        Inl msg \<Rightarrow> Err (FileParse src line_no msg)
      | Inr cfg \<Rightarrow> parse_lines src (line_no + 1) ls cfg)"

definition file_config_parse :: "bytes \<Rightarrow> bytes \<Rightarrow> file_config_error + file_config" where
  "file_config_parse src t = parse_lines src 1 (str_lines t) file_config_default"

definition file_config_load :: "bytes \<Rightarrow> bytes option \<Rightarrow> file_config_error + file_config" where
  "file_config_load path contents =
     (case contents of None \<Rightarrow> Err (FileIo path) | Some t \<Rightarrow> file_config_parse path t)"

section \<open>Trimming and byte sizes\<close>

definition plain :: "bytes \<Rightarrow> bool" where
  "plain s \<longleftrightarrow> (\<forall>c\<in>set s. 0x20 < (of_char c :: nat) \<and> (of_char c :: nat) < 0x7F)"

lemma plain_simps [simp]:
  "plain []" "plain (c # s) \<longleftrightarrow> 0x20 < (of_char c :: nat) \<and> (of_char c :: nat) < 0x7F \<and> plain s"
  "plain (s @ t) \<longleftrightarrow> plain s \<and> plain t" "plain (rev s) \<longleftrightarrow> plain s"
  by (auto simp: plain_def)

lemma plain_show_nat [simp]: "plain (show_nat n)"
  by (fastforce simp: plain_def is_digit_def dest: show_nat_digits)

definition ws_edges :: "bytes \<Rightarrow> bool" where
  "ws_edges w \<longleftrightarrow> \<not> plain [hd w] \<and> \<not> plain [last w]"

lemma unicode_ws_edges: "list_all ws_edges unicode_ws"
  by (simp add: unicode_ws_def ws_edges_def plain_def)

lemma head_match_None:
  assumes "plain s" "\<forall>w\<in>set ws. \<not> plain [hd w]"
  shows "head_match ws s = None"
proof (rule ccontr)
  assume "head_match ws s \<noteq> None"
  then obtain w where w: "w \<in> set ws" "w \<noteq> []" "take (length w) s = w"
    using head_match_Some by blast
  from w(2,3) obtain c w' s' where "w = c # w'" "s = c # s'" by (cases w; cases s) auto
  with assms w(1) show False by fastforce
qed

lemma plain_no_match: "plain s \<Longrightarrow> head_match unicode_ws s = None"
  using unicode_ws_edges by (intro head_match_None) (auto simp: list_all_iff ws_edges_def)

lemma plain_no_match_rev: "plain s \<Longrightarrow> head_match (map rev unicode_ws) s = None"
  using unicode_ws_edges by (intro head_match_None) (auto simp: list_all_iff ws_edges_def hd_rev)

lemma trim_plain [simp]: "plain s \<Longrightarrow> trim s = s"
  by (simp add: trim_def trim_with.simps plain_no_match plain_no_match_rev)

lemma lower_digit: "is_digit c \<Longrightarrow> ascii_lower c = c"
  by (auto simp: is_digit_def ascii_lower_def Let_def)

lemma lower_show_nat [simp]: "to_ascii_lowercase (show_nat n) = show_nat n"
  by (auto simp: to_ascii_lowercase_def intro!: map_idI lower_digit dest: show_nat_digits)

lemma to_ascii_lowercase_append [simp]:
  "to_ascii_lowercase (s @ t) = to_ascii_lowercase s @ to_ascii_lowercase t"
  by (simp add: to_ascii_lowercase_def)

lemma strip_suffix_last: "sfx \<noteq> [] \<Longrightarrow> s \<noteq> [] \<Longrightarrow> last s \<noteq> last sfx \<Longrightarrow> strip_suffix sfx s = None"
  unfolding strip_suffix_def by (metis append_take_drop_id last_appendR)

lemma strip_suffix_two:
  "strip_suffix [a, b] (s @ [c, d]) = (if a = c \<and> b = d then Some s else None)"
  by (auto simp: strip_suffix_def)

lemma strip_suffix_one:
  "strip_suffix [a] (s @ [c]) = (if a = c then Some s else None)"
  "strip_suffix [a] (s @ [c, d]) = (if a = d then Some (s @ [c]) else None)"
  by (auto simp: strip_suffix_def)

lemma strip_suffix_short:
  "s \<noteq> [] \<Longrightarrow> last s \<noteq> a \<Longrightarrow> strip_suffix [a, b] (s @ [c]) = None"
  by (cases s rule: rev_cases) (auto simp: strip_suffix_def)

lemma last_show_nat: "is_digit (last (show_nat n))"
  using show_nat_digits [of "last (show_nat n)" n] by simp

definition size_units :: "(bytes \<times> nat) list" where
  "size_units = [([], 1), (''b'', 1), (''k'', 1024), (''kb'', 1024), (''m'', 1048576),
     (''mb'', 1048576), (''g'', 1073741824), (''gb'', 1073741824)]"

lemma not_digit_letters [simp]:
  "\<not> is_digit CHR ''b''" "\<not> is_digit CHR ''k''" "\<not> is_digit CHR ''m''" "\<not> is_digit CHR ''g''"
  by (simp_all add: is_digit_def)

lemma size_suffix_number: "size_suffix (show_nat n) = (show_nat n, 1)"
proof -
  have "strip_suffix sfx (show_nat n) = None" if "sfx \<noteq> []" "\<not> is_digit (last sfx)" for sfx
    using that last_show_nat [of n] by (intro strip_suffix_last) auto
  then show ?thesis by (simp add: size_suffix_def)
qed

lemma size_suffix_unit:
  assumes "(sfx, f) \<in> set size_units"
  shows "size_suffix (show_nat n @ sfx) = (show_nat n, f)"
proof -
  have d: "last (show_nat n) \<noteq> c" if "\<not> is_digit c" for c
    using that last_show_nat [of n] by auto
  have "sfx = [] \<Longrightarrow> ?thesis" using assms size_suffix_number [of n] by (auto simp: size_units_def)
  moreover have "sfx \<noteq> [] \<Longrightarrow> ?thesis"
    using assms
    by (auto simp: size_units_def size_suffix_def strip_suffix_short d strip_suffix_one strip_suffix_two)
  ultimately show ?thesis by blast
qed

lemma parse_bytes_unit:
  assumes "(to_ascii_lowercase sfx, f) \<in> set size_units" "plain sfx" "n \<le> u64_max"
  shows "parse_bytes (show_nat n @ sfx) name =
    (if n * f \<le> u64_max then Ok (n * f)
     else Err (''invalid '' @ name @ '': '' @ quoted (show_nat n @ sfx) @ '' overflows u64''))"
  using assms size_suffix_unit [OF assms(1), of n] by (simp add: parse_bytes_def)

lemma parse_bytes_bound: "parse_bytes raw name = Ok n \<Longrightarrow> n \<le> u64_max"
  by (auto simp: parse_bytes_def split: option.splits prod.splits if_splits)

section \<open>Files\<close>

lemma parse_lines_append:
  "parse_lines src no (ls @ ls') cfg =
     (case parse_lines src no ls cfg of
        Inl e \<Rightarrow> Err e | Inr cfg' \<Rightarrow> parse_lines src (no + length ls) ls' cfg')"
  by (induction ls arbitrary: no cfg) (auto split: sum.splits)

text \<open>A file is rejected exactly when some line is, and the error names the first such line.\<close>

lemma parse_lines_error:
  "parse_lines src no ls cfg = Err e \<longleftrightarrow>
     (\<exists>good bad rest cfg' msg. ls = good @ bad # rest \<and> parse_lines src no good cfg = Ok cfg'
        \<and> parse_line cfg' bad = Err msg \<and> e = FileParse src (no + length good) msg)"
proof
  show "parse_lines src no ls cfg = Err e \<Longrightarrow>
     \<exists>good bad rest cfg' msg. ls = good @ bad # rest \<and> parse_lines src no good cfg = Ok cfg'
        \<and> parse_line cfg' bad = Err msg \<and> e = FileParse src (no + length good) msg"
  proof (induction ls arbitrary: no cfg)
    case Nil
    then show ?case by simp
  next
    case (Cons l ls)
    show ?case
    proof (cases "parse_line cfg l")
      case (Inl msg)
      then show ?thesis using Cons.prems by (fastforce intro: exI [of _ "[]"])
    next
      case (Inr cfg1)
      with Cons.prems have "parse_lines src (no + 1) ls cfg1 = Err e" by simp
      from Cons.IH [OF this] obtain good bad rest cfg' msg where "ls = good @ bad # rest"
        "parse_lines src (no + 1) good cfg1 = Ok cfg'" "parse_line cfg' bad = Err msg"
        "e = FileParse src (no + 1 + length good) msg" by blast
      then have "l # ls = (l # good) @ bad # rest" "parse_lines src no (l # good) cfg = Ok cfg'"
        "parse_line cfg' bad = Err msg" "e = FileParse src (no + length (l # good)) msg"
        using Inr by simp_all
      then show ?thesis by blast
    qed
  qed
qed (auto simp: parse_lines_append)

lemma parse_line_comment: "trim l = [] \<or> hd (trim l) = CHR ''#'' \<Longrightarrow> parse_line cfg l = Ok cfg"
  by (auto simp: parse_line_def)

end
