(* ===== verification/Server.thy ===== *)
theory Server
  imports Commands Encoder Config_File
begin

text \<open>
  Models the command execution of \<^verbatim>\<open>src/src/network/server.rs\<close>: the reply of every command in RESP2 and
  RESP3, \<^verbatim>\<open>INFO\<close>, \<^verbatim>\<open>CONFIG GET\<close> and \<^verbatim>\<open>CONFIG SET\<close>, the slow log, \<^verbatim>\<open>AUTH\<close> and \<^verbatim>\<open>HELLO\<close>, and the messages
  sent to MONITOR clients (\<^verbatim>\<open>src/src/network/monitor.rs\<close>).

  What the code takes from its platform is an argument: \<open>platform\<close> holds the \<^verbatim>\<open>f64\<close> operations, the
  decimal printing of floating point numbers and the package version, \<open>call_env\<close> the clocks of one
  command, its measured duration, whether a thread could be started and whether a client monitors.
\<close>

record 'f platform =
  pf_f64 :: "'f f64_ops"
  pf_fixed17 :: "'f \<Rightarrow> bytes"
  pf_fmt3 :: "rat \<Rightarrow> bytes"
  pf_version :: bytes

record call_env =
  ce_env :: env
  ce_env2 :: env
  ce_elapsed_us :: nat
  ce_ts_secs :: nat
  ce_spawned :: bool
  ce_monitored :: bool

datatype protocol_version = Resp2 | Resp3

text \<open>The conversion \<^verbatim>\<open>as i64\<close> of an unsigned 64-bit number.\<close>

definition as_i64 :: "nat \<Rightarrow> int" where
  "as_i64 n = (let m = n mod 18446744073709551616 in
     if m < 9223372036854775808 then int m else int m - 18446744073709551616)"

section \<open>Small replies\<close>

definition enc_null :: "protocol_version \<Rightarrow> bytes" where
  "enc_null ver = (case ver of Resp2 \<Rightarrow> encode_null_bulk | Resp3 \<Rightarrow> encode_null)"

definition enc_bool :: "protocol_version \<Rightarrow> bool \<Rightarrow> bytes" where
  "enc_bool ver v =
     (case ver of Resp2 \<Rightarrow> encode_integer (if v then 1 else 0) | Resp3 \<Rightarrow> encode_boolean v)"

definition reply_with :: "('a \<Rightarrow> bytes) \<Rightarrow> 'a result \<Rightarrow> bytes" where
  "reply_with enc r = (case r of Inl e \<Rightarrow> write_ferrum_error e | Inr x \<Rightarrow> enc x)"

definition OK_reply :: bytes where
  "OK_reply = encode_simple_string ''OK''"

definition enc_bulk_or_null :: "protocol_version \<Rightarrow> bytes option \<Rightarrow> bytes" where
  "enc_bulk_or_null ver x = (case x of Some b \<Rightarrow> encode_bulk_string b | None \<Rightarrow> enc_null ver)"

definition write_bool_integer :: "protocol_version \<Rightarrow> bool result \<Rightarrow> bytes" where
  "write_bool_integer ver r = reply_with (enc_bool ver) r"

definition checked_seconds_to_ms :: "int \<Rightarrow> int option" where
  "checked_seconds_to_ms seconds = checked_i64 (seconds * 1000)"

definition expire_reply :: "call_env \<Rightarrow> bytes \<Rightarrow> int option \<Rightarrow> engine \<Rightarrow> bool \<times> engine" where
  "expire_reply ce key delta_ms s =
     (let abs_ms = (case delta_ms of Some d \<Rightarrow> saturate_i64 (now_ms (ce_env ce) + d)
                                   | None \<Rightarrow> now_ms (ce_env ce))
      in kv_expire_at_ms (ce_env2 ce) key abs_ms s)"

definition auth_reply :: "bytes \<Rightarrow> engine \<Rightarrow> bytes \<times> bool" where
  "auth_reply password s =
     (case authenticate password s of
        Inr True \<Rightarrow> (OK_reply, True)
      | Inr False \<Rightarrow>
          (encode_error ''WRONGPASS invalid username-password pair or user is disabled.'', False)
      | Inl e \<Rightarrow> (write_ferrum_error e, False))"

definition hello_reply :: "bytes \<Rightarrow> protocol_version \<Rightarrow> bytes" where
  "hello_reply pkg_version ver =
     (case ver of Resp2 \<Rightarrow> encode_array_header 8 | Resp3 \<Rightarrow> encode_map_header 4) @
     encode_bulk_string ''server'' @ encode_bulk_string ''ferrum'' @
     encode_bulk_string ''version'' @ encode_bulk_string pkg_version @
     encode_bulk_string ''proto'' @ encode_integer (case ver of Resp2 \<Rightarrow> 2 | Resp3 \<Rightarrow> 3) @
     encode_bulk_string ''mode'' @ encode_bulk_string ''standalone''"

definition encode_slowlog_entry :: "slowlog_entry \<Rightarrow> bytes" where
  "encode_slowlog_entry e =
     encode_array_header 6 @ encode_integer (as_i64 (sl_id e)) @ encode_integer (as_i64 (sl_ts_secs e)) @
     encode_integer (as_i64 (sl_duration_us e)) @
     encode_array_header (length (sl_args e)) @ concat (map encode_bulk_string (sl_args e)) @
     encode_bulk_string (sl_peer e) @ encode_bulk_string []"

definition encode_slowlog_entries :: "slowlog_entry list \<Rightarrow> bytes" where
  "encode_slowlog_entries entries =
     encode_array_header (length entries) @ concat (map encode_slowlog_entry entries)"

section \<open>INFO\<close>

definition info_line :: "string \<Rightarrow> bytes \<Rightarrow> bytes" where
  "info_line name val = name @ '':'' @ val @ CRLF"

definition info_memory :: "'f platform \<Rightarrow> engine \<Rightarrow> bytes" where
  "info_memory pf s =
     ''# Memory'' @ CRLF @
     info_line ''used_memory'' (show_nat (e_used_memory s)) @
     info_line ''maxmemory'' (show_nat (max_memory (e_eviction s))) @
     info_line ''maxmemory_policy'' (policy_name (policy (e_eviction s))) @
     info_line ''maxmemory_samples'' (show_nat (samples (e_eviction s))) @
     info_line ''used_memory_policy_indexes'' (show_nat (policy_index_memory s)) @
     info_line ''ahe_alpha'' (pf_fmt3 pf (ah_alpha (e_ahe s))) @
     info_line ''ahe_last_hit_ratio'' (pf_fmt3 pf (ah_last_hit_ratio (e_ahe s))) @ CRLF"

definition info_stats :: "engine \<Rightarrow> bytes" where
  "info_stats s =
     (let (hits, misses) = keyspace_stats s; w = e_aof s;
          of_aof = (\<lambda>f. show_nat (case w of None \<Rightarrow> 0 | Some w \<Rightarrow> f w)) in
      ''# Stats'' @ CRLF @
      info_line ''total_commands_processed'' (show_nat (e_total_commands s)) @
      info_line ''keyspace_hits'' (show_nat hits) @ info_line ''keyspace_misses'' (show_nat misses) @
      info_line ''evicted_keys'' (show_nat (e_evicted_keys s)) @
      info_line ''expired_keys'' (show_nat (e_expired_keys s)) @
      info_line ''aof_write_errors'' (show_nat (e_aof_errors s)) @
      info_line ''aof_fsyncs'' (of_aof w_fsyncs) @ info_line ''aof_fsync_skips'' (of_aof w_fsync_skips) @
      info_line ''aof_append_batches'' (of_aof w_seq) @ CRLF)"

definition info_keyspace :: "call_env \<Rightarrow> engine \<Rightarrow> bytes" where
  "info_keyspace ce s =
     (let keys = kv_dbsize (ce_env ce) s; (expires, avg_ttl) = kv_expire_stats (ce_env2 ce) s in
      ''# Keyspace'' @ CRLF @
      (if keys > 0
       then ''db0:keys='' @ show_nat keys @ '',expires='' @ show_nat expires @ '',avg_ttl='' @
            show_nat avg_ttl @ CRLF
       else []) @ CRLF)"

definition render_info_sections ::
  "'f platform \<Rightarrow> call_env \<Rightarrow> engine \<Rightarrow> bytes option \<Rightarrow> (string \<times> bytes) list" where
  "render_info_sections pf ce s section =
     filter (\<lambda>(name, t). case section of None \<Rightarrow> True | Some x \<Rightarrow> eq_ignore_ascii_case x name)
       [(''server'', ''# Server'' @ CRLF @ ''ferrum_version:'' @ pf_version pf @ CRLF @ CRLF),
        (''memory'', info_memory pf s), (''stats'', info_stats s), (''keyspace'', info_keyspace ce s)]"

definition info_reply :: "protocol_version \<Rightarrow> (string \<times> bytes) list \<Rightarrow> bytes" where
  "info_reply ver sections =
     (case ver of
        Resp2 \<Rightarrow> encode_bulk_string (concat (map snd sections))
      | Resp3 \<Rightarrow> encode_map_header (length sections) @
          concat (map (\<lambda>(name, t). encode_bulk_string name @ encode_bulk_string t) sections))"

section \<open>CONFIG\<close>

definition config_pairs :: "engine \<Rightarrow> (bytes \<times> bytes) list" where
  "config_pairs s =
     [(''maxmemory'', show_nat (max_memory (e_eviction s))),
      (''maxmemory-policy'', policy_name (policy (e_eviction s))),
      (''maxmemory-samples'', show_nat (samples (e_eviction s))),
      (''requirepass'', case e_auth_password s of Some _ \<Rightarrow> ''(redacted)'' | None \<Rightarrow> []),
      (''slowlog-log-slower-than'', show_int (e_slowlog_slower_than_us s)),
      (''slowlog-max-len'', show_nat (e_slowlog_max_len s))]"

definition config_header :: "protocol_version \<Rightarrow> nat \<Rightarrow> bytes" where
  "config_header ver n =
     (case ver of Resp2 \<Rightarrow> encode_array_header (n * 2) | Resp3 \<Rightarrow> encode_map_header n)"

definition encode_pair :: "bytes \<times> bytes \<Rightarrow> bytes" where
  "encode_pair p = encode_bulk_string (fst p) @ encode_bulk_string (snd p)"

definition config_get :: "protocol_version \<Rightarrow> bytes \<Rightarrow> engine \<Rightarrow> bytes" where
  "config_get ver pattern s =
     (let pairs = config_pairs s in
      if eq_ignore_ascii_case pattern ''*''
      then config_header ver (length pairs) @ concat (map encode_pair pairs)
      else if \<not> utf8_valid pattern then config_header ver 0
      else case find (\<lambda>(n, val). eq_ignore_ascii_case n pattern) pairs of
             Some p \<Rightarrow> config_header ver 1 @ encode_pair p
           | None \<Rightarrow> config_header ver 0)"

definition config_set :: "bytes \<Rightarrow> bytes \<Rightarrow> engine \<Rightarrow> bytes \<times> engine" where
  "config_set param val s =
     (if \<not> utf8_valid param then (encode_error ''ERR Unknown parameter (non-UTF8 parameter name)'', s)
      else if \<not> utf8_valid val then (encode_error ''ERR Invalid argument (non-UTF8 value)'', s)
      else
        let name = to_ascii_lowercase param; cfg = e_eviction s in
        if name = ''requirepass'' then (OK_reply, set_requirepass (Some val) s)
        else if name = ''maxmemory'' then
          (case parse_bytes val ''maxmemory'' of
             Inr n \<Rightarrow> (OK_reply, set_eviction_config (cfg\<lparr>max_memory := n\<rparr>) s)
           | Inl msg \<Rightarrow> (encode_error (''ERR '' @ msg), s))
        else if name = ''maxmemory-policy'' then
          (case from_name (to_ascii_lowercase val) of
             Some p \<Rightarrow> (OK_reply, set_eviction_config (cfg\<lparr>policy := p\<rparr>) s)
           | None \<Rightarrow> (encode_error (''ERR Invalid argument '' @ quoted val @ '' for CONFIG SET '' @
                       quoted ''maxmemory-policy''), s))
        else if name = ''maxmemory-samples'' then
          (case parse_unsigned u64_max (trim val) of
             Some n \<Rightarrow>
               if n > 0 then (OK_reply, set_eviction_config (cfg\<lparr>samples := n\<rparr>) s)
               else (encode_error (''ERR Invalid argument for CONFIG SET '' @ quoted ''maxmemory-samples'' @
                       '' (must be > 0)''), s)
           | None \<Rightarrow> (encode_error (''ERR Invalid argument for CONFIG SET '' @ quoted ''maxmemory-samples'' @
                       '' (not an integer)''), s))
        else if name = ''slowlog-log-slower-than'' then
          (case parse_i64 (trim val) of
             Some n \<Rightarrow> (OK_reply, set_slowlog_threshold_us n s)
           | None \<Rightarrow> (encode_error (''ERR Invalid argument for CONFIG SET '' @
                       quoted ''slowlog-log-slower-than'' @ '' (not an integer)''), s))
        else if name = ''slowlog-max-len'' then
          (case parse_unsigned u64_max (trim val) of
             Some n \<Rightarrow>
               if n > 0 then (OK_reply, set_slowlog_max_len n s)
               else (encode_error (''ERR Invalid argument for CONFIG SET '' @ quoted ''slowlog-max-len'' @
                       '' (must be > 0)''), s)
           | None \<Rightarrow> (encode_error (''ERR Invalid argument for CONFIG SET '' @ quoted ''slowlog-max-len'' @
                       '' (not an integer)''), s))
        else (encode_error (''ERR Unknown parameter '' @ quoted name), s))"

definition slowlog_reply :: "bytes \<Rightarrow> bytes list \<Rightarrow> engine \<Rightarrow> bytes \<times> engine" where
  "slowlog_reply sub args s =
     (if eq_ignore_ascii_case sub ''GET'' then
        (case args of
           [] \<Rightarrow> (encode_slowlog_entries (slowlog_get None s), s)
         | a # _ \<Rightarrow>
             (case (if utf8_valid a then parse_unsigned u64_max (trim a) else None) of
                Some n \<Rightarrow> (encode_slowlog_entries (slowlog_get (Some n) s), s)
              | None \<Rightarrow> (encode_error ''ERR value is not an integer or out of range'', s)))
      else if eq_ignore_ascii_case sub ''LEN'' then (encode_integer (as_i64 (slowlog_len s)), s)
      else if eq_ignore_ascii_case sub ''RESET'' then (OK_reply, slowlog_reset s)
      else (encode_error ''ERR unknown slowlog subcommand'', s))"

section \<open>Executing a command\<close>

definition ttl_reply :: "(int \<Rightarrow> int) \<Rightarrow> ttl_status \<Rightarrow> bytes" where
  "ttl_reply f t =
     (case t of Missing \<Rightarrow> encode_integer (- 2) | NoExpire \<Rightarrow> encode_integer (- 1)
      | Millis ms \<Rightarrow> encode_integer (f ms))"

fun dispatch ::
  "'f platform \<Rightarrow> call_env \<Rightarrow> protocol_version \<Rightarrow> 'f command \<Rightarrow> engine \<Rightarrow> bytes \<times> engine" where
  "dispatch pf ce ver (Set k val) s = map_prod (reply_with (\<lambda>_. OK_reply)) id (kv_set (ce_env ce) k val s)"
| "dispatch pf ce ver (SetNx k val) s =
     map_prod (reply_with (enc_bool ver)) id (kv_set_nx (ce_env ce) k val s)"
| "dispatch pf ce ver (MSet pairs) s =
     map_prod (reply_with (\<lambda>_. OK_reply)) id (kv_mset (ce_env ce) pairs s)"
| "dispatch pf ce ver (MGet ks) s =
     map_prod (\<lambda>vals. encode_array_header (length vals) @ concat (map (enc_bulk_or_null ver) vals)) id
       (kv_mget (ce_env ce) (ce_env2 ce) ks s)"
| "dispatch pf ce ver (IncrBy k d) s =
     map_prod (reply_with encode_integer) id (kv_incr_by (ce_env ce) k d s)"
| "dispatch pf ce ver (IncrByFloat k d) s =
     map_prod (reply_with (\<lambda>x. case ver of Resp2 \<Rightarrow> encode_bulk_string (f_show (pf_f64 pf) x)
                                         | Resp3 \<Rightarrow> encode_double (pf_fixed17 pf x))) id
       (kv_incr_by_float (pf_f64 pf) (ce_env ce) k d s)"
| "dispatch pf ce ver (Get k) s =
     map_prod (enc_bulk_or_null ver) id (kv_get (ce_env ce) (ce_env2 ce) k s)"
| "dispatch pf ce ver (Del ks) s =
     map_prod (\<lambda>n. encode_integer (as_i64 n)) id (kv_del_many (ce_env ce) ks s)"
| "dispatch pf ce ver (Exists ks) s =
     map_prod (\<lambda>n. encode_integer (as_i64 n)) id (kv_exists_many (ce_env ce) (ce_env2 ce) ks s)"
| "dispatch pf ce ver (Ping m) s =
     (case m of None \<Rightarrow> encode_simple_string ''PONG'' | Some x \<Rightarrow> encode_bulk_string x, s)"
| "dispatch pf ce ver (Append k val) s =
     map_prod (reply_with (\<lambda>n. encode_integer (as_i64 n))) id (kv_append (ce_env ce) k val s)"
| "dispatch pf ce ver (StrLen k) s =
     map_prod (\<lambda>n. encode_integer (as_i64 n)) id (kv_strlen (ce_env ce) (ce_env2 ce) k s)"
| "dispatch pf ce ver DbSize s = (encode_integer (as_i64 (kv_dbsize (ce_env ce) s)), s)"
| "dispatch pf ce ver FlushDb s = (OK_reply, kv_flushdb s)"
| "dispatch pf ce ver (Expire k seconds) s =
     map_prod (\<lambda>b. write_bool_integer ver (Ok b)) id (expire_reply ce k (checked_seconds_to_ms seconds) s)"
| "dispatch pf ce ver (PExpire k millis) s =
     map_prod (\<lambda>b. write_bool_integer ver (Ok b)) id (expire_reply ce k (Some millis) s)"
| "dispatch pf ce ver (PExpireAt k abs_ms) s =
     map_prod (enc_bool ver) id (kv_expire_at_ms (ce_env ce) k abs_ms s)"
| "dispatch pf ce ver (Persist k) s = map_prod (enc_bool ver) id (kv_persist (ce_env ce) k s)"
| "dispatch pf ce ver (Ttl k) s =
     map_prod (ttl_reply (\<lambda>ms. (ms + 999) div 1000)) id (kv_ttl_ms (ce_env ce) (ce_env2 ce) k s)"
| "dispatch pf ce ver (PTtl k) s =
     map_prod (ttl_reply (\<lambda>ms. ms)) id (kv_ttl_ms (ce_env ce) (ce_env2 ce) k s)"
| "dispatch pf ce ver (MemoryUsage k) s =
     map_prod (\<lambda>r. case r of Some n \<Rightarrow> encode_integer (as_i64 n) | None \<Rightarrow> enc_null ver) id
       (kv_memory_usage (ce_env ce) (ce_env2 ce) k s)"
| "dispatch pf ce ver (Info section) s =
     (info_reply ver (render_info_sections pf ce s section), s)"
| "dispatch pf ce ver (Config sub args) s =
     (if eq_ignore_ascii_case sub ''GET'' then (config_get ver (args ! 0) s, s)
      else if eq_ignore_ascii_case sub ''SET'' then config_set (args ! 0) (args ! 1) s
      else (encode_error ''ERR unknown config subcommand'', s))"
| "dispatch pf ce ver (SlowLog sub args) s = slowlog_reply sub args s"
| "dispatch pf ce ver (Auth _) s = (encode_error ''ERR internal: AUTH handled by connection layer'', s)"
| "dispatch pf ce ver RewriteAof s =
     map_prod (reply_with (\<lambda>_. OK_reply)) id (kv_rewrite_aof (ce_spawned ce) s)"
| "dispatch pf ce ver Monitor s = (encode_error ''ERR internal: MONITOR handled by connection layer'', s)"
| "dispatch pf ce ver (Hello _) s = (encode_error ''ERR internal: HELLO handled by connection layer'', s)"

record monitor_message =
  mm_timestamp_ms :: int
  mm_peer :: bytes
  mm_args :: "bytes list"

fun is_slowlog_meta :: "'f command \<Rightarrow> bool" where
  "is_slowlog_meta (SlowLog _ _) = True"
| "is_slowlog_meta RewriteAof = True"
| "is_slowlog_meta _ = False"

definition monitor_meta :: "'f command \<Rightarrow> bool" where
  "monitor_meta cmd \<longleftrightarrow> is_slowlog_meta cmd \<or> cmd = Monitor"

definition execute_command ::
  "'f platform \<Rightarrow> call_env \<Rightarrow> bytes option \<Rightarrow> protocol_version \<Rightarrow> 'f command \<Rightarrow> engine
   \<Rightarrow> (bytes \<times> monitor_message option) \<times> engine" where
  "execute_command pf ce client ver cmd s =
     (let s = s\<lparr>e_total_commands := wrap_u64 (e_total_commands s + 1)\<rparr>;
          msg = (if \<not> monitor_meta cmd \<and> ce_monitored ce
                 then Some \<lparr>mm_timestamp_ms = now_ms (ce_env ce),
                            mm_peer = (case client of Some p \<Rightarrow> p | None \<Rightarrow> ''0.0.0.0:0''),
                            mm_args = args_redacted (f_show (pf_f64 pf)) cmd\<rparr>
                 else None);
          armed = slowlog_armed s;
          (out, s) = dispatch pf ce ver cmd s;
          s = (if \<not> is_slowlog_meta cmd \<and> armed \<and> slowlog_would_log (ce_elapsed_us ce) s
               then maybe_push_slowlog (args_redacted (f_show (pf_f64 pf)) cmd) client
                      (ce_elapsed_us ce) (ce_ts_secs ce) s
               else s)
      in ((out, msg), s))"

section \<open>Every reply is one RESP value\<close>

text \<open>\<open>is_value out\<close>: \<open>out\<close> is the encoding of one value, so a reader of the connection finds where it
  ends (\<open>resp_decode_encode\<close>). Replies nest at most three deep (\<^verbatim>\<open>SLOWLOG GET\<close>).\<close>

definition is_value :: "bytes \<Rightarrow> bool" where
  "is_value out \<longleftrightarrow> (\<exists>v. resp_ok 3 v \<and> out = resp_encode v)"

lemma is_valueI: "resp_ok 3 v \<Longrightarrow> out = resp_encode v \<Longrightarrow> is_value out"
  by (auto simp: is_value_def)

lemma is_value_decode: "is_value out \<Longrightarrow> \<exists>v. \<forall>rest. resp_decode 3 (out @ rest) = Some (v, rest)"
  using resp_decode_encode by (auto simp: is_value_def)

lemma value_simple [intro]: "one_line t \<Longrightarrow> is_value (encode_simple_string t)"
  by (rule is_valueI [of "VSimple t"]) simp_all

lemma value_error [intro]: "one_line t \<Longrightarrow> is_value (encode_error t)"
  by (rule is_valueI [of "VError t"]) simp_all

lemma value_integer [simp]: "is_value (encode_integer n)"
  by (rule is_valueI [of "VInteger n"]) simp_all

lemma value_bulk [simp]: "is_value (encode_bulk_string b)"
  by (rule is_valueI [of "VBulk b"]) simp_all

lemma value_null [simp]: "is_value (enc_null ver)"
  by (cases ver) (auto simp: enc_null_def intro: is_valueI [of VNullBulk] is_valueI [of VNull])

lemma value_bool [simp]: "is_value (enc_bool ver b)"
  by (cases ver) (auto simp: enc_bool_def intro: is_valueI [of "VBoolean b"])

lemma value_OK [simp]: "is_value OK_reply"
  by (auto simp: OK_reply_def)

lemma value_ferrum_error [simp]: "is_value (write_ferrum_error e)"
  by (auto simp: write_ferrum_error_def Let_def split: ferrum_error.split)

lemma value_reply_with: "(\<And>x. is_value (enc x)) \<Longrightarrow> is_value (reply_with enc r)"
  by (auto simp: reply_with_def split: sum.split)

lemma value_bulk_or_null [simp]: "is_value (enc_bulk_or_null ver x)"
  by (auto simp: enc_bulk_or_null_def split: option.split)

lemma value_double:
  assumes "one_line t"
  shows "is_value (encode_double t)"
proof -
  let ?t = "rev (dropWhile (\<lambda>c. c = CHR ''0'') (rev t))"
  have "one_line ?t" using assms set_dropWhileD by (fastforce simp: one_line_def)
  then show ?thesis
    by (intro is_valueI [of "VDouble (?t @ (if last (CHR '','' # ?t) = CHR ''.'' then ''0'' else []))"])
      (simp_all add: encode_double_def Let_def)
qed

text \<open>A flat value list as an array or as a map.\<close>

definition bulks :: "bytes list \<Rightarrow> resp list" where
  "bulks bs = map VBulk bs"

lemma encode_bulks [simp]: "concat (map (resp_encode \<circ> VBulk) bs) = concat (map encode_bulk_string bs)"
  by (induction bs) auto

lemma value_array_of:
  assumes "\<And>x. x \<in> set xs \<Longrightarrow> resp_ok 2 (f x) \<and> enc x = resp_encode (f x)"
  shows "is_value (encode_array_header (length xs) @ concat (map enc xs))"
proof (rule is_valueI [of "VArray (map f xs)"])
  show "resp_ok 3 (VArray (map f xs))" using assms by (simp add: list_all_iff numeral_3_eq_3 numeral_2_eq_2)
  show "encode_array_header (length xs) @ concat (map enc xs) = resp_encode (VArray (map f xs))"
    using assms by (auto simp: o_def cong: map_cong)
qed

lemma value_mget: "is_value (encode_array_header (length xs) @ concat (map (enc_bulk_or_null ver) xs))"
  by (rule value_array_of [where f = "\<lambda>x. case x of Some b \<Rightarrow> VBulk b
        | None \<Rightarrow> (case ver of Resp2 \<Rightarrow> VNullBulk | Resp3 \<Rightarrow> VNull)"])
    (auto simp: enc_bulk_or_null_def enc_null_def split: option.split protocol_version.split)

lemma value_slowlog [simp]: "is_value (encode_slowlog_entries es)"
  unfolding encode_slowlog_entries_def
  by (rule value_array_of [where f = "\<lambda>e. VArray [VInteger (as_i64 (sl_id e)), VInteger (as_i64 (sl_ts_secs e)),
        VInteger (as_i64 (sl_duration_us e)), VArray (map VBulk (sl_args e)), VBulk (sl_peer e), VBulk []]"])
    (simp add: encode_slowlog_entry_def eval_nat_numeral list_all_iff o_def)

definition pair_values :: "(bytes \<times> bytes) list \<Rightarrow> resp list" where
  "pair_values ps = concat (map (\<lambda>(a, b). [VBulk a, VBulk b]) ps)"

lemma pair_values_simps [simp]:
  "length (pair_values ps) = 2 * length ps" "list_all (resp_ok n) (pair_values ps)"
  "concat (map resp_encode (pair_values ps)) = concat (map encode_pair ps)"
  by (induction ps) (auto simp: pair_values_def encode_pair_def)

lemma value_config_pairs: "is_value (config_header ver (length ps) @ concat (map encode_pair ps))"
  by (cases ver)
    (auto simp: config_header_def numeral_3_eq_3 mult.commute
      intro: is_valueI [of "VArray (pair_values ps)"] is_valueI [of "VMap (pair_values ps)"])

lemma value_config_get [simp]: "is_value (config_get ver pattern s)"
  using value_config_pairs [of ver "[]"] value_config_pairs [of ver "config_pairs s"]
    value_config_pairs [of ver "[p]" for p]
  by (auto simp: config_get_def Let_def split: option.split)

lemma value_info [simp]: "is_value (info_reply ver sections)"
proof (cases ver)
  case Resp3
  then show ?thesis using value_config_pairs [of Resp3 sections]
    by (simp add: info_reply_def config_header_def encode_pair_def [abs_def] case_prod_unfold)
qed (simp add: info_reply_def)

lemma value_hello [simp]: "is_value (hello_reply pv ver)"
proof (cases ver)
  case Resp2
  then show ?thesis
    by (intro is_valueI [of "VArray [VBulk ''server'', VBulk ''ferrum'', VBulk ''version'', VBulk pv,
        VBulk ''proto'', VInteger 2, VBulk ''mode'', VBulk ''standalone'']"])
      (simp_all add: hello_reply_def eval_nat_numeral)
next
  case Resp3
  let ?v = "VMap [VBulk ''server'', VBulk ''ferrum'', VBulk ''version'', VBulk pv,
        VBulk ''proto'', VInteger 3, VBulk ''mode'', VBulk ''standalone'']"
  have "encode_map_header 4 = encode_map_header (Suc (Suc (Suc (Suc 0))))"
    by (rule arg_cong) simp
  with Resp3 have "hello_reply pv ver = resp_encode ?v" by (simp add: hello_reply_def)
  moreover have "resp_ok 3 ?v" by (simp add: numeral_3_eq_3)
  ultimately show ?thesis by (rule is_valueI [rotated])
qed

text \<open>The texts spliced into a reply line: \<^verbatim>\<open>CONFIG SET\<close> alone does so without cleaning them.\<close>

fun spliced_ok :: "'f command \<Rightarrow> bool" where
  "spliced_ok (Config sub args) =
     (eq_ignore_ascii_case sub ''SET'' \<longrightarrow> one_line (args ! 0) \<and> one_line (args ! 1))"
| "spliced_ok _ = True"

definition platform_ok :: "'f platform \<Rightarrow> bool" where
  "platform_ok pf \<longleftrightarrow> (\<forall>x. one_line (pf_fixed17 pf x))"

lemma ascii_lower_small:
  assumes "(of_char (ascii_lower c) :: nat) < 97"
  shows "ascii_lower c = c"
proof (cases "65 \<le> (of_char c :: nat) \<and> (of_char c :: nat) \<le> 90")
  case True
  have "(of_char (ascii_lower c) :: nat) = of_char c + 32"
    using True by (simp add: ascii_lower_def Let_def)
  then show ?thesis using True assms by linarith
next
  case False
  then show ?thesis by (auto simp: ascii_lower_def Let_def)
qed

lemma one_line_lower:
  assumes "one_line t"
  shows "one_line (to_ascii_lowercase t)"
proof -
  have "ascii_lower c \<noteq> CR \<and> ascii_lower c \<noteq> LF" if "c \<noteq> CR" "c \<noteq> LF" for c
    using that ascii_lower_small [of c] by (cases "ascii_lower c = c") auto
  then show ?thesis using assms by (auto simp: one_line_def to_ascii_lowercase_def)
qed

lemma one_line_quoted [simp]: "one_line (quoted t) \<longleftrightarrow> one_line t"
  by (simp add: quoted_def)

lemma parse_bytes_error_line:
  "parse_bytes raw name = Err msg \<Longrightarrow> one_line raw \<Longrightarrow> one_line name \<Longrightarrow> one_line msg"
  by (auto simp: parse_bytes_def split: prod.splits option.splits if_splits)

lemma value_if: "is_value (fst x) \<Longrightarrow> is_value (fst y) \<Longrightarrow> is_value (fst (if b then x else y))"
  by simp

lemma value_config_set:
  assumes "one_line param" "one_line val"
  shows "is_value (fst (config_set param val s))"
proof -
  have err: "is_value (encode_error (''ERR '' @ msg))" if "parse_bytes val ''maxmemory'' = Err msg" for msg
    using parse_bytes_error_line [OF that assms(2)] by (intro value_error) simp
  show ?thesis
    unfolding config_set_def Let_def
    by (intro value_if)
      (use assms one_line_lower [OF assms(1)] err in
        \<open>simp_all add: value_error split: sum.split option.split\<close>)
qed

lemma value_slowlog_reply [simp]: "is_value (fst (slowlog_reply sub args s))"
  by (simp add: slowlog_reply_def value_error split: list.split option.split)

lemma value_ttl [simp]: "is_value (ttl_reply f t)"
  by (simp add: ttl_reply_def split: ttl_status.split)

lemma dispatch_value:
  assumes "platform_ok pf" "spliced_ok cmd"
  shows "is_value (fst (dispatch pf ce ver cmd s))"
proof (cases cmd)
  case (IncrByFloat k d)
  then show ?thesis using assms(1)
    by (auto simp: platform_ok_def intro!: value_reply_with value_double split: protocol_version.split)
next
  case (Config sub args)
  then show ?thesis using assms(2) by (simp add: value_config_set value_error)
qed (simp_all add: value_error value_reply_with value_mget value_simple write_bool_integer_def
    split: option.split)

end
