(* ===== verification/Connection.thy ===== *)
theory Connection
  imports Server
begin

text \<open>
  Models \<^verbatim>\<open>handle_client\<close> of \<^verbatim>\<open>src/src/network/server.rs\<close>: the receive buffer, the loop that drains complete
  frames, the authentication gate, the batching of replies and the limits, and the connection
  counter of the accept loop. The sockets are a list of received chunks and a script that says which
  writes succeed; idle time-out, end of file, shutdown and a failed read end the list of chunks. A
  failed write may have sent a part of its bytes, which is not recorded.

  The branch for \<^verbatim>\<open>appendfsync always\<close> runs the same \<^verbatim>\<open>execute_command\<close> on another thread and waits for
  it; it is the same step of the model, and a panic of that thread is not modelled.
\<close>

definition READ_BUF_MAX :: nat where "READ_BUF_MAX = VALUE_MAX_BYTES + 1024 * 1024"
definition WRITE_BATCH_MAX :: nat where "WRITE_BATCH_MAX = 64 * 1024"

record conn =
  c_inbuf :: bytes
  c_outbuf :: bytes
  c_sent :: bytes
  c_authed :: bool
  c_version :: protocol_version
  c_frames :: nat
  c_writes :: nat
  c_broadcast :: "monitor_message list"

definition conn_new :: conn where
  "conn_new = \<lparr>c_inbuf = [], c_outbuf = [], c_sent = [], c_authed = False, c_version = Resp2,
     c_frames = 0, c_writes = 0, c_broadcast = []\<rparr>"

datatype conn_end = Returned | WriteFailed | Monitoring

text \<open>The network and the clocks of one connection.\<close>

record 'f conn_env =
  x_platform :: "'f platform"
  x_peer :: bytes
  x_calls :: "nat \<Rightarrow> call_env"
  x_write_ok :: "nat \<Rightarrow> bool"

definition put_out :: "bytes \<Rightarrow> conn \<Rightarrow> conn" where
  "put_out bs c = c\<lparr>c_outbuf := c_outbuf c @ bs\<rparr>"

text \<open>A write that succeeds is followed by \<^verbatim>\<open>outbuf.clear()\<close> or by the end of the connection.\<close>

definition write_all :: "'f conn_env \<Rightarrow> conn \<Rightarrow> bool \<times> conn" where
  "write_all x c =
     (if x_write_ok x (c_writes c)
      then (True, c\<lparr>c_sent := c_sent c @ c_outbuf c, c_outbuf := [], c_writes := c_writes c + 1\<rparr>)
      else (False, c\<lparr>c_writes := c_writes c + 1\<rparr>))"

definition next_version :: "nat option \<Rightarrow> protocol_version \<Rightarrow> protocol_version" where
  "next_version v ver = (case v of Some n \<Rightarrow> if n = 2 then Resp2 else if n = 3 then Resp3 else ver | None \<Rightarrow> ver)"

text \<open>A complete frame that is not \<^verbatim>\<open>MONITOR\<close>.\<close>

definition handle_command :: "'f conn_env \<Rightarrow> 'f command \<Rightarrow> conn \<Rightarrow> engine \<Rightarrow> conn \<times> engine" where
  "handle_command x cmd c s =
     (case cmd of
        Auth password \<Rightarrow>
          (let (out, ok) = auth_reply password s
           in (put_out out (if ok then c\<lparr>c_authed := True\<rparr> else c), s))
      | Hello v \<Rightarrow>
          (let ver = next_version v (c_version c)
           in (put_out (hello_reply (pf_version (x_platform x)) ver) (c\<lparr>c_version := ver\<rparr>), s))
      | _ \<Rightarrow>
          if e_auth_required s \<and> \<not> c_authed c
          then (put_out (encode_error ''NOAUTH Authentication required.'') c, s)
          else let ((out, msg), s) = execute_command (x_platform x) (x_calls x (c_frames c))
                     (Some (x_peer x)) (c_version c) cmd s
               in (put_out out (c\<lparr>c_broadcast := c_broadcast c @
                     (case msg of None \<Rightarrow> [] | Some m \<Rightarrow> [m])\<rparr>), s))"

datatype frame_step = Next conn engine | Done "conn_end option" conn engine

text \<open>After a frame: its bytes are consumed and a long output buffer is written.\<close>

definition after_frame :: "'f conn_env \<Rightarrow> nat \<Rightarrow> conn \<Rightarrow> engine \<Rightarrow> frame_step" where
  "after_frame x n c s =
     (let c = c\<lparr>c_inbuf := drop n (c_inbuf c), c_frames := c_frames c + 1\<rparr> in
      if length (c_outbuf c) \<ge> WRITE_BATCH_MAX then
        (case write_all x c of
           (False, c) \<Rightarrow> Done (Some WriteFailed) c s
         | (True, c) \<Rightarrow> Next c s)
      else Next c s)"

definition conn_frame :: "'f conn_env \<Rightarrow> conn \<Rightarrow> engine \<Rightarrow> frame_step" where
  "conn_frame x c s =
     (case parse_frame (f_parse (pf_f64 (x_platform x))) (c_inbuf c) of
        Inr (Complete cmd n) \<Rightarrow>
          if cmd = Monitor then
            (case write_all x (put_out OK_reply c) of
               (False, c) \<Rightarrow> Done (Some WriteFailed) c s
             | (True, c) \<Rightarrow> Done (Some Monitoring) c s)
          else (let (c, s) = handle_command x cmd c s in after_frame x n c s)
      | Inr (Invalid e n) \<Rightarrow> after_frame x n (put_out (write_ferrum_error e) c) s
      | Inr Incomplete \<Rightarrow> Done None c s
      | Inl e \<Rightarrow> Done (Some Returned) (snd (write_all x (put_out (write_ferrum_error e) c))) s)"

lemma inbuf_simps [simp]:
  "c_inbuf (put_out bs c) = c_inbuf c" "c_inbuf (snd (write_all x c)) = c_inbuf c"
  "c_inbuf (fst (handle_command x cmd c s)) = c_inbuf c"
  by (auto simp: put_out_def write_all_def handle_command_def Let_def case_prod_unfold split: command.splits)

lemma after_frame_inbuf: "after_frame x n c s = Next c' s' \<Longrightarrow> c_inbuf c' = drop n (c_inbuf c)"
  by (auto simp: after_frame_def write_all_def Let_def split: if_splits)

lemma parse_frame_used:
  "parse_frame fp buf = Ok (Complete cmd n) \<Longrightarrow> 0 < n \<and> n \<le> length buf"
  "parse_frame fp buf = Ok (Invalid e n) \<Longrightarrow> 0 < n \<and> n \<le> length buf"
  by (simp_all add: parse_frame_positive parse_frame_consumed)

lemma conn_frame_shorter:
  assumes "conn_frame x c s = Next c' s'"
  shows "length (c_inbuf c') < length (c_inbuf c)"
proof -
  obtain n where n: "c_inbuf c' = drop n (c_inbuf c)" "0 < n" "n \<le> length (c_inbuf c)"
    using assms
    by (auto simp: conn_frame_def case_prod_unfold Let_def
        split: sum.splits frame_parse.splits if_splits bool.splits prod.splits
        dest!: after_frame_inbuf parse_frame_used)
  then show ?thesis by simp
qed

function drain :: "'f conn_env \<Rightarrow> conn \<Rightarrow> engine \<Rightarrow> conn_end option \<times> conn \<times> engine" where
  "drain x c s = (case conn_frame x c s of Next c' s' \<Rightarrow> drain x c' s' | Done r c' s' \<Rightarrow> (r, c', s'))"
  by pat_completeness auto
termination by (relation "measure (\<lambda>(x, c, s). length (c_inbuf c))") (auto dest: conn_frame_shorter)

declare drain.simps [simp del]

text \<open>One round of the outer loop: a received chunk.\<close>

definition on_read :: "'f conn_env \<Rightarrow> bytes \<Rightarrow> conn \<Rightarrow> engine \<Rightarrow> conn_end option \<times> conn \<times> engine" where
  "on_read x chunk c s =
     (case drain x (c\<lparr>c_inbuf := c_inbuf c @ chunk\<rparr>) s of
        (Some r, c, s) \<Rightarrow> (Some r, c, s)
      | (None, c, s) \<Rightarrow>
          (case (if c_outbuf c \<noteq> [] then write_all x c else (True, c)) of
             (False, c) \<Rightarrow> (Some WriteFailed, c, s)
           | (True, c) \<Rightarrow>
               if length (c_inbuf c) > READ_BUF_MAX
               then (Some Returned, snd (write_all x (put_out (encode_error ''ERR request too large'') c)), s)
               else (None, c, s)))"

fun run_chunks :: "'f conn_env \<Rightarrow> bytes list \<Rightarrow> conn \<Rightarrow> engine \<Rightarrow> conn_end option \<times> conn \<times> engine" where
  "run_chunks x [] c s = (None, c, s)"
| "run_chunks x (chunk # chunks) c s =
     (case on_read x chunk c s of
        (Some r, c, s) \<Rightarrow> (Some r, c, s)
      | (None, c, s) \<Rightarrow> run_chunks x chunks c s)"

section \<open>The authentication gate\<close>

lemma c_authed_simps [simp]:
  "c_authed (put_out bs c) = c_authed c" "c_authed (snd (write_all x c)) = c_authed c"
  by (simp_all add: put_out_def write_all_def)

lemma after_frame_authed:
  "after_frame x n c s = Next c' s' \<Longrightarrow> c_authed c' = c_authed c \<and> s' = s"
  "after_frame x n c s = Done r c' s' \<Longrightarrow> c_authed c' = c_authed c \<and> s' = s"
  by (auto simp: after_frame_def write_all_def Let_def split: if_splits)

lemma handle_command_gate:
  assumes "handle_command x cmd c s = (c', s')"
  shows "(c_authed c \<longrightarrow> c_authed c') \<and> (e_auth_required s \<longrightarrow> \<not> c_authed c' \<longrightarrow> s' = s)
    \<and> (c_authed c' \<longrightarrow> \<not> c_authed c \<longrightarrow> s' = s \<and> (\<exists>pw. cmd = Auth pw \<and> snd (auth_reply pw s)))"
  using assms
  by (auto simp: handle_command_def Let_def case_prod_unfold split: command.splits if_splits)

text \<open>What one frame does to the authentication flag and to the engine.\<close>

definition gate :: "'f conn_env \<Rightarrow> conn \<Rightarrow> engine \<Rightarrow> conn \<Rightarrow> engine \<Rightarrow> bool" where
  "gate x c s c' s' \<longleftrightarrow>
     (c_authed c \<longrightarrow> c_authed c') \<and> (e_auth_required s \<longrightarrow> \<not> c_authed c' \<longrightarrow> s' = s)
     \<and> (\<not> c_authed c \<longrightarrow> c_authed c' \<longrightarrow> e_auth_required s \<longrightarrow>
          (\<exists>skipped n pw. parse_frame (f_parse (pf_f64 (x_platform x))) (drop skipped (c_inbuf c)) =
             Ok (Complete (Auth pw) n) \<and> snd (auth_reply pw s)))"

lemma conn_frame_cases:
  obtains (command) cmd n c1 s1 where
    "parse_frame (f_parse (pf_f64 (x_platform x))) (c_inbuf c) = Ok (Complete cmd n)"
    "handle_command x cmd c s = (c1, s1)" "conn_frame x c s = after_frame x n c1 s1"
  | (invalid) e n where
    "parse_frame (f_parse (pf_f64 (x_platform x))) (c_inbuf c) = Ok (Invalid e n)"
    "conn_frame x c s = after_frame x n (put_out (write_ferrum_error e) c) s"
  | (stop) r c1 where "conn_frame x c s = Done r c1 s" "c_authed c1 = c_authed c" "c_inbuf c1 = c_inbuf c"
proof (cases "parse_frame (f_parse (pf_f64 (x_platform x))) (c_inbuf c)")
  case (Inl e)
  then show ?thesis
    by (intro stop [of "Some Returned" "snd (write_all x (put_out (write_ferrum_error e) c))"])
      (simp_all add: conn_frame_def)
next
  case (Inr f)
  show ?thesis
  proof (cases f)
    case (Complete cmd n)
    show ?thesis
    proof (cases "cmd = Monitor")
      case True
      then show ?thesis using Inr Complete
        by (cases "write_all x (put_out OK_reply c)")
          (auto simp: conn_frame_def write_all_def put_out_def split: if_splits bool.splits intro!: stop)
    next
      case False
      then show ?thesis using Inr Complete
        by (cases "handle_command x cmd c s") (auto simp: conn_frame_def intro: command)
    qed
  next
    case (Invalid e n)
    then show ?thesis using Inr by (intro invalid) (simp_all add: conn_frame_def)
  next
    case Incomplete
    then show ?thesis using Inr by (intro stop) (simp_all add: conn_frame_def)
  qed
qed

lemma gate_same [simp]: "c_authed c' = c_authed c \<Longrightarrow> gate x c s c' s"
  by (simp add: gate_def)

lemma handle_command_gate':
  assumes "parse_frame (f_parse (pf_f64 (x_platform x))) (c_inbuf c) = Ok (Complete cmd n)"
    "handle_command x cmd c s = (c1, s1)" "c_authed c' = c_authed c1"
  shows "gate x c s c' s1"
proof -
  note h = handle_command_gate [OF assms(2)]
  have "\<exists>skipped n pw. parse_frame (f_parse (pf_f64 (x_platform x))) (drop skipped (c_inbuf c)) =
      Ok (Complete (Auth pw) n) \<and> snd (auth_reply pw s)" if "\<not> c_authed c" "c_authed c1"
  proof -
    from that h obtain pw where "cmd = Auth pw" "snd (auth_reply pw s)" by blast
    then show ?thesis
      using assms(1) by (intro exI [of _ "0::nat"] exI [of _ n] exI [of _ pw]) auto
  qed
  with h assms(3) show ?thesis by (simp add: gate_def)
qed

lemma conn_frame_gate:
  "conn_frame x c s = Next c' s' \<Longrightarrow> gate x c s c' s' \<and> (\<exists>n. c_inbuf c' = drop n (c_inbuf c))"
  "conn_frame x c s = Done r c' s' \<Longrightarrow> gate x c s c' s'"
proof -
  show "gate x c s c' s' \<and> (\<exists>n. c_inbuf c' = drop n (c_inbuf c))" if "conn_frame x c s = Next c' s'"
  proof (cases rule: conn_frame_cases [of x c s])
    case (command cmd n c1 s1)
    then have "c_inbuf c1 = c_inbuf c" by (metis fst_conv inbuf_simps(3))
    with command that show ?thesis
      using handle_command_gate' [OF command(1,2)] after_frame_inbuf after_frame_authed(1) by metis
  next
    case (invalid e n)
    with that have "c_inbuf c' = drop n (c_inbuf c)" "c_authed c' = c_authed c" "s' = s"
      using after_frame_inbuf after_frame_authed(1) by fastforce+
    then show ?thesis by auto
  qed (use that in simp)
  show "gate x c s c' s'" if "conn_frame x c s = Done r c' s'"
  proof (cases rule: conn_frame_cases [of x c s])
    case (command cmd n c1 s1)
    with that show ?thesis
      using handle_command_gate' [OF command(1,2)] after_frame_authed(2) by metis
  next
    case (invalid e n)
    with that have "c_authed c' = c_authed c" "s' = s" using after_frame_authed(2) by fastforce+
    then show ?thesis by simp
  qed (use that in simp)
qed

lemma gate_trans:
  assumes "gate x c s c1 s1" "gate x c1 s1 c2 s2" "c_inbuf c1 = drop n (c_inbuf c)"
  shows "gate x c s c2 s2"
proof (cases "c_authed c1 \<or> \<not> e_auth_required s")
  case True
  then show ?thesis using assms(1,2) by (auto simp: gate_def)
next
  case False
  then have "s1 = s" using assms(1) by (simp add: gate_def)
  then show ?thesis using False assms(1,2) unfolding gate_def assms(3) drop_drop by blast
qed

lemma drain_gate: "drain x c s = (r, c', s') \<Longrightarrow> gate x c s c' s'"
proof (induction x c s rule: drain.induct)
  case (1 x c s)
  show ?case
  proof (cases "conn_frame x c s")
    case (Next c1 s1)
    obtain n where g: "gate x c s c1 s1" "c_inbuf c1 = drop n (c_inbuf c)"
      using conn_frame_gate(1) [OF Next] by blast
    have "gate x c1 s1 c' s'" using 1 Next by (simp add: drain.simps [of x c s])
    then show ?thesis by (rule gate_trans [OF g(1) _ g(2)])
  next
    case (Done r1 c1 s1)
    then show ?thesis using 1 conn_frame_gate(2) [OF Done] by (simp add: drain.simps [of x c s])
  qed
qed

lemma drain_inbuf: "drain x c s = (r, c', s') \<Longrightarrow> \<exists>n. c_inbuf c' = drop n (c_inbuf c)"
proof (induction x c s rule: drain.induct)
  case (1 x c s)
  show ?case
  proof (cases "conn_frame x c s")
    case (Next c1 s1)
    then obtain n m where "c_inbuf c' = drop n (c_inbuf c1)" "c_inbuf c1 = drop m (c_inbuf c)"
      using 1 conn_frame_gate(1) [OF Next] by (auto simp: drain.simps [of x c s])
    then show ?thesis by auto
  next
    case (Done r1 c1 s1)
    have "c_inbuf c1 = c_inbuf c \<or> (\<exists>n. c_inbuf c1 = drop n (c_inbuf c))"
      using Done
      by (auto simp: conn_frame_def after_frame_def write_all_def put_out_def Let_def
          split: sum.splits frame_parse.splits if_splits prod.splits
          dest!: arg_cong [where f = "\<lambda>p. c_inbuf (fst p)"])
    then have "\<exists>n. c_inbuf c1 = drop n (c_inbuf c)" by (metis drop0)
    then show ?thesis using 1 Done by (simp add: drain.simps [of x c s])
  qed
qed

section \<open>The replies do not depend on how the stream is cut into packets\<close>

definition ext :: "bytes \<Rightarrow> conn \<Rightarrow> conn" where
  "ext t c = c\<lparr>c_inbuf := c_inbuf c @ t\<rparr>"

definition obs :: "conn \<Rightarrow> bytes \<times> bytes \<times> bool \<times> protocol_version \<times> nat \<times> monitor_message list" where
  "obs c = (c_inbuf c, c_sent c @ c_outbuf c, c_authed c, c_version c, c_frames c, c_broadcast c)"

fun same_step :: "frame_step \<Rightarrow> frame_step \<Rightarrow> bool" where
  "same_step (Next a s) (Next b t) = (obs a = obs b \<and> s = t)"
| "same_step (Done r a s) (Done q b t) = (r = q \<and> obs a = obs b \<and> s = t)"
| "same_step _ _ = False"

lemma ext_simps [simp]:
  "c_inbuf (ext t c) = c_inbuf c @ t" "ext t (ext u c) = ext (u @ t) c" "ext [] c = c"
  by (simp_all add: ext_def)

lemma put_out_ext [simp]: "put_out bs (ext t c) = ext t (put_out bs c)"
  by (simp add: put_out_def ext_def)

lemma write_all_ext [simp]: "write_all x (ext t c) = map_prod id (ext t) (write_all x c)"
  by (simp add: write_all_def ext_def)

lemma handle_command_ext [simp]:
  "handle_command x cmd (ext t c) s = map_prod (ext t) id (handle_command x cmd c s)"
  by (cases cmd) (simp_all add: handle_command_def put_out_def ext_def Let_def case_prod_unfold)

fun ext_step :: "bytes \<Rightarrow> frame_step \<Rightarrow> frame_step" where
  "ext_step t (Next c s) = Next (ext t c) s"
| "ext_step t (Done r c s) = Done r (ext t c) s"

lemma after_frame_ext:
  assumes "n \<le> length (c_inbuf c)"
  shows "after_frame x n (ext t c) s = ext_step t (after_frame x n c s)"
  using assms by (auto simp: after_frame_def write_all_def ext_def Let_def)

lemma conn_frame_ext:
  assumes "parse_frame (f_parse (pf_f64 (x_platform x))) (c_inbuf c) \<noteq> Ok Incomplete"
  shows "conn_frame x (ext t c) s = ext_step t (conn_frame x c s)"
proof -
  let ?p = "parse_frame (f_parse (pf_f64 (x_platform x))) (c_inbuf c)"
  have p: "parse_frame (f_parse (pf_f64 (x_platform x))) (c_inbuf c @ t) = ?p"
    by (rule parse_frame_append [OF assms])
  show ?thesis
  proof (cases ?p)
    case (Inl e)
    then show ?thesis using p by (simp add: conn_frame_def)
  next
    case (Inr f)
    show ?thesis
    proof (cases f)
      case (Complete cmd n)
      then have "n \<le> length (c_inbuf c)" using Inr parse_frame_consumed(1) by blast
      then show ?thesis
        using p Inr Complete after_frame_ext [of n "fst (handle_command x cmd c s)" x t]
        by (simp add: conn_frame_def case_prod_unfold Let_def split: bool.split)
    next
      case (Invalid e n)
      then have "n \<le> length (c_inbuf c)" using Inr parse_frame_consumed(2) by blast
      then show ?thesis using p Inr Invalid by (simp add: conn_frame_def after_frame_ext)
    next
      case Incomplete
      then show ?thesis using assms Inr by simp
    qed
  qed
qed

lemma drain_ext:
  "drain x c s = (r, c1, s1) \<Longrightarrow>
   drain x (ext t c) s = (case r of None \<Rightarrow> drain x (ext t c1) s1 | Some e \<Rightarrow> (Some e, ext t c1, s1))"
proof (induction x c s rule: drain.induct)
  case (1 x c s)
  let ?p = "parse_frame (f_parse (pf_f64 (x_platform x))) (c_inbuf c)"
  show ?case
  proof (cases "?p = Ok Incomplete")
    case True
    then have "conn_frame x c s = Done None c s" by (simp add: conn_frame_def)
    with 1 have "r = None" "c1 = c" "s1 = s" by (simp_all add: drain.simps [of x c s])
    then show ?thesis by simp
  next
    case False
    note f = conn_frame_ext [OF False, of t s]
    show ?thesis
    proof (cases "conn_frame x c s")
      case (Next c2 s2)
      then show ?thesis using 1 f by (simp add: drain.simps [of x c s] drain.simps [of x "ext t c" s])
    next
      case (Done q c2 s2)
      have "q \<noteq> None"
        using False Done
        by (auto simp: conn_frame_def after_frame_def Let_def
            split: sum.splits frame_parse.splits if_splits prod.splits bool.splits)
      then show ?thesis using 1 f Done by (auto simp: drain.simps [of x c s] drain.simps [of x "ext t c" s])
    qed
  qed
qed

lemma obs_simps [simp]:
  "obs (put_out bs c) = (case obs c of (i, o', r) \<Rightarrow> (i, o' @ bs, r))"
  by (simp add: obs_def put_out_def)

lemma obs_write [simp]: "obs (snd (write_all x c)) = obs c" if "x_write_ok x (c_writes c)"
  using that by (simp add: obs_def write_all_def)

lemma obs_eq:
  "obs a = obs b \<longleftrightarrow> c_inbuf a = c_inbuf b \<and> c_sent a @ c_outbuf a = c_sent b @ c_outbuf b
     \<and> c_authed a = c_authed b \<and> c_version a = c_version b \<and> c_frames a = c_frames b
     \<and> c_broadcast a = c_broadcast b"
  by (simp add: obs_def)

lemma after_frame_obs:
  assumes "\<And>i. x_write_ok x i" "obs a = obs b"
  shows "same_step (after_frame x n a s) (after_frame x n b s)"
  using assms by (auto simp: after_frame_def write_all_def obs_eq Let_def)

lemma handle_command_obs:
  assumes "obs a = obs b"
  shows "obs (fst (handle_command x cmd a s)) = obs (fst (handle_command x cmd b s))
    \<and> snd (handle_command x cmd a s) = snd (handle_command x cmd b s)"
  using assms
  by (cases cmd) (auto simp: handle_command_def obs_eq put_out_def Let_def case_prod_unfold append_assoc [symmetric]
      simp del: append_assoc)

lemma conn_frame_obs:
  assumes ok: "\<And>i. x_write_ok x i" and "obs a = obs b"
  shows "same_step (conn_frame x a s) (conn_frame x b s)"
proof -
  have i: "c_inbuf a = c_inbuf b" using assms(2) by (simp add: obs_eq)
  show ?thesis
  proof (cases "parse_frame (f_parse (pf_f64 (x_platform x))) (c_inbuf b)")
    case (Inl e)
    then show ?thesis using assms i by (simp add: conn_frame_def)
  next
    case (Inr f)
    then show ?thesis
      using assms i handle_command_obs [OF assms(2), of x _ s]
      by (cases f) (auto simp: conn_frame_def case_prod_unfold Let_def write_all_def obs_eq put_out_def
          intro!: after_frame_obs)
  qed
qed

definition outcome ::
  "conn_end option \<times> conn \<times> engine \<Rightarrow>
   conn_end option \<times> bytes \<times> bytes \<times> bool \<times> protocol_version \<times> nat \<times> monitor_message list \<times> engine" where
  "outcome p = (case p of (r, c, s) \<Rightarrow>
     (r, (if r = None then c_inbuf c else []), c_sent c @ c_outbuf c, c_authed c, c_version c, c_frames c,
      c_broadcast c, s))"

lemma drain_obs:
  assumes "\<forall>i. x_write_ok x i" "obs a = obs b"
  shows "outcome (drain x a s) = outcome (drain x b s)"
  using assms
proof (induction x a s arbitrary: b rule: drain.induct)
  case (1 x a s)
  have st: "same_step (conn_frame x a s) (conn_frame x b s)"
    using 1 by (intro conn_frame_obs) auto
  show ?case
  proof (cases "conn_frame x a s")
    case (Next a1 s1)
    with st obtain b1 where "conn_frame x b s = Next b1 s1" "obs a1 = obs b1"
      by (cases "conn_frame x b s") auto
    then show ?thesis using 1 Next by (simp add: drain.simps [of x a s] drain.simps [of x b s])
  next
    case (Done r a1 s1)
    with st obtain b1 where "conn_frame x b s = Done r b1 s1" "obs a1 = obs b1"
      by (cases "conn_frame x b s") auto
    then show ?thesis using Done
      by (simp add: drain.simps [of x a s] drain.simps [of x b s] outcome_def obs_eq)
  qed
qed

lemma drain_stops:
  "drain x c s = (None, c1, s1) \<Longrightarrow>
   parse_frame (f_parse (pf_f64 (x_platform x))) (c_inbuf c1) = Ok Incomplete"
proof (induction x c s rule: drain.induct)
  case (1 x c s)
  then show ?case
    by (auto simp: drain.simps [of x c s] conn_frame_def [of x c s] after_frame_def Let_def
        split: frame_step.splits sum.splits frame_parse.splits if_splits prod.splits bool.splits)
qed

text \<open>A round of the outer loop when the writes succeed and the buffer stays below its limit.\<close>

lemma on_read_drain:
  assumes ok: "\<forall>i. x_write_ok x i" and lim: "length (c_inbuf c) + length chunk \<le> READ_BUF_MAX"
    and d: "drain x (ext chunk c) s = (r, c1, s1)"
  shows "\<exists>c2. on_read x chunk c s = (r, c2, s1) \<and> obs c2 = obs c1"
proof -
  obtain n where "c_inbuf c1 = drop n (c_inbuf c @ chunk)" using drain_inbuf [OF d] by auto
  then have len: "length (c_inbuf c1) \<le> READ_BUF_MAX" using lim by simp
  show ?thesis
  proof (cases r)
    case None
    then show ?thesis using d len ok
      by (auto simp: on_read_def write_all_def ext_def obs_eq)
  next
    case (Some e)
    then show ?thesis using d by (simp add: on_read_def ext_def)
  qed
qed

lemma run_chunks_drain:
  assumes ok: "\<forall>i. x_write_ok x i"
    and "length (c_inbuf c) + length (concat chunks) \<le> READ_BUF_MAX"
    and "parse_frame (f_parse (pf_f64 (x_platform x))) (c_inbuf c) = Ok Incomplete"
  shows "outcome (run_chunks x chunks c s) = outcome (drain x (ext (concat chunks) c) s)"
  using assms(2,3)
proof (induction chunks arbitrary: c s)
  case Nil
  then have "conn_frame x c s = Done None c s" by (simp add: conn_frame_def)
  then show ?case by (simp add: drain.simps [of x c s])
next
  case (Cons chunk chunks)
  obtain r c1 s1 where d: "drain x (ext chunk c) s = (r, c1, s1)" by (metis prod_cases3)
  obtain c2 where c2: "on_read x chunk c s = (r, c2, s1)" "obs c2 = obs c1"
    using on_read_drain [OF ok _ d] Cons.prems(1) by auto
  have e: "ext (concat (chunk # chunks)) c = ext (concat chunks) (ext chunk c)" by simp
  show ?case
  proof (cases r)
    case (Some q)
    then show ?thesis using c2 drain_ext [OF d, of "concat chunks"]
      by (simp add: outcome_def obs_eq) (simp add: ext_def)
  next
    case None
    obtain n where "c_inbuf c1 = drop n (c_inbuf c @ chunk)" using drain_inbuf [OF d] by auto
    then have "length (c_inbuf c2) + length (concat chunks) \<le> READ_BUF_MAX"
      using c2(2) Cons.prems(1) by (simp add: obs_eq)
    moreover have "parse_frame (f_parse (pf_f64 (x_platform x))) (c_inbuf c2) = Ok Incomplete"
      using drain_stops d None c2(2) by (simp add: obs_eq)
    ultimately have "outcome (run_chunks x chunks c2 s1) = outcome (drain x (ext (concat chunks) c2) s1)"
      by (rule Cons.IH)
    also have "\<dots> = outcome (drain x (ext (concat chunks) c1) s1)"
      using c2(2) by (intro drain_obs [OF ok]) (simp add: obs_eq ext_def)
    finally show ?thesis using None c2(1) drain_ext [OF d, of "concat chunks"] by simp
  qed
qed

lemma on_read_gate:
  assumes "on_read x chunk c s = (r, c', s')"
  shows "(c_authed c \<longrightarrow> c_authed c') \<and> (e_auth_required s \<longrightarrow> \<not> c_authed c' \<longrightarrow> s' = s)"
proof -
  obtain q c1 s1 where d: "drain x (c\<lparr>c_inbuf := c_inbuf c @ chunk\<rparr>) s = (q, c1, s1)" by (metis prod_cases3)
  have "c_authed c' = c_authed c1" "s' = s1"
    using assms d
    by (auto simp: on_read_def write_all_def put_out_def split: option.splits if_splits)
  with drain_gate [OF d] show ?thesis by (simp add: gate_def)
qed

lemma run_chunks_gate:
  "run_chunks x chunks c s = (r, c', s') \<Longrightarrow>
   (c_authed c \<longrightarrow> c_authed c') \<and> (e_auth_required s \<longrightarrow> \<not> c_authed c' \<longrightarrow> s' = s)"
proof (induction chunks arbitrary: c s)
  case (Cons chunk chunks)
  obtain q c1 s1 where d: "on_read x chunk c s = (q, c1, s1)" by (metis prod_cases3)
  note g = on_read_gate [OF d]
  show ?case
  proof (cases q)
    case None
    then have "run_chunks x chunks c1 s1 = (r, c', s')" using Cons.prems d by simp
    from Cons.IH [OF this] g show ?thesis by auto
  next
    case (Some e)
    then show ?thesis using Cons.prems d g by simp
  qed
qed simp

section \<open>The connection counter\<close>

text \<open>Acceptors race on \<^verbatim>\<open>ConnCounter::try_acquire\<close>; \<open>pending p\<close> is the value acceptor \<open>p\<close> holds in
  \<^verbatim>\<open>current\<close>, and \<open>held\<close> is the number of guards not yet dropped.\<close>

record counter =
  active :: nat
  held :: nat
  pending :: "nat \<Rightarrow> nat option"

definition counter_new :: counter where
  "counter_new = \<lparr>active = 0, held = 0, pending = (\<lambda>_. None)\<rparr>"

inductive counter_step :: "nat \<Rightarrow> counter \<Rightarrow> counter \<Rightarrow> bool" where
  unlimited: "mx = 0 \<Longrightarrow> counter_step mx c (c\<lparr>active := active c + 1, held := held c + 1\<rparr>)"
| load: "mx \<noteq> 0 \<Longrightarrow> pending c p = None \<Longrightarrow>
    counter_step mx c (c\<lparr>pending := (pending c)(p := Some (active c))\<rparr>)"
| refuse: "pending c p = Some cur \<Longrightarrow> mx \<le> cur \<Longrightarrow>
    counter_step mx c (c\<lparr>pending := (pending c)(p := None)\<rparr>)"
| exchange: "pending c p = Some cur \<Longrightarrow> cur < mx \<Longrightarrow> active c = cur \<Longrightarrow>
    counter_step mx c (c\<lparr>active := cur + 1, held := held c + 1, pending := (pending c)(p := None)\<rparr>)"
| observed: "pending c p = Some cur \<Longrightarrow> cur < mx \<Longrightarrow> active c \<noteq> cur \<Longrightarrow>
    counter_step mx c (c\<lparr>pending := (pending c)(p := Some (active c))\<rparr>)"
| dropped: "0 < held c \<Longrightarrow> counter_step mx c (c\<lparr>active := active c - 1, held := held c - 1\<rparr>)"

inductive counter_reachable :: "nat \<Rightarrow> counter \<Rightarrow> bool" where
  start: "counter_reachable mx counter_new"
| step: "counter_reachable mx c \<Longrightarrow> counter_step mx c c' \<Longrightarrow> counter_reachable mx c'"

inductive_cases counter_stepE: "counter_step mx c c'"

lemma counter_inv:
  "counter_reachable mx c \<Longrightarrow> active c = held c \<and> (mx \<noteq> 0 \<longrightarrow> active c \<le> mx)"
proof (induction rule: counter_reachable.induct)
  case (start mx)
  then show ?case by (simp add: counter_new_def)
next
  case (step mx c c')
  from step.hyps(2) show ?case using step.IH by (cases rule: counter_stepE) auto
qed

end
