(* ===== verification/Samples.thy ===== *)
theory Samples
  imports Reachable Connection
begin

text \<open>
  Concrete clocks, engines and a connection, on which the properties with hypotheses are exercised, and the
  bundles of definitions that evaluate the commands on them.
\<close>

lemmas engine_eval =
  kv_set_def kv_set_nx_def kv_mset_def kv_incr_by_def kv_append_def kv_get_def kv_mget_def kv_exists_def
  kv_exists_many_def kv_strlen_def kv_ttl_ms_def kv_memory_usage_def kv_del_def kv_del_many_def
  kv_flushdb_def kv_expire_at_ms_def kv_persist_def kv_dbsize_def kv_sweep_expired_def sweep_window_def
  wg_begin_def wg_log_def wg_drop_def wg_do_def wg_expire_drop_def wg_fetch_live_def
  wg_contains_live_def wg_read_state_def wg_ttl_of_def wg_strlen_of_def wg_memory_of_def wg_enforce_def
  wg_put_def prev_payload_def wg_insert_def wg_insert_nx_def wg_insert_many_def wg_insert_keep_ttl_def
  wg_remove_def wg_remove_many_def wg_expire_at_def wg_persist_def wg_clear_def
  validate_key_def validate_value_def KEY_MAX_BYTES_def VALUE_MAX_BYTES_def PER_ENTRY_OVERHEAD_def
  enforce_for_write_def enforce_memory_limit_def mem_fits_def sat_add_u64_def select_victim_def
  track_insert_def track_remove_def track_clear_def untrack_def apply_delta_def touch_access_def
  sieve_notify_insert_def sieve_notify_access_def sieve_notify_remove_def ac_notify_insert_def
  ac_notify_access_def ac_notify_remove_def record_hit_def record_miss_def peek_def
  aof_note_def log_expire_drop_def entry_bytes_def is_expired_def live_payload_def
  is_sieve_def is_ac_def eviction_config_default_def reply_of_def entry_new_def entry_new_with_def
  parse_i64_def parse_digits_def is_digit_def digit_val_def show_int_def show_nat.simps digit_char_def
  checked_i64_def in_i64_def headroom_def env_ok_def Let_def

section \<open>Concrete environments for the witnesses\<close>

definition env_at :: "nat \<Rightarrow> env" where
  "env_at t = \<lparr>now = t, now_late = t, now_ms = 1000 + int (t div 1000000), minute_stamp = 0, f32_rnd = (\<lambda>x. x)\<rparr>"

definition engine0 :: engine where
  "engine0 = engine_new (\<lambda>x. x) 0"

text \<open>An engine with room for two small entries, evicting with SIEVE over all keys; then filled.\<close>

definition engine_sieve :: engine where
  "engine_sieve = set_eviction_config \<lparr>max_memory = 320, policy = AllKeysSieve, samples = 5\<rparr> engine0"

definition engine_two :: engine where
  "engine_two = snd (kv_set (env_at 2) ''b'' ''2'' (snd (kv_set (env_at 1) ''a'' ''1'' engine_sieve)))"

lemma evict_loop_numeral:
  "evict_loop (numeral n) v cfg inc m s =
     (if mem_fits cfg inc (e_used_memory s) then (Ok m, s)
      else if policy cfg = NoEviction then (Err OutOfMemory, s)
      else case select_victim v cfg s of
        (None, s1) \<Rightarrow> (Err OutOfMemory, s1)
      | (Some k, s1) \<Rightarrow> evict_loop (pred_numeral n) v cfg inc (m + 1) (evict_turn k s1))"
  by (simp only: numeral_eq_Suc evict_loop_Suc)

lemmas sample_eval =
  engine_two_def engine_sieve_def engine0_def engine_new_def env_at_def sieve_new_def set_eviction_config_def
  evict_loop_numeral evict_turn_def evict_sieve_def eligible_def in_scope_def tracks_def
  sieve_rebuild_def sieve_observe_insert_def sieve_observe_remove_def sieve_evict_one_def sieve_demote_def
  policy_is_sieve_def policy_is_adaptive_climb_def is_sieve_ttl_def
  im_shift_remove_def im_insert_def im_get_index_def im_set_index_def

lemma reachable_set:
  assumes "reachable s" "headroom s (length k + length val + PER_ENTRY_OVERHEAD)"
  shows "reachable (snd (kv_set v k val s))"
  using reach_step [OF assms(1) step_op [of s "OSet k val" v v]] assms(2) by simp

lemma reachable_samples [simp]: "reachable engine0" "reachable engine_sieve" "reachable engine_two"
proof -
  show "reachable engine0" by (simp add: engine0_def reach_new)
  then show *: "reachable engine_sieve" unfolding engine_sieve_def by (rule reach_step) (rule step_config)
  show "reachable engine_two" unfolding engine_two_def
    by (intro reachable_set *) (simp_all add: engine_eval sample_eval)
qed

section \<open>A concrete connection\<close>

text \<open>Floating point numbers play no role in the examples: integers stand for them.\<close>

definition sample_platform :: "int platform" where
  "sample_platform = \<lparr>pf_f64 = \<lparr>f_parse = parse_i64, f_zero = 0, f_add = (+), f_is_finite = (\<lambda>_. True), f_show = show_int\<rparr>,
     pf_fixed17 = show_int, pf_fmt3 = (\<lambda>_. ''0''), pf_version = ''0''\<rparr>"

definition sample_conn :: "int conn_env" where
  "sample_conn = \<lparr>x_platform = sample_platform, x_peer = ''peer'',
     x_calls = (\<lambda>i. \<lparr>ce_env = env_at i, ce_env2 = env_at i, ce_elapsed_us = 0, ce_ts_secs = 0,
       ce_spawned = True, ce_monitored = False\<rparr>),
     x_write_ok = (\<lambda>_. True)\<rparr>"

lemmas conn_eval = sample_conn_def sample_platform_def slowlog_armed_def slowlog_would_log_def

end
