(* ===== verification/Sweep.thy ===== *)
theory Sweep
  imports Reachable
begin

text \<open>
  What repeated calls of \<^verbatim>\<open>sweep_expired\<close> (\<^verbatim>\<open>src/src/storage/engine/mod.rs\<close>) achieve on an otherwise idle server: the
  rotating cursor reaches every key. The iteration order of the map is stable as long as it is not changed, which is
  all the argument uses: after a round that removed something the order may be any other one.
\<close>

section \<open>One round\<close>

definition sweepable :: "engine \<Rightarrow> bool" where
  "sweepable s \<longleftrightarrow> well_keyed (e_store s) \<and> 2 * length (e_store s) \<le> u64_max"

lemma length_le_total: "length st \<le> total entry_bytes st div 2"
proof -
  have "2 * length st \<le> total entry_bytes st" by (induction st) (auto simp: entry_bytes_def PER_ENTRY_OVERHEAD_def)
  then show ?thesis by simp
qed

lemma sweepable_inv: "engine_inv s \<Longrightarrow> sweepable s"
  using length_le_total [of "e_store s"] by (auto simp: sweepable_def engine_inv_def memory_ok_def)

lemma drop_victims_simps [simp]:
  "e_store (drop_victims ks s) = filter (\<lambda>p. fst p \<notin> set ks) (e_store s)"
  "e_sweep_cursor (drop_victims ks s) = e_sweep_cursor s"
proof -
  have c: "e_sweep_cursor (snd (track_remove k s)) = e_sweep_cursor s" for k s
    by (simp add: track_remove_def Let_def ac_notify_remove_def sieve_notify_remove_def apply_delta_def split: option.splits)
  show "e_store (drop_victims ks s) = filter (\<lambda>p. fst p \<notin> set ks) (e_store s)"
    by (induction ks s rule: drop_victims.induct) (auto simp: Let_def AList.delete_eq intro: filter_cong)
  show "e_sweep_cursor (drop_victims ks s) = e_sweep_cursor s"
    by (induction ks s rule: drop_victims.induct) (simp_all add: Let_def c)
qed

lemma sweep_window_nth:
  assumes "i < min n (length (e_store s))"
  shows "sweep_window n s ! i = e_store s ! ((e_sweep_cursor s + i) mod length (e_store s))"
proof -
  let ?st = "e_store s" and ?c = "e_sweep_cursor s mod length (e_store s)"
  have "?st \<noteq> []" using assms by auto
  then have "sweep_window n s = take n (rotate ?c ?st)"
    by (simp add: sweep_window_def Let_def rotate_drop_take)
  then show ?thesis using assms by (simp add: nth_rotate mod_add_left_eq)
qed

lemma sweep_window_length: "length (sweep_window n s) = min n (length (e_store s))"
  by (simp add: sweep_window_def Let_def del: take_append)

lemma sweep_store:
  "0 < n \<Longrightarrow> e_store (snd (kv_sweep_expired v n s))
     = filter (\<lambda>p. fst p \<notin> set (map fst (filter (\<lambda>(k, e). is_expired e (now v)) (sweep_window n s)))) (e_store s)"
  by (simp add: kv_sweep_expired_def Let_def)

lemma sweep_cursor:
  "0 < n \<Longrightarrow> e_store s \<noteq> [] \<Longrightarrow> e_sweep_cursor (snd (kv_sweep_expired v n s))
     = wrap_u64 (e_sweep_cursor s mod length (e_store s) + min n (length (e_store s))) mod length (e_store s)"
  by (simp add: kv_sweep_expired_def Let_def sweep_window_length)

text \<open>A round that removes nothing has found its window live and moves the cursor behind it.\<close>

lemma sweep_idle:
  assumes "sweepable s" "kv_sweep_expired v n s = (stats, s')" "evicted stats = 0" "0 < n" "e_store s \<noteq> []"
  shows "e_store s' = e_store s"
    and "e_sweep_cursor s' mod length (e_store s) = (e_sweep_cursor s + min n (length (e_store s))) mod length (e_store s)"
    and "i < min n (length (e_store s)) \<Longrightarrow> \<not> is_expired (snd (e_store s ! ((e_sweep_cursor s + i) mod length (e_store s)))) (now v)"
proof -
  let ?L = "length (e_store s)"
  have L: "0 < ?L" using assms(5) by simp
  have none: "filter (\<lambda>(k, e). is_expired e (now v)) (sweep_window n s) = []"
    using assms(2-4) by (auto simp: kv_sweep_expired_def Let_def)
  have s': "s' = s\<lparr>e_sweep_cursor := wrap_u64 (e_sweep_cursor s mod ?L + min n ?L) mod ?L\<rparr>"
    using assms(2,4,5) none by (auto simp: kv_sweep_expired_def Let_def sweep_window_length)
  then show "e_store s' = e_store s" by simp
  have "e_sweep_cursor s mod ?L < ?L" using L by simp
  then have "e_sweep_cursor s mod ?L + min n ?L \<le> u64_max" using assms(1) unfolding sweepable_def by linarith
  then have "wrap_u64 (e_sweep_cursor s mod ?L + min n ?L) = e_sweep_cursor s mod ?L + min n ?L" by (rule wrap_u64_small)
  then show "e_sweep_cursor s' mod ?L = (e_sweep_cursor s + min n ?L) mod ?L" using s' by (simp add: mod_add_left_eq)
  show "\<not> is_expired (snd (e_store s ! ((e_sweep_cursor s + i) mod ?L))) (now v)" if "i < min n ?L"
  proof -
    have "sweep_window n s ! i \<in> set (sweep_window n s)" using that by (simp add: sweep_window_length)
    then show ?thesis using none sweep_window_nth [OF that] by (auto simp: filter_empty_conv case_prod_unfold)
  qed
qed

text \<open>A round that removes something shortens the store.\<close>

lemma sweep_active:
  assumes "kv_sweep_expired v n s = (stats, s')" "evicted stats \<noteq> 0"
  shows "length (e_store s') < length (e_store s)"
proof -
  let ?vs = "map fst (filter (\<lambda>(k, e). is_expired e (now v)) (sweep_window n s))"
  have "evicted stats = length ?vs" "e_store s' = filter (\<lambda>p. fst p \<notin> set ?vs) (e_store s)"
    using assms by (auto simp: kv_sweep_expired_def Let_def split: if_splits)
  moreover from this have "filter (\<lambda>(k, e). is_expired e (now v)) (sweep_window n s) \<noteq> []" using assms(2) by auto
  then obtain p where p: "p \<in> set (filter (\<lambda>(k, e). is_expired e (now v)) (sweep_window n s))"
    by (metis last_in_set)
  then have "p \<in> set (e_store s)" "fst p \<in> set ?vs" using sweep_window_sub [of n s] by (auto simp: image_iff intro: rev_bexI)
  ultimately show ?thesis by (auto intro!: length_filter_less)
qed

lemma sweep_subset: "kv_sweep_expired v n s = (stats, s') \<Longrightarrow> set (e_store s') \<subseteq> set (e_store s)"
  by (auto simp: kv_sweep_expired_def Let_def split: if_splits)

lemma sweep_sweepable: "kv_sweep_expired v n s = (stats, s') \<Longrightarrow> sweepable s \<Longrightarrow> sweepable s'"
  by (auto simp: kv_sweep_expired_def sweepable_def Let_def distinct_map_filter split: if_splits
      intro: order_trans [OF mult_le_mono2 [OF length_filter_le]])

lemma sweep_view_later:
  assumes "sweepable s" "now v \<le> U" "kv_sweep_expired v n s = (stats, s')"
  shows "view U s' = view U s"
proof -
  let ?vs = "map fst (filter (\<lambda>(k, e). is_expired e (now v)) (sweep_window n s))"
  have "view U s k = None" if "k \<in> set ?vs" for k
  proof -
    from that obtain e where "(k, e) \<in> set (e_store s)" "is_expired e (now v)" using sweep_window_sub [of n s] by auto
    then show ?thesis using assms(1,2) is_expired_mono by (auto simp: vw_def sweepable_def)
  qed
  then have "view U (drop_victims ?vs s) = view U s" by (simp add: drop_victims_view del: drop_victims_simps)
  then show ?thesis using assms(3) by (auto simp: kv_sweep_expired_def Let_def split: if_splits)
qed

section \<open>Many rounds\<close>

text \<open>\<open>k\<close> rounds with samples of size \<open>n\<close>, whose clocks read between \<open>T\<close> and \<open>U\<close>.\<close>

inductive sweeps :: "instant \<Rightarrow> instant \<Rightarrow> nat \<Rightarrow> engine \<Rightarrow> nat \<Rightarrow> engine \<Rightarrow> bool" for T U n s0 where
  sweeps_0: "sweeps T U n s0 0 s0"
| sweeps_idle: "sweeps T U n s0 k s \<Longrightarrow> T \<le> now v \<Longrightarrow> now v \<le> U \<Longrightarrow> kv_sweep_expired v n s = (stats, s')
    \<Longrightarrow> evicted stats = 0 \<Longrightarrow> sweeps T U n s0 (Suc k) s'"
| sweeps_active: "sweeps T U n s0 k s \<Longrightarrow> T \<le> now v \<Longrightarrow> now v \<le> U \<Longrightarrow> kv_sweep_expired v n s = (stats, s')
    \<Longrightarrow> evicted stats \<noteq> 0 \<Longrightarrow> mset st = mset (e_store s') \<Longrightarrow> sweeps T U n s0 (Suc k) (s'\<lparr>e_store := st\<rparr>)"

definition clean :: "instant \<Rightarrow> engine \<Rightarrow> bool" where
  "clean T s \<longleftrightarrow> (\<forall>p\<in>set (e_store s). \<not> is_expired (snd p) T)"

text \<open>The last \<open>j\<close> rounds changed nothing and found everything from \<open>c0\<close> up to the cursor live.\<close>

definition scanned :: "instant \<Rightarrow> nat \<Rightarrow> nat \<Rightarrow> engine \<Rightarrow> bool" where
  "scanned T n j s \<longleftrightarrow> (\<exists>c0. let L = length (e_store s); w = min n L in
     e_sweep_cursor s mod L = (c0 + j * w) mod L \<and> (\<forall>i < j * w. \<not> is_expired (snd (e_store s ! ((c0 + i) mod L))) T))"

lemma scanned_0: "scanned T n 0 s"
  unfolding scanned_def Let_def by (rule exI [of _ "e_sweep_cursor s"]) simp

lemma scanned_Suc:
  assumes "scanned T n j s" "sweepable s" "kv_sweep_expired v n s = (stats, s')" "evicted stats = 0" "0 < n"
    and "e_store s \<noteq> []" "T \<le> now v"
  shows "scanned T n (Suc j) s'"
proof -
  let ?L = "length (e_store s)"
  let ?w = "min n ?L"
  note idle = sweep_idle [OF assms(2-6)]
  obtain c0 where c0: "e_sweep_cursor s mod ?L = (c0 + j * ?w) mod ?L"
    "\<And>i. i < j * ?w \<Longrightarrow> \<not> is_expired (snd (e_store s ! ((c0 + i) mod ?L))) T"
    using assms(1) by (auto simp: scanned_def Let_def)
  have "\<not> is_expired (snd (e_store s ! ((c0 + i) mod ?L))) T" if i: "i < Suc j * ?w" for i
  proof (cases "i < j * ?w")
    case False
    define d where "d = i - j * ?w"
    have d: "d < ?w" "c0 + i = c0 + j * ?w + d" using False i by (auto simp: d_def)
    have "(e_sweep_cursor s + d) mod ?L = (c0 + i) mod ?L" using c0(1) d(2) by (metis mod_add_left_eq)
    then show ?thesis using idle(3) [OF d(1)] is_expired_mono assms(7) by metis
  qed (rule c0(2))
  moreover have "(e_sweep_cursor s + ?w) mod ?L = (c0 + j * ?w + ?w) mod ?L" using c0(1) by (metis mod_add_left_eq)
  then have "e_sweep_cursor s' mod ?L = (c0 + Suc j * ?w) mod ?L" using idle(2) by (simp add: ac_simps)
  ultimately show ?thesis unfolding scanned_def Let_def idle(1) by blast
qed

lemma scanned_clean:
  assumes "scanned T n j s" "length (e_store s) \<le> j * min n (length (e_store s))"
  shows "clean T s"
proof -
  let ?L = "length (e_store s)"
  obtain c0 where c0: "\<And>i. i < j * min n ?L \<Longrightarrow> \<not> is_expired (snd (e_store s ! ((c0 + i) mod ?L))) T"
    using assms(1) by (auto simp: scanned_def Let_def)
  have "\<not> is_expired (snd (e_store s ! p)) T" if p: "p < ?L" for p
  proof -
    define i where "i = (p + (?L - c0 mod ?L)) mod ?L"
    have "i < ?L" unfolding i_def using p by (intro mod_less_divisor) linarith
    moreover have "(c0 + i) mod ?L = p"
    proof -
      have "c0 mod ?L < ?L" using p by (intro mod_less_divisor) linarith
      then have "c0 mod ?L + (p + (?L - c0 mod ?L)) = p + ?L" by linarith
      moreover have "(c0 + i) mod ?L = (c0 mod ?L + (p + (?L - c0 mod ?L))) mod ?L" by (simp add: i_def mod_simps)
      ultimately show ?thesis using p by simp
    qed
    ultimately show ?thesis using c0 [of i] assms(2) by simp
  qed
  then show ?thesis by (metis clean_def in_set_conv_nth)
qed

lemma clean_subset: "clean T s \<Longrightarrow> set (e_store s') \<subseteq> set (e_store s) \<Longrightarrow> clean T s'"
  by (auto simp: clean_def)

lemma pass_length:
  assumes "j * min n L < L" "0 < n" "L \<le> L0"
  shows "j < Suc (L0 div n)"
proof (cases "n \<le> L")
  case True
  then have "j * n \<le> L0" using assms by (simp add: min_absorb1)
  then show ?thesis using assms(2) by (simp add: less_Suc_eq_le less_eq_div_iff_mult_less_eq)
next
  case False
  then have "j * L < 1 * L" using assms(1) by (simp add: min_absorb2)
  then show ?thesis by simp
qed

text \<open>Every pass of the cursor over the store removes a key, as long as there is one to remove.\<close>

lemma sweeps_progress:
  assumes "sweeps T U n s0 k s" "sweepable s0" "0 < n"
  shows "sweepable s \<and> length (e_store s) \<le> length (e_store s0) \<and> view U s = view U s0 \<and>
    (clean T s \<or> (\<exists>j. scanned T n j s \<and> j * min n (length (e_store s)) < length (e_store s)
       \<and> k \<le> (length (e_store s0) - length (e_store s)) * Suc (length (e_store s0) div n) + j))"
  using assms(1)
proof (induction rule: sweeps.induct)
  case sweeps_0
  show ?case
  proof (cases "e_store s0 = []")
    case False
    then show ?thesis using assms(2) scanned_0 [of T n s0] by (auto intro!: exI [of _ 0])
  qed (simp add: assms(2) clean_def)
next
  case (sweeps_idle k s v stats s')
  note sw = sweeps_idle.IH [THEN conjunct1]
  have frame: "sweepable s'" "view U s' = view U s" "set (e_store s') \<subseteq> set (e_store s)"
    using sweep_sweepable [OF sweeps_idle.hyps(4) sw] sweep_view_later [OF sw sweeps_idle.hyps(3,4)]
      sweep_subset [OF sweeps_idle.hyps(4)] by auto
  show ?case
  proof (cases "clean T s \<or> e_store s = []")
    case True
    then have "clean T s'" using frame(3) by (auto simp: clean_def)
    moreover have "length (e_store s') \<le> length (e_store s)"
      using sweeps_idle.hyps(4) by (auto simp: kv_sweep_expired_def Let_def split: if_splits)
    ultimately show ?thesis using frame sweeps_idle.IH by auto
  next
    case False
    then obtain j where j: "scanned T n j s" "j * min n (length (e_store s)) < length (e_store s)"
      "k \<le> (length (e_store s0) - length (e_store s)) * Suc (length (e_store s0) div n) + j"
      using sweeps_idle.IH by auto
    have same: "e_store s' = e_store s" using sweep_idle(1) [OF sw sweeps_idle.hyps(4,5) assms(3)] False by simp
    have "scanned T n (Suc j) s'"
      using scanned_Suc [OF j(1) sw sweeps_idle.hyps(4,5) assms(3) _ sweeps_idle.hyps(2)] False by simp
    then show ?thesis
      using scanned_clean [of T n "Suc j" s'] frame same j(3) sweeps_idle.IH
      by (cases "length (e_store s) \<le> Suc j * min n (length (e_store s))") (auto intro!: exI [of _ "Suc j"])
  qed
next
  case (sweeps_active k s v stats s' st)
  note sw = sweeps_active.IH [THEN conjunct1]
  let ?all = "length (e_store s0)" and ?L = "length (e_store s)" and ?m = "Suc (length (e_store s0) div n)"
  have len: "length st = length (e_store s')" "set st = set (e_store s')"
    using sweeps_active.hyps(6) mset_eq_length mset_eq_setD by metis+
  have short: "length st < ?L" using sweep_active [OF sweeps_active.hyps(4,5)] len by simp
  have sub: "set st \<subseteq> set (e_store s)" using sweep_subset [OF sweeps_active.hyps(4)] len(2) by simp
  have sw': "sweepable s'" using sweep_sweepable [OF sweeps_active.hyps(4) sw] .
  have keys: "mset (map fst st) = mset (map fst (e_store s'))" using sweeps_active.hyps(6) by (metis mset_map)
  then have wk: "well_keyed st" using sw' mset_eq_imp_distinct_iff by (fastforce simp: sweepable_def)
  have "map_of st = map_of (e_store s')" using map_of_perm [OF wk sweeps_active.hyps(6)] by simp
  then have view': "view U (s'\<lparr>e_store := st\<rparr>) = view U s"
    using sweep_view_later [OF sw sweeps_active.hyps(3,4)] by (simp add: vw_def fun_eq_iff)
  have sweepable': "sweepable (s'\<lparr>e_store := st\<rparr>)" using sw' wk len by (simp add: sweepable_def)
  have le: "?L \<le> ?all" using sweeps_active.IH by simp
  show ?case
  proof (cases "clean T s \<or> st = []")
    case True
    then have "clean T (s'\<lparr>e_store := st\<rparr>)" using sub by (auto simp: clean_def)
    then show ?thesis using view' sweepable' sweeps_active.IH short le by auto
  next
    case False
    then obtain j where j: "j * min n ?L < ?L" "k \<le> (?all - ?L) * ?m + j"
      using sweeps_active.IH by blast
    have "j < ?m" using pass_length [OF j(1) assms(3) le] .
    moreover have "(?all - ?L) * ?m + ?m \<le> (?all - length st) * ?m"
    proof -
      have "?all - ?L + 1 \<le> ?all - length st" using short le by simp
      then show ?thesis using mult_le_mono1 [of "?all - ?L + 1" "?all - length st" ?m] by (simp add: algebra_simps)
    qed
    ultimately have "Suc k \<le> (?all - length st) * ?m + 0" using j(2) by linarith
    moreover have "0 * min n (length st) < length st" using False by simp
    ultimately show ?thesis using scanned_0 [of T n "s'\<lparr>e_store := st\<rparr>"] view' sweepable' sweeps_active.IH short le by auto
  qed
qed

lemma sweeps_clean:
  assumes "sweeps T U n s0 k s" "sweepable s0" "0 < n"
    and "length (e_store s0) * Suc (length (e_store s0) div n) \<le> k"
  shows "clean T s \<and> view U s = view U s0"
proof -
  let ?all = "length (e_store s0)" and ?L = "length (e_store s)" and ?m = "Suc (length (e_store s0) div n)"
  note prog = sweeps_progress [OF assms(1-3)]
  have False if j: "j * min n ?L < ?L" "k \<le> (?all - ?L) * ?m + j" for j
  proof -
    have le: "?L \<le> ?all" "0 < ?L" using prog j(1) by auto
    have "j < ?m" using pass_length [OF j(1) assms(3) le(1)] .
    moreover have "(?all - ?L + 1) * ?m \<le> ?all * ?m" using le by (intro mult_le_mono1) linarith
    then have "(?all - ?L) * ?m + ?m \<le> ?all * ?m" by (simp add: algebra_simps)
    ultimately show False using j(2) assms(4) by linarith
  qed
  then show ?thesis using prog by blast
qed

end
