(* ===== verification/Storage_Claims.thy ===== *)
theory Storage_Claims
  imports Samples Sweep
begin

text \<open>
  The properties of the storage layer: the memory limit and eviction, the eviction indices, the commands on
  their error branches, the append-only file, and the small numeric routines.
\<close>

section \<open>The memory limit\<close>

lemma enforce_for_write_new:
  assumes "map_of (e_store s) k = None" "max_memory (e_eviction s) \<noteq> 0"
    and "enforce_for_write v k n s = (Ok (), s')" "max_memory (e_eviction s) < u64_max"
  shows "e_used_memory s' + (length k + n + PER_ENTRY_OVERHEAD) \<le> max_memory (e_eviction s)"
  using enforce_Ok_fits [of v "length k + n + PER_ENTRY_OVERHEAD" s s'] assms
  by (auto simp: enforce_for_write_def Let_def mem_fits_def sat_add_u64_def min_def split: if_splits)

text \<open>C7: A SET of a new key that succeeds under a memory limit leaves the memory counter within the limit,
  stores the value without a deadline, and keeps every other key it does not evict as it was.\<close>

theorem set_respects_maxmemory:
  assumes "reachable s" "map_of (e_store s) k = None"
    and "0 < max_memory (e_eviction s)" "max_memory (e_eviction s) < u64_max"
    and "kv_set v k val s = (Ok r, s')"
  shows "e_used_memory s' \<le> max_memory (e_eviction s)
     \<and> map_option (\<lambda>e. (data e, expire_at e)) (map_of (e_store s') k) = Some (val, None)
     \<and> (\<forall>k' e. k' \<noteq> k \<longrightarrow> map_of (e_store s') k' = Some e \<longrightarrow> map_of (e_store s) k' = Some e)"
proof -
  have inv: "engine_inv s" using assms(1) by (rule reachable_inv)
  obtain g where g: "wg_enforce v k (length val) (wg_begin s) = (Ok (), g)"
    "e_store s' = AList.update k (entry_new v val) (e_store (g_engine g))"
    "e_used_memory s' = e_used_memory (g_engine (wg_put k (entry_new v val) (wg_log (append_set k val) g)))"
    using set_Ok_cases [OF inv assms(5)] .
  have gi: "engine_inv (g_engine g)" "map_of (e_store (g_engine g)) \<subseteq>\<^sub>m map_of (e_store s)"
    using wg_enforce_cases [OF _ g(1)] inv by simp_all
  have fits: "e_used_memory (g_engine g) + (length k + length val + PER_ENTRY_OVERHEAD) \<le> max_memory (e_eviction s)"
    using enforce_for_write_new [OF assms(2), of v "length val" "g_engine g"] g(1) assms(3,4)
    by (auto simp: wg_enforce_def split: prod.splits)
  have absent: "map_of (e_store (g_engine g)) k = None" using gi(2) assms(2) by (auto simp: map_le_def dom_def)
  have tot: "total entry_bytes (AList.update k (entry_new v val) (e_store (g_engine g)))
      = e_used_memory (g_engine g) + (length k + length val + PER_ENTRY_OVERHEAD)"
    using total_update [OF engine_invD(4) [OF gi(1)], of entry_bytes k "entry_new v val"] absent
      engine_invD(5) [OF gi(1)] by simp
  have "engine_inv (g_engine (wg_put k (entry_new v val) (wg_log (append_set k val) g)))"
    unfolding wg_put_def using engine_inv_track_insert [of "g_engine (wg_log (append_set k val) g)" k "entry_new v val"]
      gi(1) tot fits assms(4) by simp
  from engine_invD(5) [OF this] have "e_used_memory s' = e_used_memory (g_engine g) + (length k + length val + PER_ENTRY_OVERHEAD)"
    using g(3) tot by simp
  with fits g(2) gi(2) show ?thesis by (auto simp: map_le_def dom_def)
qed

theorem set_respects_maxmemory_witness:
  "e_used_memory (snd (kv_set (env_at 3) ''c'' ''3'' engine_two)) \<le> 320
   \<and> map_option data (map_of (e_store (snd (kv_set (env_at 3) ''c'' ''3'' engine_two))) ''c'') = Some ''3''"
proof -
  obtain s' where s': "kv_set (env_at 3) ''c'' ''3'' engine_two = (Ok None, s')"
    by (simp add: engine_eval sample_eval)
  have pre: "map_of (e_store engine_two) ''c'' = None" "max_memory (e_eviction engine_two) = 320"
    by (simp_all add: engine_eval sample_eval)
  from set_respects_maxmemory [OF _ pre(1) _ _ s'] pre(2) s' show ?thesis
    by auto
qed

text \<open>C8: Eviction makes progress: when the eviction index knows every evictable key, a SET of a new key that
  fits beside the entries the policy may not evict succeeds, within the loop's safety bound, whatever the
  policy (except noeviction) and however full the store is.\<close>

theorem set_succeeds_by_evicting:
  assumes "reachable s" "index_covers s" "policy (e_eviction s) \<noteq> NoEviction" "0 < samples (e_eviction s)"
    and "map_of (e_store s) k = None" "k \<noteq> []" "length k \<le> KEY_MAX_BYTES" "length val \<le> VALUE_MAX_BYTES"
    and "pinned_bytes (policy_scope (policy (e_eviction s))) (e_store s)
           + (length k + length val + PER_ENTRY_OVERHEAD) \<le> max_memory (e_eviction s)"
  shows "\<exists>r s'. kv_set v k val s = (Ok r, s')"
proof -
  have inv: "engine_inv s" using assms(1) by (rule reachable_inv)
  let ?inc = "length k + length val + PER_ENTRY_OVERHEAD" and ?cfg = "e_eviction s"
  have less_bound: "length (e_store s) < max (length (e_store s)) 1 + 16" by linarith
  obtain m s' where loop: "evict_loop (max (length (e_store s)) 1 + 16) v ?cfg ?inc 0 s = (Ok m, s')"
      "mem_fits ?cfg ?inc (e_used_memory s')"
    using evict_loop_progress [OF inv assms(2) refl assms(3,4) less_bound assms(9), of v 0] by blast
  have pos: "max_memory ?cfg \<noteq> 0" using assms(9) by (simp add: PER_ENTRY_OVERHEAD_def)
  have "\<exists>s2. enforce_memory_limit v ?inc s = (Ok (), s2)"
    using loop pos by (auto simp: enforce_memory_limit_def Let_def)
  then have "\<exists>g. wg_enforce v k (length val) (wg_begin s) = (Ok (), g)"
    using assms(5) by (auto simp: wg_enforce_def enforce_for_write_def Let_def)
  then show ?thesis using assms(6-8)
    by (auto simp: kv_set_def wg_insert_def validate_key_def validate_value_def Let_def)
qed

theorem set_succeeds_by_evicting_witness: "\<exists>r s'. kv_set (env_at 3) ''c'' ''3'' engine_two = (Ok r, s')"
proof (rule set_succeeds_by_evicting)
  have st: "keys_of (e_store engine_two) = [''a'', ''b'']" "e_index_kind engine_two = IK_SIEVE_ALL"
    "sieve_keys (e_sieve engine_two) = [''a'', ''b'']" "e_eviction engine_two = \<lparr>max_memory = 320, policy = AllKeysSieve, samples = 5\<rparr>"
    by (simp_all add: sieve_keys_def engine_eval sample_eval)
  have dom: "eligible (e_store engine_two) sc k \<Longrightarrow> k \<in> set (keys_of (e_store engine_two))" for sc k
    by (force simp: eligible_def split: option.splits dest: map_of_SomeD)
  show "index_covers engine_two" using dom st by (auto simp: index_covers_def is_ac_def)
  show "map_of (e_store engine_two) ''c'' = None" using st(1) by (simp add: map_of_eq_None_iff flip: set_map)
qed (simp_all only: reachable_samples, simp_all add: engine_eval sample_eval)





lemma evict_loop_error: "evict_loop fuel v cfg inc n s = (Err e, s') \<Longrightarrow> e = OutOfMemory"
  by (induction fuel arbitrary: n s) (auto simp: evict_loop_Suc simp del: evict_loop.simps(2) split: if_splits prod.splits option.splits)

lemma evict_loop_noeviction:
  "policy cfg = NoEviction \<Longrightarrow> evict_loop fuel v cfg inc n s = (r, s') \<Longrightarrow> s' = s"
  by (cases fuel) (auto simp: evict_loop_Suc simp del: evict_loop.simps(2) split: if_splits)

lemma enforce_error:
  assumes "enforce_memory_limit v inc s = (Err e, s')"
  shows "e = OutOfMemory" and "policy (e_eviction s) = NoEviction \<Longrightarrow> s' = s"
  using assms evict_loop_error [of "max (length (e_store s)) 1 + 16" v "e_eviction s" inc 0 s]
    evict_loop_noeviction [of "e_eviction s" "max (length (e_store s)) 1 + 16" v inc 0 s]
  by (auto simp: enforce_memory_limit_def Let_def split: if_splits prod.splits sum.splits)

text \<open>C33: A SET that is refused stores nothing: the key and value limits are checked before anything happens, and
  every other refusal is for lack of memory and only loses the keys evicted on the way, none at all under
  noeviction.\<close>

theorem refused_set_keeps_store:
  assumes "reachable s" "kv_set v k val s = (Err e, s')"
  shows "map_of (e_store s') \<subseteq>\<^sub>m map_of (e_store s)
    \<and> (if k = [] \<or> length k > KEY_MAX_BYTES \<or> length val > VALUE_MAX_BYTES then s' = s
       else e = OutOfMemory \<and> (policy (e_eviction s) = NoEviction \<longrightarrow> e_store s' = e_store s))"
proof (cases "k = [] \<or> length k > KEY_MAX_BYTES \<or> length val > VALUE_MAX_BYTES")
  case True
  then have "s' = s" using assms(2)
    by (auto simp: kv_set_def wg_insert_def validate_key_def validate_value_def wg_drop_def wg_begin_def Let_def
        split: if_splits)
  with True show ?thesis by simp
next
  case False
  obtain q g where q: "wg_enforce v k (length val) (wg_begin s) = (q, g)" by fastforce
  then have qe: "q = Err e" "s' = wg_drop g" using assms(2) False
    by (auto simp: kv_set_def wg_insert_def validate_key_def validate_value_def Let_def split: sum.splits)
  have "map_of (e_store s') \<subseteq>\<^sub>m map_of (e_store s)"
    using wg_enforce_cases(2) [OF _ q] reachable_inv [OF assms(1)] qe by simp
  moreover obtain n where "enforce_memory_limit v n s = (Err e, g_engine g)"
    using q qe by (auto simp: wg_enforce_def enforce_for_write_def Let_def split: prod.splits)
  then have "e = OutOfMemory \<and> (policy (e_eviction s) = NoEviction \<longrightarrow> e_store s' = e_store s)"
    using enforce_error [of v n s e "g_engine g"] qe(2) by simp
  ultimately show ?thesis using False by simp
qed

theorem refused_set_keeps_store_witness:
  "fst (kv_set (env_at 3) [] ''x'' engine_two) = Err (ParseError ''key must not be empty'')
   \<and> snd (kv_set (env_at 3) [] ''x'' engine_two) = engine_two"
proof -
  obtain s' where s': "kv_set (env_at 3) [] ''x'' engine_two = (Err (ParseError ''key must not be empty''), s')"
    by (simp add: kv_set_def wg_insert_def validate_key_def)
  from refused_set_keeps_store [OF _ s'] s' show ?thesis by simp
qed

text \<open>The sampling policies take an extreme candidate: the least recently used one, the least frequently used
  one (ties broken by recency), the one that expires first, or the one with the highest eviction score.\<close>

theorem pick_victim_extreme:
  assumes "pick_victim rnd t p cs = Some c"
  shows "c \<in> set cs
    \<and> (p \<in> {AllKeysLru, VolatileLru} \<longrightarrow> (\<forall>d\<in>set cs. access_or t c \<le> access_or t d))
    \<and> (p \<in> {AllKeysLfu, VolatileLfu} \<longrightarrow> (\<forall>d\<in>set cs. c_lfu_counter c < c_lfu_counter d
          \<or> c_lfu_counter c = c_lfu_counter d \<and> access_or t c \<le> access_or t d))
    \<and> (p = VolatileTtl \<longrightarrow> (\<exists>x. c_expire_at c = Some x \<and> (\<forall>d\<in>set cs. \<forall>y. c_expire_at d = Some y \<longrightarrow> x \<le> y)))
    \<and> (p \<in> {AllKeysAhe, VolatileAhe} \<longrightarrow>
          (\<forall>d\<in>set cs. eps_score rnd AHE_DEFAULT_ALPHA d t \<le> eps_score rnd AHE_DEFAULT_ALPHA c t))"
proof -
  have mem: "c \<in> set cs" using assms by (rule pick_victim_mem)
  then have ne: "cs \<noteq> []" by auto
  then obtain a as where cs: "cs = a # as" by (cases cs) auto
  have lru: "\<forall>d\<in>set cs. access_or t c \<le> access_or t d" if "p \<in> {AllKeysLru, VolatileLru}"
    using assms that cs min_by_key_Some [of "access_or t" cs c] by (auto simp del: min_by_key.simps)
  have lfu: "c_lfu_counter c < c_lfu_counter d \<or> c_lfu_counter c = c_lfu_counter d \<and> access_or t c \<le> access_or t d"
    if "p \<in> {AllKeysLfu, VolatileLfu}" "d \<in> set cs" for d
  proof -
    have "min_by_key (\<lambda>c. (unat (c_lfu_counter c), access_or t c)) cs = Some c"
      using assms that(1) cs by (auto simp del: min_by_key.simps)
    from min_by_key_Some [OF this] that(2)
    have "(unat (c_lfu_counter c), access_or t c) \<le> (unat (c_lfu_counter d), access_or t d)" by blast
    then show ?thesis by (auto simp: word_less_nat_alt unat_arith_simps)
  qed
  have ttl: "\<exists>x. c_expire_at c = Some x \<and> (\<forall>d\<in>set cs. \<forall>y. c_expire_at d = Some y \<longrightarrow> x \<le> y)" if "p = VolatileTtl"
    using assms that cs
      min_by_key_Some [of "\<lambda>c. case c_expire_at c of None \<Rightarrow> 0 | Some d \<Rightarrow> d" "filter (\<lambda>c. c_expire_at c \<noteq> None) cs" c]
    by (fastforce simp del: min_by_key.simps filter.simps)
  have ahe: "\<forall>d\<in>set cs. eps_score rnd AHE_DEFAULT_ALPHA d t \<le> eps_score rnd AHE_DEFAULT_ALPHA c t"
    if "p \<in> {AllKeysAhe, VolatileAhe}"
    using assms that cs max_by_key_Some [of "\<lambda>c. eps_score rnd AHE_DEFAULT_ALPHA c t" cs c]
    by (auto simp: pick_victim_ahe_def AHE_DEFAULT_ALPHA_def Let_def simp del: max_by_key.simps)
  show ?thesis using mem lru lfu ttl ahe by blast
qed

theorem pick_victim_extreme_witness:
  "let c = \<lparr>c_key = ''a'', c_last_access = Some 1, c_expire_at = None, c_lfu_counter = 5\<rparr>;
       d = \<lparr>c_key = ''b'', c_last_access = Some 9, c_expire_at = None, c_lfu_counter = 5\<rparr>
   in pick_victim (\<lambda>x. x) 10 AllKeysLru [d, c] = Some c \<and> access_or 10 c \<le> access_or 10 d"
proof -
  let ?c = "\<lparr>c_key = ''a'', c_last_access = Some 1, c_expire_at = None, c_lfu_counter = 5\<rparr>"
  let ?d = "\<lparr>c_key = ''b'', c_last_access = Some 9, c_expire_at = None, c_lfu_counter = 5\<rparr>"
  have p: "pick_victim (\<lambda>x. x) 10 AllKeysLru [?d, ?c] = Some ?c" by (simp add: access_or_def)
  from pick_victim_extreme [OF this] p show ?thesis by (simp add: Let_def)
qed

section \<open>The eviction indices\<close>

text \<open>C23: The SIEVE eviction with its queue, moving hand and index arithmetic is the textbook algorithm on a ring:
  look at the front; drop it when it is no longer evictable, evict it when it was not visited (or is about to
  expire, for SIEVE-S), otherwise clear its bit and turn the ring.\<close>

theorem sieve_evict_is_ring_scan:
  assumes "sieve_wf s"
  shows "map_prod id sieve_ring (sieve_evict_one ta t st scope s) =
    ring_scan (length (sv_queue s) + 1) (eligible st scope)
      (sieve_demote ta t (sv_ttl_demote_threshold s) st) (sieve_ring s)"
  using sieve_evict_refines_ring [OF assms, of ta t st scope]
  by (cases "sieve_evict_one ta t st scope s") simp

theorem sieve_evict_is_ring_scan_witness:
  "map_prod id sieve_ring (sieve_evict_one False 9 (e_store engine_two) AllKeys
     (sieve_observe_access ''a'' (e_sieve engine_two))) = (Some ''b'', [(''a'', False)])"
proof -
  let ?s = "sieve_observe_access ''a'' (e_sieve engine_two)"
  have s: "?s = \<lparr>sv_queue = [(''a'', True), (''b'', False)], sv_hand = 0, sv_scope = AllKeys,
      sv_ttl_demote_threshold = SIEVE_S_TTL_THRESHOLD\<rparr>"
    by (simp add: engine_eval sample_eval sieve_observe_access_def)
  have "sieve_wf ?s" unfolding s by (simp add: sieve_wf_def)
  from sieve_evict_is_ring_scan [OF this, of False 9 "e_store engine_two" AllKeys] show ?thesis
    unfolding s by (simp add: sieve_ring_def engine_eval sample_eval)
qed

text \<open>C24: Both eviction indices find a victim whenever they track an evictable key, return an evictable one, drop
  it, and keep every other evictable key they track.\<close>

theorem indices_find_victims:
  assumes "k \<in> set (sieve_keys s)" "sieve_wf s" "k \<in> set (ac_keys a)" "ac_wf a" "eligible st scope k"
  shows "(\<exists>v s'. sieve_evict_one ta t st scope s = (Some v, s') \<and> eligible st scope v
      \<and> v \<in> set (sieve_keys s) - set (sieve_keys s') \<and> sieve_wf s' \<and> (v = k \<or> k \<in> set (sieve_keys s')))
    \<and> (\<exists>v a'. ac_evict_one st scope a = (Some v, a') \<and> eligible st scope v
      \<and> v \<in> set (ac_keys a) - set (ac_keys a') \<and> ac_wf a' \<and> (v = k \<or> k \<in> set (ac_keys a')))"
proof
  obtain r s' where e: "sieve_evict_one ta t st scope s = (r, s')" by fastforce
  then obtain v where r: "r = Some v" using sv.evict_None [OF assms(2)] assms(1,5) by (cases r) auto
  show "\<exists>v s'. sieve_evict_one ta t st scope s = (Some v, s') \<and> eligible st scope v
      \<and> v \<in> set (sieve_keys s) - set (sieve_keys s') \<and> sieve_wf s' \<and> (v = k \<or> k \<in> set (sieve_keys s'))"
    using e r sv.evict_Some [OF assms(2) e [unfolded r]] sv.evict_keeps [OF assms(2) e assms(1,5)]
      sv.wf_evict [OF assms(2), of ta t st scope] by auto
next
  obtain r a' where e: "ac_evict_one st scope a = (r, a')" by fastforce
  then obtain v where r: "r = Some v" using ac.evict_None [OF assms(4)] assms(3,5) by (cases r) auto
  show "\<exists>v a'. ac_evict_one st scope a = (Some v, a') \<and> eligible st scope v
      \<and> v \<in> set (ac_keys a) - set (ac_keys a') \<and> ac_wf a' \<and> (v = k \<or> k \<in> set (ac_keys a'))"
    using e r ac.evict_Some [OF assms(4) e [unfolded r]] ac.evict_keeps [OF assms(4) e assms(3,5)]
      ac.wf_evict [OF assms(4), of st scope] by auto
qed

theorem indices_find_victims_witness:
  "\<exists>v a'. ac_evict_one (e_store engine_two) AllKeys (ac_observe_insert ''a'' False ac_new) = (Some v, a')"
proof -
  have "''a'' \<in> set (sieve_keys (sieve_rebuild (e_store engine_two) AllKeys sieve_new))"
    "sieve_wf (sieve_rebuild (e_store engine_two) AllKeys sieve_new)"
    by (simp_all add: sieve_keys_def sieve_wf_def engine_eval sample_eval)
  moreover have "''a'' \<in> set (ac_keys (ac_observe_insert ''a'' False ac_new))"
    "ac_wf (ac_observe_insert ''a'' False ac_new)"
    subgoal by (simp add: ac_keys_insert ac_new_def tracks_def)
    subgoal by (rule ac_wf_insert) (simp add: ac_wf_def ac_new_def)
    done
  moreover have "eligible (e_store engine_two) AllKeys ''a''" by (simp add: engine_eval sample_eval)
  ultimately show ?thesis using indices_find_victims [where ta = False and t = 0] by blast
qed

section \<open>Active expiry\<close>

text \<open>A sweep of the active expiry is invisible to clients: it deletes only keys whose deadline has passed, so
  the live keys, their values and their deadlines stay, and it examines at most the sample it was given.\<close>

theorem sweep_only_drops_expired:
  assumes "reachable s"
  shows "view (now v) (snd (kv_sweep_expired v n s)) = view (now v) s
    \<and> examined (fst (kv_sweep_expired v n s)) \<le> n
    \<and> evicted (fst (kv_sweep_expired v n s)) \<le> examined (fst (kv_sweep_expired v n s))"
proof -
  have "well_keyed (e_store s)" using reachable_inv [OF assms] by (rule engine_invD(4))
  then have "view (now v) (snd (kv_sweep_expired v n s)) = view (now v) s" by (rule sweep_refines)
  moreover have "length (sweep_window n s) \<le> n" by (simp add: sweep_window_def Let_def del: take_append)
  then have "examined (fst (kv_sweep_expired v n s)) \<le> n" by (simp add: kv_sweep_expired_def Let_def)
  moreover have "evicted (fst (kv_sweep_expired v n s)) \<le> examined (fst (kv_sweep_expired v n s))"
    by (simp add: kv_sweep_expired_def Let_def)
  ultimately show ?thesis by blast
qed

theorem sweep_only_drops_expired_witness:
  "let s = snd (kv_expire_at_ms (env_at 2) ''a'' 1001 engine_two); v = env_at 2000000
   in keys_of (e_store (snd (kv_sweep_expired v 20 s))) = [''b''] \<and> view (now v) (snd (kv_sweep_expired v 20 s)) = view (now v) s"
proof -
  let ?s = "snd (kv_expire_at_ms (env_at 2) ''a'' 1001 engine_two)"
  have "headroom engine_two (op_bytes (OExpireAt ''a'' 1001))" by (simp add: engine_eval sample_eval)
  from reach_step [OF reachable_samples(3) step_op [OF this, of "env_at 2" "env_at 2"]]
  have "reachable ?s" by simp
  from sweep_only_drops_expired [OF this, of "env_at 2000000" 20]
  have "view (now (env_at 2000000)) (snd (kv_sweep_expired (env_at 2000000) 20 ?s)) = view (now (env_at 2000000)) ?s"
    by blast
  moreover have "keys_of (e_store (snd (kv_sweep_expired (env_at 2000000) 20 ?s))) = [''b'']"
    by (simp add: engine_eval sample_eval)
  ultimately show ?thesis unfolding Let_def by blast
qed

text \<open>C36: On an idle server the active expiry finishes its work: whatever the map's iteration order becomes after each
  removal, after at most as many passes over the keyspace as it has keys, no key whose deadline had passed when the
  sweeping began is left, and clients see the same keys, values and deadlines as before.\<close>

theorem sweeper_removes_all_expired:
  assumes "reachable s0" "0 < n" "sweeps T U n s0 k s"
    and "length (e_store s0) * Suc (length (e_store s0) div n) \<le> k"
  shows "(\<forall>key e. map_of (e_store s) key = Some e \<longrightarrow> \<not> is_expired e T) \<and> view U s = view U s0"
proof -
  have "sweepable s0" using reachable_inv [OF assms(1)] by (rule sweepable_inv)
  from sweeps_clean [OF assms(3) this assms(2,4)] show ?thesis by (fastforce simp: clean_def dest: map_of_SomeD)
qed

theorem sweeper_removes_all_expired_witness:
  "let s0 = snd (kv_expire_at_ms (env_at 2) ''a'' 1001 engine_two)
   in \<exists>s. sweeps 2000000 2000000 20 s0 2 s \<and> map_of (e_store s0) ''a'' \<noteq> None \<and> view 2000000 s = view 2000000 s0
     \<and> (\<forall>key e. map_of (e_store s) key = Some e \<longrightarrow> \<not> is_expired e 2000000)"
proof -
  let ?s0 = "snd (kv_expire_at_ms (env_at 2) ''a'' 1001 engine_two)"
  define s1 where "s1 = snd (kv_sweep_expired (env_at 2000000) 20 ?s0)"
  have "headroom engine_two (op_bytes (OExpireAt ''a'' 1001))" by (simp add: engine_eval sample_eval)
  from reach_step [OF reachable_samples(3) step_op [OF this, of "env_at 2" "env_at 2"]]
  have reach: "reachable ?s0" by simp
  have e1: "kv_sweep_expired (env_at 2000000) 20 ?s0 = (\<lparr>examined = 2, evicted = 1\<rparr>, s1)"
    unfolding s1_def by (simp add: engine_eval sample_eval)
  obtain s2 where e2: "kv_sweep_expired (env_at 2000000) 20 s1 = (\<lparr>examined = 1, evicted = 0\<rparr>, s2)"
    unfolding s1_def by (simp add: engine_eval sample_eval)
  have now: "now (env_at 2000000) = 2000000" by (simp add: env_at_def)
  have "sweeps 2000000 2000000 20 ?s0 (Suc 0) (s1\<lparr>e_store := e_store s1\<rparr>)"
    by (rule sweeps_active [OF sweeps_0 _ _ e1]) (simp_all add: now)
  then have "sweeps 2000000 2000000 20 ?s0 (Suc (Suc 0)) s2"
    by (intro sweeps_idle [OF _ _ _ e2]) (simp_all add: now)
  then have run: "sweeps 2000000 2000000 20 ?s0 2 s2" by (simp add: numeral_2_eq_2)
  have "length (e_store ?s0) = 2" "map_of (e_store ?s0) ''a'' \<noteq> None" by (simp_all add: engine_eval sample_eval)
  with sweeper_removes_all_expired [OF reach _ run] run show ?thesis unfolding Let_def by auto
qed

definition tour_engine :: engine where
  "tour_engine = engine0\<lparr>e_store := [(''a'', (entry_new (env_at 1) ''1'')\<lparr>expire_at := Some 9\<rparr>), (''b'', entry_new (env_at 1) ''2''),
     (''c'', (entry_new (env_at 1) ''3'')\<lparr>expire_at := Some 9\<rparr>), (''d'', entry_new (env_at 1) ''4'')]\<rparr>"

text \<open>One pass is not enough, though the documentation of \<^verbatim>\<open>sweep_expired\<close> promises coverage after
  \<^verbatim>\<open>len / sample\<close> ticks: the cursor does not account for removed keys and jumps over as many. Two ticks of two keys
  over four leave an expired key.\<close>

theorem sweep_tour_misses_key:
  "let v = env_at 9; s' = snd (kv_sweep_expired v 2 (snd (kv_sweep_expired v 2 tour_engine)))
   in length (e_store tour_engine) = 4 \<and> (\<exists>e. map_of (e_store s') ''c'' = Some e \<and> is_expired e (now v))"
proof -
  let ?a = "(''a'', (entry_new (env_at 1) ''1'')\<lparr>expire_at := Some 9\<rparr>)" and ?b = "(''b'', entry_new (env_at 1) ''2'')"
    and ?c = "(''c'', (entry_new (env_at 1) ''3'')\<lparr>expire_at := Some 9\<rparr>)" and ?d = "(''d'', entry_new (env_at 1) ''4'')"
  let ?s1 = "snd (kv_sweep_expired (env_at 9) 2 tour_engine)"
  have s: "e_store tour_engine = [?a, ?b, ?c, ?d]" "e_sweep_cursor tour_engine = 0"
    by (simp_all add: tour_engine_def engine0_def engine_new_def)
  have x: "is_expired (snd ?a) 9" "\<not> is_expired (snd ?b) 9" "is_expired (snd ?c) 9" "\<not> is_expired (snd ?d) 9"
    by (simp_all add: is_expired_def entry_new_def entry_new_with_def)
  have t: "now (env_at 9) = 9" by (simp add: env_at_def)
  have s1: "e_store ?s1 = [?b, ?c, ?d]" "e_sweep_cursor ?s1 = 2"
    using x by (simp_all add: sweep_store sweep_cursor sweep_window_def s t)
  have "e_store (snd (kv_sweep_expired (env_at 9) 2 ?s1)) = [?b, ?c, ?d]"
    using x by (simp add: sweep_store sweep_window_def s1 t)
  then show ?thesis using x(3) by (simp add: Let_def s t)
qed

section \<open>The append-only file\<close>

text \<open>Whatever write and flush failures happen, the append-only file stays an append-only log: after a sequence
  of appends it holds the old contents, the first records in full and at most a prefix of the rest; when all
  appends succeed it holds all of them.\<close>

theorem appends_extend_log:
  assumes "run_appends write_bytes records w = (r, w')"
  shows "\<exists>i n. aof_log w' = aof_log w @ concat (take i records) @ take n (concat (drop i records))
    \<and> (r = Ok () \<longrightarrow> i = length records)"
  using assms by (rule aof.run_appends_log)

theorem appends_extend_log_witness:
  "\<exists>i n. aof_log (snd (run_appends write_bytes [''one'', ''two''] (aof_fresh FsyncNo ''old'' [IoOk 1, IoErr 2 0])))
      = ''old'' @ concat (take i [''one'', ''two'']) @ take n (concat (drop i [''one'', ''two'']))"
proof -
  let ?w = "aof_fresh FsyncNo ''old'' [IoOk 1, IoErr 2 0]"
  have "aof_log ?w = ''old''" by (simp add: aof_fresh_def aof_log_def)
  then show ?thesis
    using appends_extend_log [OF prod.collapse [symmetric], of "[''one'', ''two'']" ?w] by metis
qed

text \<open>C9: Under the policy always an acknowledged write is durable: when the append and the barrier after it
  return without an error, everything logged before and the record itself are in the synced part of the file.\<close>

theorem always_is_durable:
  assumes "w_policy w = FsyncAlways" "w_synced w \<le> w_seq w" "w_seq w < u64_max"
    and "write_bytes bs w = (Ok (), w1)" "sync_if_needed w1 = (Ok (), w2)"
  shows "take (w_durable w2) (w_file w2) = aof_log w @ bs \<and> w_buf w2 = [] \<and> w_synced w2 = w_seq w2"
proof -
  have log: "aof_log w1 = aof_log w @ bs" using assms(4) by (rule write_bytes_Ok)
  have "w_policy w1 = FsyncAlways \<and> w_seq w1 = w_seq w + 1 \<and> w_synced w1 = w_synced w"
    using assms(4)
  proof (cases rule: write_bytes_cases)
    case (ok a b)
    then show ?thesis using bw_write_all_simps [of bs w] bw_flush_simps [of a] assms(1,3) by simp
  qed simp_all
  then have pol: "w_policy w1 = FsyncAlways" "w_seq w1 = w_seq w + 1" "w_synced w1 = w_synced w" by simp_all
  obtain ok w3 where f: "bw_flush w1 = (ok, w3)" by fastforce
  obtain ok' w4 where y: "sync_data w3 = (ok', w4)" by fastforce
  have "w_synced w4 = w_synced w" using pol sync_data_simps [of w3] bw_flush_simps [of w1] f y by simp
  then have ok: ok ok' "w2 = w4\<lparr>w_synced := w_seq w1, w_fsyncs := wrap_u64 (w_fsyncs w4 + 1)\<rparr>"
    using assms(2,5) pol f y by (auto simp: sync_if_needed_def Let_def max_def split: if_splits)
  have "w_file w3 = aof_log w1" "w_buf w3 = []" using bw_flush_Ok [of w1 w3] f ok by (auto simp: aof_log_def)
  moreover have "w_durable w4 = length (w_file w4)" "w_file w4 = w_file w3" "w_buf w4 = w_buf w3" "w_seq w4 = w_seq w1"
    using sync_data_Ok [of w3 w4] sync_data_simps [of w3] bw_flush_simps [of w1] f y ok by auto
  ultimately show ?thesis using ok(3) log by simp
qed

theorem always_is_durable_witness:
  "let w1 = snd (write_bytes ''record'' (aof_fresh FsyncAlways ''old'' [])); w2 = snd (sync_if_needed w1)
   in take (w_durable w2) (w_file w2) = ''oldrecord''"
proof -
  let ?w = "aof_fresh FsyncAlways ''old'' []"
  obtain w1 where w1: "write_bytes ''record'' ?w = (Ok (), w1)" "w_synced w1 = 0" "w_seq w1 = 1" "w_policy w1 = FsyncAlways" "w_io w1 = []"
    by (simp add: write_bytes_def aof_fresh_def bw_write_all_def bw_flush_def next_io_def to_file_def delta_mirror_def)
  obtain w2 where w2: "sync_if_needed w1 = (Ok (), w2)"
    using w1 by (simp add: sync_if_needed_def bw_flush_def sync_data_def next_io_def to_file_def Let_def)
  from always_is_durable [OF _ _ _ w1(1) w2] w1(1) w2 show ?thesis
    by (simp add: aof_fresh_def aof_log_def)
qed



section \<open>Counters, the random generator, the controller, secrets\<close>

text \<open>The LFU word keeps counter and minute stamp apart; decay subtracts one per elapsed period without
  underflow, the elapsed minutes taken modulo the 16-bit clock; an access never lowers the counter and raises it
  by at most one, never past 255.\<close>

theorem lfu_counter_bounds:
  "unpack_lfu (pack_lfu c m) = (c, m)
   \<and> unat (decayed_counter c last_stamp m d) =
       (if d = 0 then unat c else unat c - min (unat (m - last_stamp) div unat d) 255)
   \<and> unat c \<le> unat (probabilistic_increment rnd c x) \<and> unat (probabilistic_increment rnd c x) \<le> unat c + 1"
proof -
  have "unat (c + 1) = unat c + 1" if "c \<noteq> 255"
  proof -
    have "unat c < 256" using unsigned_less [of c, where 'a = nat] by simp
    moreover have "unat c \<noteq> unat (255 :: u8)" using that unsigned_word_eqI by blast
    ultimately show ?thesis by (simp add: unat_word_ariths)
  qed
  then show ?thesis by (simp add: unat_decayed_counter probabilistic_increment_def Let_def)
qed

text \<open>The xorshift generator never gets stuck at zero, and the samples it yields lie in the half-open unit
  interval, in every state the engine can reach.\<close>

theorem rng_never_stuck:
  assumes "reachable s"
  shows "e_rng s \<noteq> 0 \<and> e_rng (snd (next_rand01 s)) \<noteq> 0
     \<and> 0 \<le> fst (next_rand01 s) \<and> fst (next_rand01 s) < 1"
proof -
  have nz: "e_rng s \<noteq> 0" using reachable_inv [OF assms] by (simp add: engine_inv_def)
  have "unat (drop_bit 8 x) < 16777216" for x :: u32
    using unsigned_less [of x, where 'a = nat]
    by (simp add: drop_bit_eq_div unat_div less_mult_imp_div_less)
  then have "(of_nat (unat (drop_bit 8 x)) :: rat) < of_nat 16777216" for x :: u32 by (simp only: of_nat_less_iff)
  then have "rand01_of x < 1" for x by (simp add: rand01_of_def)
  moreover have "0 \<le> rand01_of x" for x unfolding rand01_of_def by (intro divide_nonneg_nonneg of_nat_0_le_iff) simp
  ultimately show ?thesis using nz xorshift32_nonzero [OF nz] by (simp add: next_rand01_def Let_def)
qed

theorem rng_never_stuck_witness: "e_rng engine_two \<noteq> 0 \<and> fst (next_rand01 engine_two) < 1"
  using rng_never_stuck [OF reachable_samples(3)] by blast

fun observe_all :: "(rat \<Rightarrow> rat) \<Rightarrow> (nat \<times> nat) list \<Rightarrow> ahe_state \<Rightarrow> ahe_state" where
  "observe_all rnd [] a = a"
| "observe_all rnd ((h, m) # seen) a = observe_all rnd seen (snd (ahe_observe rnd h m a))"

lemma ahe_observe_alpha:
  assumes "mono rnd" "rnd (1 / 20) \<le> ah_alpha a" "ah_alpha a \<le> rnd (19 / 20)"
  shows "rnd (1 / 20) \<le> ah_alpha (snd (ahe_observe rnd h m a)) \<and> ah_alpha (snd (ahe_observe rnd h m a)) \<le> rnd (19 / 20)"
proof -
  have "rnd (1 / 20) \<le> rnd (19 / 20)" using assms(1) by (rule monoD) simp
  with assms(2,3) show ?thesis by (simp add: ahe_observe_def Let_def)
qed

text \<open>The weight the adaptive controller steers stays between 0.05 and 0.95 (as rounded to 32-bit floats)
  whatever hit and miss counts it observes; rounding only has to be monotone and exact on one half.\<close>

theorem ahe_alpha_bounded:
  assumes "mono rnd" "rnd (1 / 2) = 1 / 2"
  shows "rnd (1 / 20) \<le> ah_alpha (observe_all rnd seen (ahe_default rnd))
     \<and> ah_alpha (observe_all rnd seen (ahe_default rnd)) \<le> rnd (19 / 20)"
proof -
  have "rnd (1 / 20) \<le> ah_alpha (observe_all rnd seen a) \<and> ah_alpha (observe_all rnd seen a) \<le> rnd (19 / 20)"
    if "rnd (1 / 20) \<le> ah_alpha a" "ah_alpha a \<le> rnd (19 / 20)" for a
    using that
  proof (induction seen arbitrary: a)
    case (Cons o1 seen)
    obtain h m where o1: "o1 = (h, m)" by (cases o1)
    from ahe_observe_alpha [OF assms(1) Cons.prems, of h m] Cons.IH [of "snd (ahe_observe rnd h m a)"]
    show ?case unfolding o1 observe_all.simps by blast
  qed simp
  moreover have "rnd (1 / 20) \<le> 1 / 2" "1 / 2 \<le> rnd (19 / 20)"
    using monoD [OF assms(1), of "1 / 20" "1 / 2"] monoD [OF assms(1), of "1 / 2" "19 / 20"] assms(2) by simp_all
  ultimately show ?thesis by (simp add: ahe_default_def AHE_DEFAULT_ALPHA_def)
qed

theorem ahe_alpha_bounded_witness:
  "1 / 20 \<le> ah_alpha (observe_all (\<lambda>x. x) [(3, 4), (9, 9)] (ahe_default (\<lambda>x. x)))"
  using ahe_alpha_bounded [of "\<lambda>x. x" "[(3, 4), (9, 9)]"] by (simp add: mono_def)

lemma trim_front_drop: "trim_front cap xs = drop (length xs - cap) xs"
  by (induction xs) (auto simp: Suc_diff_le)

text \<open>The slow log never holds more entries than configured (one when the limit is zero), keeps the newest
  ones in order, and answers with the newest first.\<close>

theorem slowlog_keeps_newest:
  "length (trim_front cap entries) = min (length entries) cap
   \<and> trim_front cap entries = drop (length entries - cap) entries
   \<and> (let s' = maybe_push_slowlog args peer us secs s in
      if slowlog_would_log us s
      then slowlog_len s' = min (slowlog_len s + 1) (max (e_slowlog_max_len s) 1)
         \<and> (\<exists>e. slowlog_get (Some 1) s' = [e] \<and> sl_args e = args \<and> sl_id e = wrap_u64 (e_slowlog_seq s + 1))
      else s' = s)"
  by (auto simp: trim_front_drop maybe_push_slowlog_def slowlog_len_def slowlog_get_def Let_def rev_drop)

text \<open>The comparison of secrets that always looks at every byte is equality.\<close>

theorem constant_time_eq_is_equality: "constant_time_eq a b \<longleftrightarrow> a = b"
  by (auto simp: constant_time_eq_def ct_diff_zero)

text \<open>Every eviction policy is found again by the name under which it is reported, and only that name.\<close>

theorem policy_name_roundtrip: "from_name s = Some p \<longleftrightarrow> s = policy_name p"
  using from_name_Some by auto

end
