(* ===== verification/Conversation.thy ===== *)
theory Conversation
  imports Connection Reachable
begin

text \<open>
  From the bytes of a connection to the abstract keyspace. A data command of the protocol is an
  operation of the engine (\<open>command_op\<close>) and its reply on the wire is a function of the engine's reply
  (\<open>reply_bytes\<close>); frames received in any packets are executed in order; so what a client of an engine
  without a memory limit reads is computed from the abstract map with deadlines alone.
\<close>

section \<open>Commands as engine operations\<close>

definition expire_deadline :: "call_env \<Rightarrow> int option \<Rightarrow> int" where
  "expire_deadline ce delta =
     (case delta of Some d \<Rightarrow> saturate_i64 (now_ms (ce_env ce) + d) | None \<Rightarrow> now_ms (ce_env ce))"

fun command_op :: "call_env \<Rightarrow> 'f command \<Rightarrow> (env \<times> env \<times> engine_op) option" where
  "command_op ce (Set k val) = Some (ce_env ce, ce_env2 ce, OSet k val)"
| "command_op ce (SetNx k val) = Some (ce_env ce, ce_env2 ce, OSetNx k val)"
| "command_op ce (MSet ps) = Some (ce_env ce, ce_env2 ce, OMset ps)"
| "command_op ce (MGet ks) = Some (ce_env ce, ce_env2 ce, OMget ks)"
| "command_op ce (IncrBy k d) = Some (ce_env ce, ce_env2 ce, OIncrBy k d)"
| "command_op ce (Get k) = Some (ce_env ce, ce_env2 ce, OGet k)"
| "command_op ce (Del ks) = Some (ce_env ce, ce_env2 ce, ODelMany ks)"
| "command_op ce (Exists ks) = Some (ce_env ce, ce_env2 ce, OExistsMany ks)"
| "command_op ce (Append k val) = Some (ce_env ce, ce_env2 ce, OAppend k val)"
| "command_op ce (StrLen k) = Some (ce_env ce, ce_env2 ce, OStrlen k)"
| "command_op ce DbSize = Some (ce_env ce, ce_env2 ce, ODbsize)"
| "command_op ce FlushDb = Some (ce_env ce, ce_env2 ce, OFlushdb)"
| "command_op ce (Expire k n) =
     Some (ce_env2 ce, ce_env2 ce, OExpireAt k (expire_deadline ce (checked_seconds_to_ms n)))"
| "command_op ce (PExpire k n) = Some (ce_env2 ce, ce_env2 ce, OExpireAt k (expire_deadline ce (Some n)))"
| "command_op ce (PExpireAt k n) = Some (ce_env ce, ce_env2 ce, OExpireAt k n)"
| "command_op ce (Persist k) = Some (ce_env ce, ce_env2 ce, OPersist k)"
| "command_op ce (Ttl k) = Some (ce_env ce, ce_env2 ce, OTtl k)"
| "command_op ce (PTtl k) = Some (ce_env ce, ce_env2 ce, OTtl k)"
| "command_op ce (MemoryUsage k) = Some (ce_env ce, ce_env2 ce, OMemoryUsage k)"
| "command_op ce _ = None"

fun reply_bytes :: "protocol_version \<Rightarrow> 'f command \<Rightarrow> reply \<Rightarrow> bytes" where
  "reply_bytes ver cmd (RErr e) = write_ferrum_error e"
| "reply_bytes ver cmd RUnit = OK_reply"
| "reply_bytes ver cmd (RBool b) = enc_bool ver b"
| "reply_bytes ver cmd (RNat n) = encode_integer (as_i64 n)"
| "reply_bytes ver cmd (RInt n) = encode_integer n"
| "reply_bytes ver (Set _ _) (RBulk _) = OK_reply"
| "reply_bytes ver cmd (RBulk x) = enc_bulk_or_null ver x"
| "reply_bytes ver cmd (RBulks xs) = encode_array_header (length xs) @ concat (map (enc_bulk_or_null ver) xs)"
| "reply_bytes ver (Ttl _) (RTtl t) = ttl_reply (\<lambda>ms. (ms + 999) div 1000) t"
| "reply_bytes ver cmd (RTtl t) = ttl_reply (\<lambda>ms. ms) t"
| "reply_bytes ver cmd (RUsage n) = (case n of Some n \<Rightarrow> encode_integer (as_i64 n) | None \<Rightarrow> enc_null ver)"

lemma reply_with_reply_of:
  "map_prod (reply_with enc) id p = map_prod (reply_bytes ver cmd) id (reply_of f p)"
  if "\<And>a. enc a = reply_bytes ver cmd (f a)"
  using that by (cases p) (auto simp: reply_of_def reply_with_def split: sum.splits)

lemma dispatch_run_op:
  assumes "command_op ce cmd = Some (v, v2, op)"
  shows "dispatch pf ce ver cmd s = map_prod (reply_bytes ver cmd) id (run_op v v2 op s)"
proof (cases cmd)
  case (Expire k n)
  then show ?thesis using assms
    by (auto simp: expire_reply_def expire_deadline_def write_bool_integer_def reply_with_def Let_def
        prod.map_comp o_def id_def)
next
  case (PExpire k n)
  then show ?thesis using assms
    by (auto simp: expire_reply_def expire_deadline_def write_bool_integer_def reply_with_def Let_def
        prod.map_comp o_def id_def)
qed (use assms in \<open>auto simp: prod.map_comp o_def intro!: reply_with_reply_of prod.map_cong
    split: option.splits\<close>)

section \<open>Executing data commands in order\<close>

fun serve_all ::
  "'f conn_env \<Rightarrow> nat \<Rightarrow> protocol_version \<Rightarrow> 'f command list \<Rightarrow> engine \<Rightarrow> bytes \<times> engine" where
  "serve_all x i ver [] s = ([], s)"
| "serve_all x i ver (cmd # cmds) s =
     (let ((out, msg), s1) = execute_command (x_platform x) (x_calls x i) (Some (x_peer x)) ver cmd s;
          (outs, s2) = serve_all x (i + 1) ver cmds s1
      in (out @ outs, s2))"

definition data_command :: "'f command \<Rightarrow> bool" where
  "data_command cmd \<longleftrightarrow> (\<forall>ce. command_op ce cmd \<noteq> None)"

text \<open>The administration part of the state: the password, the slow log and the command counter. No data
  command touches it.\<close>

definition admin where
  "admin s = (e_auth_password s, e_auth_required s, e_slowlog_slower_than_us s, e_slowlog_max_len s,
     e_slowlog s, e_slowlog_seq s, e_total_commands s)"

abbreviation g_admin where
  "g_admin g \<equiv> admin (g_engine g)"

named_theorems admin_simps \<open>operations that keep the administration state\<close>

lemma admin_engine [simp]:
  "admin (s\<lparr>e_store := st\<rparr>) = admin s" "admin (s\<lparr>e_expired_keys := n\<rparr>) = admin s"
  "admin (s\<lparr>e_evicted_keys := n\<rparr>) = admin s" "admin (s\<lparr>e_sweep_cursor := n\<rparr>) = admin s"
  "admin (aof_note f s) = admin s" "admin (log_expire_drop k s) = admin s"
  "admin (record_hit s) = admin s" "admin (record_miss s) = admin s"
  "admin (touch_access v k s) = admin s" "admin (apply_delta d s) = admin s"
  "admin (sieve_notify_insert k b s) = admin s" "admin (ac_notify_insert k b s) = admin s"
  "admin (sieve_notify_remove k s) = admin s" "admin (ac_notify_remove k s) = admin s"
  "admin (track_clear s) = admin s" "admin (untrack k e s) = admin s"
  "admin (engine_ahe_observe v s) = admin s"
  by (auto simp: admin_def aof_note_def note_aof_result_def log_expire_drop_def record_hit_def record_miss_def
      touch_access_def next_rand01_def sieve_notify_access_def ac_notify_access_def apply_delta_def
      sieve_notify_insert_def ac_notify_insert_def sieve_notify_remove_def ac_notify_remove_def
      track_clear_def untrack_def engine_ahe_observe_def case_prod_unfold Let_def
      split: option.splits sum.splits)

lemma admin_track [simp]:
  "admin (snd (track_insert k e s)) = admin s" "admin (snd (track_remove k s)) = admin s"
  by (auto simp: track_insert_def track_remove_def Let_def split: option.splits)

lemma admin_select: "select_victim v cfg s = (q, s') \<Longrightarrow> admin s' = admin s"
  by (auto simp: select_victim_def evict_sieve_def evict_ac_def admin_def Let_def split: if_splits prod.splits)

lemma admin_evict: "evict_loop n v cfg inc k s = (r, s') \<Longrightarrow> admin s' = admin s"
proof (induction n arbitrary: k s)
  case (Suc n)
  show ?case
    using Suc.prems
    by (fastforce simp: Let_def split: prod.splits option.splits if_splits dest!: Suc.IH dest: admin_select)
qed simp

lemma admin_enforce [simp]: "g_admin (snd (wg_enforce v k n g)) = g_admin g"
  by (auto simp: wg_enforce_def enforce_for_write_def enforce_memory_limit_def Let_def
      split: prod.splits sum.splits dest: admin_evict)

lemma admin_guard [simp]:
  "g_admin (wg_begin s) = admin s" "admin (wg_drop g) = g_admin g" "g_admin (wg_log f g) = g_admin g"
  "g_admin (wg_put k e g) = g_admin g" "g_admin (wg_expire_drop k g) = g_admin g"
  "g_admin (wg_clear g) = g_admin g"
  by (auto simp: wg_begin_def wg_drop_def wg_log_def wg_put_def wg_do_def wg_expire_drop_def wg_clear_def
      split: option.splits)

lemma admin_reads [simp]:
  "g_admin (snd (wg_fetch_live v k g)) = g_admin g" "g_admin (snd (wg_contains_live v k g)) = g_admin g"
  "g_admin (snd (wg_read_state v k g)) = g_admin g" "g_admin (snd (wg_ttl_of v k g)) = g_admin g"
  "g_admin (snd (wg_strlen_of v k g)) = g_admin g" "g_admin (snd (wg_memory_of v k g)) = g_admin g"
  by (auto simp: wg_fetch_live_def wg_contains_live_def wg_read_state_def wg_ttl_of_def wg_strlen_of_def
      wg_memory_of_def wg_do_def split: option.splits)

lemma admin_removes [simp]:
  "g_admin (snd (wg_remove v k g)) = g_admin g" "g_admin (snd (wg_expire_at v k n g)) = g_admin g"
  "g_admin (snd (wg_persist v k g)) = g_admin g"
  by (auto simp: wg_remove_def wg_expire_at_def wg_persist_def wg_do_def Let_def split: option.splits)

lemma admin_enforceD: "wg_enforce v k n g = (r, g') \<Longrightarrow> g_admin g' = g_admin g"
  by (metis admin_enforce snd_conv)

lemma admin_put_pairs [simp]: "g_admin (put_pairs v ps g) = g_admin g"
  by (induction v ps g rule: put_pairs.induct) simp_all

lemma admin_enforce_pairs: "enforce_pairs v ps g = (r, g') \<Longrightarrow> g_admin g' = g_admin g"
  by (induction v ps g rule: enforce_pairs.induct)
    (auto split: prod.splits sum.splits dest: admin_enforceD)

lemma admin_inserts [simp]:
  "g_admin (snd (wg_insert v k val g)) = g_admin g"
  "g_admin (snd (wg_insert_nx v k val g)) = g_admin g"
  "g_admin (snd (wg_insert_many v ps g)) = g_admin g"
  "g_admin (snd (wg_insert_keep_ttl v k val ttl g)) = g_admin g"
  by (auto simp: wg_insert_def wg_insert_nx_def wg_insert_many_def wg_insert_keep_ttl_def wg_do_def Let_def
      split: sum.splits prod.splits option.splits dest!: admin_enforceD admin_enforce_pairs)

lemma admin_insert_keep_ttlD: "wg_insert_keep_ttl v k val ttl g = (r, g') \<Longrightarrow> g_admin g' = g_admin g"
  by (metis admin_inserts(4) snd_conv)

lemma admin_read_stateD: "wg_read_state v k g = (r, g') \<Longrightarrow> g_admin g' = g_admin g"
  by (metis admin_reads(3) snd_conv)

lemma admin_incr_append:
  "admin (snd (kv_incr_by v k d s)) = admin s" "admin (snd (kv_append v k val s)) = admin s"
  by (auto simp: kv_incr_by_def kv_append_def Let_def split: sum.splits prod.splits option.splits
      dest!: admin_insert_keep_ttlD admin_read_stateD)

lemma admin_remove_keys [simp]: "g_admin (snd (remove_keys v ks g)) = g_admin g"
  by (induction v ks g rule: remove_keys.induct) (auto simp: Let_def case_prod_unfold wg_do_def)

lemma admin_log_dels [simp]: "g_admin (log_dels ks g) = g_admin g"
  by (induction ks g rule: log_dels.induct) simp_all

lemma admin_scans [simp]:
  "admin (snd (mget_scan v ks s)) = admin s" "admin (snd (exists_scan v ks s)) = admin s"
  by (induction ks arbitrary: s) (auto simp: case_prod_unfold Let_def split: probe.splits)

lemma admin_all [simp]:
  "g_admin (fetch_all v ks g) = g_admin g" "g_admin (snd (contains_all v ks n g)) = g_admin g"
  by (induction ks arbitrary: g n) (auto simp: case_prod_unfold Let_def)

lemma admin_drop_victims [simp]: "admin (drop_victims ks s) = admin s"
  by (induction ks s rule: drop_victims.induct) (simp_all add: Let_def)

lemma run_op_admin: "admin (snd (run_op v v2 op s)) = admin s"
  by (cases op)
    (auto simp: kv_set_def kv_set_nx_def kv_mset_def kv_get_def kv_mget_def kv_exists_def
      kv_exists_many_def kv_strlen_def kv_ttl_ms_def kv_memory_usage_def kv_del_def kv_del_many_def
      kv_flushdb_def kv_expire_at_ms_def kv_persist_def kv_sweep_expired_def wg_remove_many_def
      admin_incr_append case_prod_unfold Let_def split: probe.splits)

section \<open>Frames of data commands are executed in order\<close>

definition wire :: "('f \<Rightarrow> bytes) \<Rightarrow> 'f command \<Rightarrow> bytes" where
  "wire fs cmd = encode_command (command_args fs cmd)"

text \<open>What a client may send: a data command whose arguments fit the limits of the parser.\<close>

definition sendable :: "'f conn_env \<Rightarrow> 'f command \<Rightarrow> bool" where
  "sendable x cmd \<longleftrightarrow> data_command cmd
     \<and> command_ok (f_parse (pf_f64 (x_platform x))) (f_show (pf_f64 (x_platform x))) cmd
     \<and> frame_ok (command_args (f_show (pf_f64 (x_platform x))) cmd)"

lemma data_command_not:
  "data_command cmd \<Longrightarrow> cmd \<noteq> Monitor" "data_command cmd \<Longrightarrow> cmd \<noteq> Auth pw" "data_command cmd \<Longrightarrow> cmd \<noteq> Hello v"
  by (auto simp: data_command_def)

lemma handle_data_command:
  assumes "data_command cmd" "c_authed c \<or> \<not> e_auth_required s"
  shows "handle_command x cmd c s =
    (let ((out, msg), s1) = execute_command (x_platform x) (x_calls x (c_frames c)) (Some (x_peer x)) (c_version c) cmd s
     in (put_out out (c\<lparr>c_broadcast := c_broadcast c @ (case msg of None \<Rightarrow> [] | Some m \<Rightarrow> [m])\<rparr>), s1))"
  using assms by (cases cmd) (auto simp: handle_command_def data_command_def)

lemma admin_auth: "admin s = admin s' \<Longrightarrow> e_auth_required s = e_auth_required s'"
  by (simp add: admin_def)

abbreviation counted_call :: "engine \<Rightarrow> engine" where
  "counted_call s \<equiv> s\<lparr>e_total_commands := wrap_u64 (e_total_commands s + 1)\<rparr>"

lemma execute_data:
  assumes "command_op ce cmd = Some (v, v2, op)"
  shows "fst (fst (execute_command pf ce client ver cmd s)) = reply_bytes ver cmd (fst (run_op v v2 op (counted_call s)))"
    and "\<exists>sl sq. snd (execute_command pf ce client ver cmd s) =
       (snd (run_op v v2 op (counted_call s)))\<lparr>e_slowlog := sl, e_slowlog_seq := sq\<rparr>"
proof -
  show "fst (fst (execute_command pf ce client ver cmd s)) = reply_bytes ver cmd (fst (run_op v v2 op (counted_call s)))"
    using dispatch_run_op [OF assms(1), of pf ver "counted_call s"]
    by (simp add: execute_command_def Let_def case_prod_unfold)
  have "\<exists>sl sq. (if b then maybe_push_slowlog a p d t s1 else s1) = s1\<lparr>e_slowlog := sl, e_slowlog_seq := sq\<rparr>"
    for b a p d t and s1 :: engine
  proof -
    have "s1 = s1\<lparr>e_slowlog := e_slowlog s1, e_slowlog_seq := e_slowlog_seq s1\<rparr>" by simp
    moreover have "s1\<lparr>e_slowlog_seq := q, e_slowlog := l\<rparr> = s1\<lparr>e_slowlog := l, e_slowlog_seq := q\<rparr>" for q l by simp
    ultimately show ?thesis unfolding maybe_push_slowlog_def Let_def by metis
  qed
  then show "\<exists>sl sq. snd (execute_command pf ce client ver cmd s) =
       (snd (run_op v v2 op (counted_call s)))\<lparr>e_slowlog := sl, e_slowlog_seq := sq\<rparr>"
    unfolding execute_command_def Let_def case_prod_unfold dispatch_run_op [OF assms(1)] snd_map_prod id_def snd_conv
    by blast
qed

lemma execute_data_auth:
  assumes "data_command cmd"
  shows "e_auth_required (snd (execute_command pf ce client ver cmd s)) = e_auth_required s"
proof -
  obtain v v2 op where o: "command_op ce cmd = Some (v, v2, op)"
    using assms unfolding data_command_def by (metis not_None_eq prod_cases3)
  have "e_auth_required (snd (run_op v v2 op (counted_call s))) = e_auth_required (counted_call s)"
    by (rule admin_auth [OF run_op_admin])
  then show ?thesis using execute_data(2) [OF o, of pf client ver s] by auto
qed

lemma conn_frame_data:
  assumes ok: "\<forall>i. x_write_ok x i" and cmd: "sendable x cmd"
    and auth: "c_authed c \<or> \<not> e_auth_required s"
    and buf: "c_inbuf c = wire (f_show (pf_f64 (x_platform x))) cmd @ rest"
    and ex: "execute_command (x_platform x) (x_calls x (c_frames c)) (Some (x_peer x)) (c_version c) cmd s
      = ((out, msg), s1)"
  shows "\<exists>c1. conn_frame x c s = Next c1 s1 \<and> c_inbuf c1 = rest \<and> c_sent c1 @ c_outbuf c1 = c_sent c @ c_outbuf c @ out
    \<and> c_authed c1 = c_authed c \<and> c_version c1 = c_version c \<and> c_frames c1 = c_frames c + 1"
proof -
  let ?fs = "f_show (pf_f64 (x_platform x))"
  have d: "data_command cmd" using cmd by (simp add: sendable_def)
  have "parse_frame (f_parse (pf_f64 (x_platform x))) (c_inbuf c) = Ok (Complete cmd (length (wire ?fs cmd)))"
    using cmd build_command_args [of _ ?fs cmd] by (simp add: buf wire_def sendable_def parse_frame_encode)
  moreover have "handle_command x cmd c s =
      (put_out out (c\<lparr>c_broadcast := c_broadcast c @ (case msg of None \<Rightarrow> [] | Some m \<Rightarrow> [m])\<rparr>), s1)"
    using handle_data_command [OF d auth, of x] ex by simp
  ultimately show ?thesis
    using ok data_command_not(1) [OF d] buf
    by (simp add: conn_frame_def after_frame_def write_all_def put_out_def Let_def)
qed

lemma drain_frames:
  assumes ok: "\<forall>i. x_write_ok x i"
  shows "list_all (sendable x) cmds \<Longrightarrow> c_authed c \<or> \<not> e_auth_required s \<Longrightarrow>
    c_inbuf c = concat (map (wire (f_show (pf_f64 (x_platform x)))) cmds) \<Longrightarrow>
    serve_all x (c_frames c) (c_version c) cmds s = (out, s') \<Longrightarrow>
    \<exists>c'. drain x c s = (None, c', s') \<and> c_inbuf c' = [] \<and> c_sent c' @ c_outbuf c' = c_sent c @ c_outbuf c @ out"
proof (induction cmds arbitrary: c s out)
  case Nil
  then have "conn_frame x c s = Done None c s" by (simp add: conn_frame_def parse_frame_def)
  then have "drain x c s = (None, c, s)" by (simp add: drain.simps [of x c s])
  then show ?case using Nil by auto
next
  case (Cons cmd cmds)
  obtain out1 msg s1 where ex:
    "execute_command (x_platform x) (x_calls x (c_frames c)) (Some (x_peer x)) (c_version c) cmd s = ((out1, msg), s1)"
    by (metis prod_cases3 prod.collapse)
  obtain outs where outs: "serve_all x (c_frames c + 1) (c_version c) cmds s1 = (outs, s')" "out = out1 @ outs"
    using Cons.prems(4) ex by (auto simp: Let_def split: prod.splits)
  have cmd: "sendable x cmd" using Cons.prems(1) by simp
  obtain c1 where c1: "conn_frame x c s = Next c1 s1"
    "c_inbuf c1 = concat (map (wire (f_show (pf_f64 (x_platform x)))) cmds)"
    "c_sent c1 @ c_outbuf c1 = c_sent c @ c_outbuf c @ out1"
    "c_authed c1 = c_authed c" "c_version c1 = c_version c" "c_frames c1 = c_frames c + 1"
    using conn_frame_data [OF ok cmd Cons.prems(2) _ ex] Cons.prems(3) by auto
  have "e_auth_required s1 = e_auth_required s"
    using execute_data_auth [of cmd] cmd ex by (metis sendable_def snd_conv)
  then have "c_authed c1 \<or> \<not> e_auth_required s1" using Cons.prems(2) c1(4) by simp
  then obtain c' where "drain x c1 s1 = (None, c', s')" "c_inbuf c' = []"
    "c_sent c' @ c_outbuf c' = c_sent c1 @ c_outbuf c1 @ outs"
    using Cons.IH [of c1 s1 outs] Cons.prems(1) c1 outs by auto
  then show ?case using c1(1,3) outs(2)
    by (metis (no_types, lifting) append.assoc drain.simps frame_step.case(1))
qed

section \<open>The abstract keyspace behind a connection\<close>

text \<open>The operations a run of data commands stands for, and the conditions on its clocks and on the memory
  counter, taken along the run.\<close>

fun op_trace :: "'f conn_env \<Rightarrow> nat \<Rightarrow> 'f command list \<Rightarrow> trace" where
  "op_trace x i [] = []"
| "op_trace x i (cmd # cmds) =
     (case command_op (x_calls x i) cmd of Some t \<Rightarrow> [t] | None \<Rightarrow> []) @ op_trace x (i + 1) cmds"

fun session_ok :: "'f conn_env \<Rightarrow> nat \<Rightarrow> protocol_version \<Rightarrow> instant \<Rightarrow> 'f command list \<Rightarrow> engine \<Rightarrow> bool" where
  "session_ok x i ver t [] s = True"
| "session_ok x i ver t (cmd # cmds) s =
     (case command_op (x_calls x i) cmd of
        None \<Rightarrow> False
      | Some (v, v2, op) \<Rightarrow>
          env_ok v \<and> t \<le> now v \<and> now v \<le> now v2 \<and> headroom s (op_bytes op)
          \<and> session_ok x (i + 1) ver (now v) cmds
              (snd (execute_command (x_platform x) (x_calls x i) (Some (x_peer x)) ver cmd s)))"

definition replies_on_wire :: "protocol_version \<Rightarrow> 'f command list \<Rightarrow> reply list \<Rightarrow> bytes" where
  "replies_on_wire ver cmds rs = concat (map (\<lambda>(cmd, r). reply_bytes ver cmd r) (zip cmds rs))"

lemma good_counted [simp]: "good c (s\<lparr>e_total_commands := n\<rparr>) = good c s"
  by (simp add: good_def engine_inv_def memory_ok_def index_ok_def auth_ok_def index_covers_def)

lemma good_slowlog [simp]: "good c (s\<lparr>e_slowlog := sl, e_slowlog_seq := sq\<rparr>) = good c s"
  by (simp add: good_def engine_inv_def memory_ok_def index_ok_def auth_ok_def index_covers_def)

lemma serve_all_refines:
  assumes "good (False, cfg) s" "max_memory cfg = 0" "session_ok x i ver t cmds s"
  shows "fst (serve_all x i ver cmds s) = replies_on_wire ver cmds (spec_trace (op_trace x i cmds) (view t s))"
  using assms
proof (induction cmds arbitrary: i t s)
  case Nil
  then show ?case by (simp add: replies_on_wire_def)
next
  case (Cons cmd cmds)
  obtain v v2 op where o: "command_op (x_calls x i) cmd = Some (v, v2, op)"
    using Cons.prems(3) by (cases "command_op (x_calls x i) cmd") auto
  let ?ex = "execute_command (x_platform x) (x_calls x i) (Some (x_peer x)) ver cmd s"
  have ok: "env_ok v" "t \<le> now v" "now v \<le> now v2" "headroom s (op_bytes op)"
    "session_ok x (i + 1) ver (now v) cmds (snd ?ex)"
    using Cons.prems(3) o by auto
  obtain r s1 where r: "run_op v v2 op (counted_call s) = (r, s1)" by (metis prod.exhaust)
  obtain sl sq where s2: "snd ?ex = s1\<lparr>e_slowlog := sl, e_slowlog_seq := sq\<rparr>"
    using execute_data(2) [OF o] r by (metis snd_conv)
  have g: "good (False, cfg) (counted_call s)" using Cons.prems(1) by simp
  have "headroom (counted_call s) (op_bytes op)" using ok(4) by (simp add: headroom_def)
  from run_op_good [OF g this, of v v2] have "good (False, cfg) (snd ?ex)" using r s2 by simp
  from Cons.IH [OF this Cons.prems(2) ok(5)]
  have ih: "fst (serve_all x (i + 1) ver cmds (snd ?ex)) =
     replies_on_wire ver cmds (spec_trace (op_trace x (i + 1) cmds) (view (now v) s1))"
    using s2 by simp
  have "map_prod id (view (now v)) (run_op v v2 op (counted_call s)) = spec_step v op (view (now v) s)"
    using run_op_refines_spec [of "counted_call s" v v2 op] g Cons.prems(2) ok
    by (simp add: good_def unlimited_def)
  then have "spec_step v op (expire_to (now v) (view t s)) = (r, view (now v) s1)"
    using r expire_to_vw [OF ok(2)] by simp
  moreover have "fst (fst ?ex) = reply_bytes ver cmd r" using execute_data(1) [OF o] r by (metis fst_conv)
  ultimately show ?case using ih o
    by (simp add: replies_on_wire_def Let_def case_prod_unfold)
qed

lemma conversation:
  assumes "good (False, cfg) s" "max_memory cfg = 0" "\<not> e_auth_required s"
    and ok: "\<forall>i. x_write_ok x i" and cmds: "list_all (sendable x) cmds"
    and chunks: "concat chunks = concat (map (wire (f_show (pf_f64 (x_platform x)))) cmds)"
    and lim: "length (concat chunks) \<le> READ_BUF_MAX"
    and sess: "session_ok x 0 Resp2 t cmds s"
  shows "\<exists>c s'. run_chunks x chunks conn_new s = (None, c, s') \<and> c_inbuf c = [] \<and>
    c_sent c @ c_outbuf c = replies_on_wire Resp2 cmds (spec_trace (op_trace x 0 cmds) (view t s))"
proof -
  let ?c = "ext (concat chunks) conn_new"
  obtain out s' where o: "serve_all x 0 Resp2 cmds s = (out, s')" by (metis prod.exhaust)
  have out: "out = replies_on_wire Resp2 cmds (spec_trace (op_trace x 0 cmds) (view t s))"
    using serve_all_refines [OF assms(1,2) sess] o by simp
  have c: "c_inbuf ?c = concat (map (wire (f_show (pf_f64 (x_platform x)))) cmds)" "c_frames ?c = 0"
    "c_version ?c = Resp2" "c_sent ?c @ c_outbuf ?c = []"
    by (simp_all add: chunks conn_new_def ext_def)
  from drain_frames [OF ok cmds _ c(1), of s out s'] assms(3) o c
  obtain c' where d: "drain x ?c s = (None, c', s')" "c_inbuf c' = []" "c_sent c' @ c_outbuf c' = out" by auto
  have "outcome (run_chunks x chunks conn_new s) = outcome (drain x ?c s)"
    using lim by (intro run_chunks_drain [OF ok]) (simp_all add: conn_new_def parse_frame_def)
  then show ?thesis using d out
    by (cases "run_chunks x chunks conn_new s") (auto simp: outcome_def split: if_splits)
qed

end
