(* ===== verification/Replay.thy ===== *)
theory Replay
  imports Reachable
begin

text \<open>
  Models \<^verbatim>\<open>src/src/persistence/replay.rs\<close>: the record reader, the resynchronisation after a
  malformed record, the application of a record to the engine and the replay loop with its
  truncation of a torn tail. The reader is the list of bytes not yet read; \<open>consumed\<close> counters and
  file positions are kept as in the code. Reads of the log file itself do not fail here (the
  \<^verbatim>\<open>Io\<close> errors of the code), and the text of the warnings is left out.
\<close>

section \<open>Reading a record\<close>

datatype read_error = UnexpectedEof nat | Malformed nat

type_synonym 'a rd = "(read_error + 'a) \<times> bytes \<times> nat"

definition expect_byte :: "bytes \<Rightarrow> nat \<Rightarrow> byte rd" where
  "expect_byte r consumed =
     (case r of [] \<Rightarrow> (Inl (UnexpectedEof consumed), [], consumed)
      | b # bs \<Rightarrow> (Inr b, bs, consumed + 1))"

definition read_exact_tracked :: "nat \<Rightarrow> bytes \<Rightarrow> nat \<Rightarrow> bytes rd" where
  "read_exact_tracked len r consumed =
     (if length r < len
      then (Inl (UnexpectedEof (consumed + length r)), [], consumed + length r)
      else (Inr (take len r), drop len r, consumed + len))"

fun read_number :: "bytes \<Rightarrow> bytes \<Rightarrow> nat \<Rightarrow> bytes rd" where
  "read_number number [] consumed = (Inl (UnexpectedEof consumed), [], consumed)"
| "read_number number (b # r) consumed =
     (if b = CR then
        (case expect_byte r (consumed + 1) of
           (Inl e, r, c) \<Rightarrow> (Inl e, r, c)
         | (Inr lf, r, c) \<Rightarrow> if lf \<noteq> LF then (Inl (Malformed c), r, c) else (Inr number, r, c))
      else read_number (number @ [b]) r (consumed + 1))"

definition read_integer :: "bytes \<Rightarrow> nat \<Rightarrow> int rd" where
  "read_integer r consumed =
     (case read_number [] r consumed of
        (Inl e, r, c) \<Rightarrow> (Inl e, r, c)
      | (Inr number, r, c) \<Rightarrow>
          (case parse_i64 number of None \<Rightarrow> (Inl (Malformed c), r, c) | Some n \<Rightarrow> (Inr n, r, c)))"

definition read_part :: "bytes \<Rightarrow> nat \<Rightarrow> bytes rd" where
  "read_part r consumed =
     (case expect_byte r consumed of
        (Inl e, r, c) \<Rightarrow> (Inl e, r, c)
      | (Inr marker, r, c) \<Rightarrow>
          if marker \<noteq> CHR ''$'' then (Inl (Malformed c), r, c)
          else case read_integer r c of
            (Inl e, r, c) \<Rightarrow> (Inl e, r, c)
          | (Inr len, r, c) \<Rightarrow>
              if len < 0 then (Inl (Malformed c), r, c)
              else case read_exact_tracked (nat len) r c of
                (Inl e, r, c) \<Rightarrow> (Inl e, r, c)
              | (Inr buf, r, c) \<Rightarrow>
                  (case expect_byte r c of
                     (Inl e, r, c) \<Rightarrow> (Inl e, r, c)
                   | (Inr cr, r, c) \<Rightarrow>
                       (case expect_byte r c of
                          (Inl e, r, c) \<Rightarrow> (Inl e, r, c)
                        | (Inr lf, r, c) \<Rightarrow>
                            if cr \<noteq> CR \<or> lf \<noteq> LF then (Inl (Malformed c), r, c)
                            else (Inr buf, r, c))))"

text \<open>The loop over the parts, with the number of parts the header announced.\<close>

fun read_parts :: "nat \<Rightarrow> bytes \<Rightarrow> nat \<Rightarrow> bytes list rd" where
  "read_parts 0 r consumed = (Inr [], r, consumed)"
| "read_parts (Suc n) r consumed =
     (case read_part r consumed of
        (Inl e, r, c) \<Rightarrow> (Inl e, r, c)
      | (Inr p, r, c) \<Rightarrow>
          (case read_parts n r c of
             (Inl e, r, c) \<Rightarrow> (Inl e, r, c)
           | (Inr ps, r, c) \<Rightarrow> (Inr (p # ps), r, c)))"

definition read_record :: "bytes \<Rightarrow> bytes list option rd" where
  "read_record r =
     (case r of
        [] \<Rightarrow> (Inr None, [], 0)
      | first # r \<Rightarrow>
          if first \<noteq> CHR ''*'' then (Inl (Malformed 1), r, 1)
          else case read_integer r 1 of
            (Inl e, r, c) \<Rightarrow> (Inl e, r, c)
          | (Inr array_len, r, c) \<Rightarrow>
              if array_len < 0 then (Inl (Malformed c), r, c)
              else case read_parts (nat array_len) r c of
                (Inl e, r, c) \<Rightarrow> (Inl e, r, c)
              | (Inr parts, r, c) \<Rightarrow> (Inr (Some parts), r, c))"

definition resync_to_next_array :: "bytes \<Rightarrow> bool \<times> bytes" where
  "resync_to_next_array r =
     (let r' = dropWhile (\<lambda>b. b \<noteq> CHR ''*'') r in (r' \<noteq> [], r'))"

section \<open>Applying a record\<close>

datatype apply_error = Unknown bytes | Arity bytes | EngineErr ferrum_error

definition upper_bytes :: "bytes \<Rightarrow> bytes" where
  "upper_bytes bs = map ascii_upper bs"

definition apply_record :: "env \<Rightarrow> bytes list \<Rightarrow> engine \<Rightarrow> (apply_error + unit) \<times> engine" where
  "apply_record v parts s =
     (case parts of
        [] \<Rightarrow> (Inl (Arity []), s)
      | cmd # args \<Rightarrow>
          let upper = upper_bytes cmd in
          if upper = ''SET'' then
            (case args of
               [k, val] \<Rightarrow> (case kv_set v k val s of
                  (Inl e, s) \<Rightarrow> (Inl (EngineErr e), s) | (Inr _, s) \<Rightarrow> (Inr (), s))
             | _ \<Rightarrow> (Inl (Arity cmd), s))
          else if upper = ''DEL'' then
            (case args of [k] \<Rightarrow> (Inr (), snd (kv_del v k s)) | _ \<Rightarrow> (Inl (Arity cmd), s))
          else if upper = ''FLUSHDB'' then
            (if args = [] then (Inr (), kv_flushdb s) else (Inl (Arity cmd), s))
          else if upper = ''PEXPIREAT'' then
            (case args of
               [k, ts] \<Rightarrow> (case parse_i64 ts of
                  None \<Rightarrow> (Inl (Arity cmd), s)
                | Some abs_ms \<Rightarrow> (Inr (), snd (kv_expire_at_ms v k abs_ms s)))
             | _ \<Rightarrow> (Inl (Arity cmd), s))
          else if upper = ''PERSIST'' then
            (case args of [k] \<Rightarrow> (Inr (), snd (kv_persist v k s)) | _ \<Rightarrow> (Inl (Arity cmd), s))
          else (Inl (Unknown cmd), s))"

section \<open>The replay loop\<close>

record replay_stats =
  applied :: nat
  skipped :: nat
  truncated_tail :: bool

definition replay_stats_default :: replay_stats where
  "replay_stats_default = \<lparr>applied = 0, skipped = 0, truncated_tail = False\<rparr>"

lemma read_number_length:
  "read_number num r c = (x, r', c') \<Longrightarrow> length r' \<le> length r"
  by (induction num r c rule: read_number.induct)
    (auto simp: expect_byte_def split: if_splits list.splits)

lemma read_integer_length: "read_integer r c = (x, r', c') \<Longrightarrow> length r' \<le> length r"
  by (auto simp: read_integer_def split: prod.splits sum.splits option.splits dest!: read_number_length)

lemma expect_byte_length: "expect_byte r c = (x, r', c') \<Longrightarrow> length r' \<le> length r"
  by (auto simp: expect_byte_def split: list.splits)

lemma read_part_length: "read_part r c = (x, r', c') \<Longrightarrow> length r' \<le> length r"
  by (auto simp: read_part_def read_exact_tracked_def
      split: prod.splits sum.splits if_splits dest!: expect_byte_length read_integer_length)

lemma read_parts_length: "read_parts n r c = (x, r', c') \<Longrightarrow> length r' \<le> length r"
proof (induction n arbitrary: r c x r' c')
  case (Suc n)
  then show ?case
    by (auto split: prod.splits sum.splits dest!: read_part_length) (metis le_trans)+
qed simp

lemma read_record_shorter: "read_record r = (x, r', c) \<Longrightarrow> r \<noteq> [] \<Longrightarrow> length r' < length r"
  by (auto simp: read_record_def split: list.splits if_splits prod.splits sum.splits
      dest!: read_integer_length read_parts_length)

lemma resync_shorter: "resync_to_next_array r = (b, r') \<Longrightarrow> length r' \<le> length r"
  by (auto simp: resync_to_next_array_def Let_def length_dropWhile_le)

function replay_loop ::
  "(nat \<Rightarrow> env) \<Rightarrow> nat \<Rightarrow> bytes \<Rightarrow> nat \<Rightarrow> replay_stats \<Rightarrow> engine
   \<Rightarrow> (ferrum_error + replay_stats \<times> nat) \<times> engine" where
  "replay_loop vs len r last_good stats s =
     (if r = [] then (Inr (stats, last_good), s)
      else case read_record r of
        (Inr None, r', c) \<Rightarrow> (Inr (stats, last_good), s)
      | (Inl (UnexpectedEof consumed), r', c) \<Rightarrow>
          (Inr (if consumed > 0 then stats\<lparr>truncated_tail := True\<rparr> else stats, last_good), s)
      | (Inl (Malformed consumed), r', c) \<Rightarrow>
          (let stats = stats\<lparr>skipped := skipped stats + 1\<rparr>;
               (found, r'') = resync_to_next_array r'
           in if found then replay_loop vs len r'' (last_good + consumed) stats s
              else (Inr (stats\<lparr>truncated_tail := True\<rparr>, last_good), s))
      | (Inr (Some parts), r', c) \<Rightarrow>
          (case apply_record (vs (applied stats + skipped stats)) parts s of
             (Inr _, s) \<Rightarrow>
               replay_loop vs len r' (len - length r') (stats\<lparr>applied := applied stats + 1\<rparr>) s
           | (Inl (EngineErr e), s) \<Rightarrow> (Inl e, s)
           | (Inl _, s) \<Rightarrow>
               replay_loop vs len r' (len - length r') (stats\<lparr>skipped := skipped stats + 1\<rparr>) s))"
  by pat_completeness auto
termination
proof (relation "measure (\<lambda>(vs, len, r, lg, st, s). length r)", goal_cases)
  case (2 vs len r lg stats s)
  then show ?case
    by (fastforce dest!: read_record_shorter [OF sym] resync_shorter [OF sym])
qed (auto dest!: read_record_shorter [OF sym])

declare replay_loop.simps [simp del]

text \<open>\<^verbatim>\<open>replay\<close>: no file gives empty statistics; the result carries the file afterwards.\<close>

definition replay ::
  "(nat \<Rightarrow> env) \<Rightarrow> bytes option \<Rightarrow> engine \<Rightarrow> replay_stats result \<times> bytes option \<times> engine" where
  "replay vs file s =
     (case file of
        None \<Rightarrow> (Ok replay_stats_default, None, s)
      | Some f \<Rightarrow>
          (case replay_loop vs (length f) f 0 replay_stats_default s of
             (Inl e, s) \<Rightarrow> (Err e, Some f, s)
           | (Inr (stats, last_good), s) \<Rightarrow>
               (Ok stats, Some (if truncated_tail stats then take last_good f else f), s)))"

section \<open>Reading what the writer wrote\<close>

definition record_ok :: "bytes list \<Rightarrow> bool" where
  "record_ok parts \<longleftrightarrow> in_i64 (int (length parts)) \<and> (\<forall>p\<in>set parts. in_i64 (int (length p)))"

lemma read_number_plain:
  "\<forall>b\<in>set ds. b \<noteq> CR \<Longrightarrow>
   read_number num (ds @ CRLF @ post) c = (Inr (num @ ds), post, c + length ds + 2)"
  by (induction ds arbitrary: num c) (auto simp: expect_byte_def)

lemma read_integer_show:
  assumes "in_i64 (int n)"
  shows "read_integer (show_nat n @ CRLF @ post) c = (Inr (int n), post, c + length (show_nat n) + 2)"
proof -
  have "\<forall>b\<in>set (show_nat n). b \<noteq> CR" using show_nat_digits is_digit_not_special by blast
  from read_number_plain [OF this] show ?thesis using assms by (simp add: read_integer_def)
qed

lemma read_part_encode:
  assumes "in_i64 (int (length p))"
  shows "read_part (encode_part p @ post) c = (Inr p, post, c + length (encode_part p))"
  using read_integer_show [OF assms, of "p @ CRLF @ post" "c + 1"]
  by (simp add: read_part_def encode_part_def expect_byte_def read_exact_tracked_def)

lemma read_parts_encode:
  assumes "\<forall>p\<in>set ps. in_i64 (int (length p))"
  shows "read_parts (length ps) (concat (map encode_part ps) @ post) c
     = (Inr ps, post, c + length (concat (map encode_part ps)))"
  using assms
proof (induction ps arbitrary: c)
  case (Cons p ps)
  then show ?case using read_part_encode [of p "concat (map encode_part ps) @ post" c] by simp
qed simp

lemma read_record_encode:
  assumes "record_ok parts"
  shows "read_record (encode_command parts @ post) = (Inr (Some parts), post, length (encode_command parts))"
proof -
  have "in_i64 (int (length parts))" "\<forall>p\<in>set parts. in_i64 (int (length p))"
    using assms by (auto simp: record_ok_def)
  note i = read_integer_show [OF this(1), of "concat (map encode_part parts) @ post" 1]
    and p = read_parts_encode [OF this(2), of post]
  show ?thesis
    using i p [of "Suc (Suc (Suc (length (show_nat (length parts)))))"]
    by (simp add: read_record_def encode_command_def)
qed

section \<open>A torn record is recognised\<close>

definition decided :: "'a rd \<Rightarrow> bool" where
  "decided x \<longleftrightarrow> (case fst x of Inl (UnexpectedEof _) \<Rightarrow> False | _ \<Rightarrow> True)"

definition extend :: "bytes \<Rightarrow> 'a rd \<Rightarrow> 'a rd" where
  "extend tail x = (fst x, fst (snd x) @ tail, snd (snd x))"

lemma expect_byte_extend: "decided (expect_byte r c) \<Longrightarrow> expect_byte (r @ tail) c = extend tail (expect_byte r c)"
  by (cases r) (auto simp: expect_byte_def decided_def extend_def)

lemma read_exact_extend:
  "decided (read_exact_tracked n r c) \<Longrightarrow> read_exact_tracked n (r @ tail) c = extend tail (read_exact_tracked n r c)"
  by (auto simp: read_exact_tracked_def decided_def extend_def split: if_splits)

lemma read_number_extend:
  "decided (read_number num r c) \<Longrightarrow> read_number num (r @ tail) c = extend tail (read_number num r c)"
proof (induction num r c rule: read_number.induct)
  case (2 num b r c)
  show ?case
  proof (cases "b = CR")
    case True
    then have "decided (expect_byte r (c + 1))"
      using "2.prems" by (auto simp: decided_def split: prod.splits sum.splits)
    from expect_byte_extend [OF this, of tail] show ?thesis
      using True by (auto simp: extend_def split: prod.splits sum.splits)
  next
    case False
    then show ?thesis using 2 by simp
  qed
qed (simp add: decided_def)

lemma read_integer_extend:
  assumes "decided (read_integer r c)"
  shows "read_integer (r @ tail) c = extend tail (read_integer r c)"
proof -
  have "decided (read_number [] r c)"
    using assms by (auto simp: read_integer_def decided_def split: prod.splits sum.splits)
  from read_number_extend [OF this, of tail] show ?thesis
    by (auto simp: read_integer_def extend_def split: prod.splits sum.splits option.splits)
qed

lemma read_part_extend:
  assumes "decided (read_part r c)"
  shows "read_part (r @ tail) c = extend tail (read_part r c)"
proof -
  have d1: "decided (expect_byte r c)"
    using assms by (auto simp: read_part_def decided_def split: prod.splits sum.splits)
  obtain x1 r1 c1 where 1: "expect_byte r c = (x1, r1, c1)" by (metis prod.exhaust)
  note e1 = expect_byte_extend [OF d1, of tail, unfolded 1 extend_def fst_conv snd_conv]
  show ?thesis
  proof (cases "x1 = Inr (CHR ''$'')")
    case False
    then show ?thesis using 1 e1 by (auto simp: read_part_def extend_def split: sum.splits)
  next
    case m: True
    have d2: "decided (read_integer r1 c1)"
      using assms 1 m by (auto simp: read_part_def decided_def split: prod.splits sum.splits)
    obtain x2 r2 c2 where 2: "read_integer r1 c1 = (x2, r2, c2)" by (metis prod.exhaust)
    note e2 = read_integer_extend [OF d2, of tail, unfolded 2 extend_def fst_conv snd_conv]
    show ?thesis
    proof (cases "\<exists>len. x2 = Inr len \<and> 0 \<le> len")
      case False
      then show ?thesis using 1 e1 m 2 e2 by (auto simp: read_part_def extend_def split: sum.splits)
    next
      case True
      then obtain len where len: "x2 = Inr len" "0 \<le> len" by blast
      have d3: "decided (read_exact_tracked (nat len) r2 c2)"
        using assms 1 m 2 len by (auto simp: read_part_def decided_def split: prod.splits sum.splits)
      obtain x3 r3 c3 where 3: "read_exact_tracked (nat len) r2 c2 = (x3, r3, c3)" by (metis prod.exhaust)
      note e3 = read_exact_extend [OF d3, of tail, unfolded 3 extend_def fst_conv snd_conv]
      obtain buf where x3: "x3 = Inr buf" using d3 3
        by (auto simp: decided_def read_exact_tracked_def split: if_splits)
      have d4: "decided (expect_byte r3 c3)"
        using assms 1 m 2 len 3 x3 by (auto simp: read_part_def decided_def split: prod.splits sum.splits)
      obtain x4 r4 c4 where 4: "expect_byte r3 c3 = (x4, r4, c4)" by (metis prod.exhaust)
      note e4 = expect_byte_extend [OF d4, of tail, unfolded 4 extend_def fst_conv snd_conv]
      obtain cr where x4: "x4 = Inr cr" using d4 4
        by (auto simp: decided_def expect_byte_def split: list.splits)
      have d5: "decided (expect_byte r4 c4)"
        using assms 1 m 2 len 3 x3 4 x4
        by (auto simp: read_part_def decided_def split: prod.splits sum.splits)
      obtain x5 r5 c5 where 5: "expect_byte r4 c4 = (x5, r5, c5)" by (metis prod.exhaust)
      note e5 = expect_byte_extend [OF d5, of tail, unfolded 5 extend_def fst_conv snd_conv]
      show ?thesis
        using 1 e1 m 2 e2 len 3 e3 x3 4 e4 x4 5 e5
        by (auto simp: read_part_def extend_def split: sum.splits)
    qed
  qed
qed

lemma read_parts_extend:
  "decided (read_parts n r c) \<Longrightarrow> read_parts n (r @ tail) c = extend tail (read_parts n r c)"
proof (induction n arbitrary: r c)
  case 0
  then show ?case by (simp add: extend_def)
next
  case (Suc n)
  have d1: "decided (read_part r c)"
    using Suc.prems by (auto simp: decided_def split: prod.splits sum.splits)
  obtain x1 r1 c1 where 1: "read_part r c = (x1, r1, c1)" by (metis prod.exhaust)
  note e1 = read_part_extend [OF d1, of tail, unfolded 1 extend_def fst_conv snd_conv]
  show ?case
  proof (cases x1)
    case (Inl e)
    then show ?thesis using 1 e1 by (simp add: extend_def)
  next
    case (Inr p)
    then have "decided (read_parts n r1 c1)"
      using Suc.prems 1 by (auto simp: decided_def split: prod.splits sum.splits)
    from Suc.IH [OF this] show ?thesis
      using 1 e1 Inr by (auto simp: extend_def split: prod.splits sum.splits)
  qed
qed

lemma read_record_extend:
  assumes "decided (read_record r)" "r \<noteq> []"
  shows "read_record (r @ tail) = extend tail (read_record r)"
proof -
  obtain b r0 where r: "r = b # r0" using assms(2) by (cases r) auto
  show ?thesis
  proof (cases "b = CHR ''*''")
    case False
    then show ?thesis by (simp add: r read_record_def extend_def)
  next
    case b: True
    have d1: "decided (read_integer r0 1)"
      using assms(1) r b by (auto simp: read_record_def decided_def split: prod.splits sum.splits)
    obtain x1 r1 c1 where 1: "read_integer r0 1 = (x1, r1, c1)" by (metis prod.exhaust)
    note e1 = read_integer_extend [OF d1, of tail, unfolded 1 extend_def fst_conv snd_conv]
    show ?thesis
    proof (cases "\<exists>n. x1 = Inr n \<and> 0 \<le> n")
      case False
      then show ?thesis using r b 1 e1 by (auto simp: read_record_def extend_def split: sum.splits)
    next
      case True
      then obtain n where n: "x1 = Inr n" "0 \<le> n" by blast
      have "decided (read_parts (nat n) r1 c1)"
        using assms(1) r b 1 n by (auto simp: read_record_def decided_def split: prod.splits sum.splits)
      from read_parts_extend [OF this, of tail] show ?thesis
        using r b 1 e1 n by (auto simp: read_record_def extend_def split: prod.splits sum.splits)
    qed
  qed
qed

text \<open>The counter is the number of bytes taken from the reader, in the result as in the error.\<close>

definition counted :: "nat \<Rightarrow> nat \<Rightarrow> 'a rd \<Rightarrow> bool" where
  "counted c n x \<longleftrightarrow> snd (snd x) + length (fst (snd x)) = c + n
     \<and> (\<forall>k. fst x = Inl (UnexpectedEof k) \<longrightarrow> k = snd (snd x))"

lemma counted_simp [simp]:
  "counted c n (x, r, c') \<longleftrightarrow> c' + length r = c + n \<and> (\<forall>k. x = Inl (UnexpectedEof k) \<longrightarrow> k = c')"
  by (simp add: counted_def)

lemma expect_byte_counted: "counted c (length r) (expect_byte r c)"
  by (cases r) (auto simp: expect_byte_def)

lemma read_exact_counted: "counted c (length r) (read_exact_tracked n r c)"
  by (auto simp: read_exact_tracked_def)

lemma read_number_counted: "counted c (length r) (read_number num r c)"
proof (induction num r c rule: read_number.induct)
  case (2 num b r c)
  then show ?case using expect_byte_counted [of "c + 1" r]
    by (auto split: prod.splits sum.splits simp: counted_def)
qed simp

lemma read_integer_counted: "counted c (length r) (read_integer r c)"
  using read_number_counted [of c r "[]"]
  by (auto simp: read_integer_def counted_def split: prod.splits sum.splits option.splits)

lemma read_part_counted: "counted c (length r) (read_part r c)"
proof -
  obtain x1 r1 c1 where 1: "expect_byte r c = (x1, r1, c1)" by (metis prod.exhaust)
  obtain x2 r2 c2 where 2: "read_integer r1 c1 = (x2, r2, c2)" by (metis prod.exhaust)
  obtain x3 r3 c3 where 3: "read_exact_tracked (nat (projr x2)) r2 c2 = (x3, r3, c3)" by (metis prod.exhaust)
  obtain x4 r4 c4 where 4: "expect_byte r3 c3 = (x4, r4, c4)" by (metis prod.exhaust)
  obtain x5 r5 c5 where 5: "expect_byte r4 c4 = (x5, r5, c5)" by (metis prod.exhaust)
  have "c1 + length r1 = c + length r \<and> (\<forall>k. x1 = Inl (UnexpectedEof k) \<longrightarrow> k = c1)"
    "c2 + length r2 = c1 + length r1 \<and> (\<forall>k. x2 = Inl (UnexpectedEof k) \<longrightarrow> k = c2)"
    "c3 + length r3 = c2 + length r2 \<and> (\<forall>k. x3 = Inl (UnexpectedEof k) \<longrightarrow> k = c3)"
    "c4 + length r4 = c3 + length r3 \<and> (\<forall>k. x4 = Inl (UnexpectedEof k) \<longrightarrow> k = c4)"
    "c5 + length r5 = c4 + length r4 \<and> (\<forall>k. x5 = Inl (UnexpectedEof k) \<longrightarrow> k = c5)"
    using expect_byte_counted [of c r] read_integer_counted [of c1 r1]
      read_exact_counted [of c2 r2 "nat (projr x2)"] expect_byte_counted [of c3 r3]
      expect_byte_counted [of c4 r4] by (simp_all add: 1 2 3 4 5)
  then show ?thesis using 1 2 3 4 5 by (auto simp: read_part_def split: sum.splits)
qed

lemma read_parts_counted: "counted c (length r) (read_parts n r c)"
proof (induction n arbitrary: r c)
  case (Suc n)
  obtain x1 r1 c1 where 1: "read_part r c = (x1, r1, c1)" by (metis prod.exhaust)
  then have "c1 + length r1 = c + length r" using read_part_counted [of c r] by simp
  then show ?case using 1 read_part_counted [of c r] Suc.IH [of c1 r1]
    by (auto simp: counted_def split: prod.splits sum.splits)
qed simp

lemma read_record_counted: "counted 0 (length r) (read_record r)"
proof (cases r)
  case (Cons b r0)
  obtain x1 r1 c1 where 1: "read_integer r0 1 = (x1, r1, c1)" by (metis prod.exhaust)
  then have "c1 + length r1 = 1 + length r0" using read_integer_counted [of 1 r0] by simp
  then show ?thesis using Cons 1 read_integer_counted [of 1 r0]
      read_parts_counted [of c1 r1 "nat (projr x1)"]
    by (auto simp: read_record_def counted_def split: prod.splits sum.splits)
qed (simp add: read_record_def)

text \<open>At the end of the file nothing is left to read.\<close>

lemma read_number_eof: "read_number num r c = (Inl (UnexpectedEof k), r', c') \<Longrightarrow> r' = []"
  by (induction num r c rule: read_number.induct) (auto simp: expect_byte_def split: if_splits list.splits)

lemma read_integer_eof: "read_integer r c = (Inl (UnexpectedEof k), r', c') \<Longrightarrow> r' = []"
  by (auto simp: read_integer_def split: prod.splits sum.splits option.splits dest: read_number_eof)

lemma read_part_eof: "read_part r c = (Inl (UnexpectedEof k), r', c') \<Longrightarrow> r' = []"
  by (auto simp: read_part_def read_exact_tracked_def expect_byte_def
      split: prod.splits sum.splits if_splits list.splits dest: read_integer_eof)

lemma read_parts_eof: "read_parts n r c = (Inl (UnexpectedEof k), r', c') \<Longrightarrow> r' = []"
proof (induction n arbitrary: r c)
  case (Suc n)
  then show ?case by (auto split: prod.splits sum.splits dest: read_part_eof)
qed simp

lemma eof_rest: "read_record r = (x, r', c) \<Longrightarrow> x = Inl (UnexpectedEof k) \<Longrightarrow> r' = []"
  by (auto simp: read_record_def split: list.splits prod.splits sum.splits if_splits
      dest: read_integer_eof read_parts_eof)

lemma read_record_torn:
  assumes "record_ok parts" "0 < n" "n < length (encode_command parts)"
  shows "\<exists>r'. read_record (take n (encode_command parts)) = (Inl (UnexpectedEof n), r', n) \<and> r' = []"
proof -
  let ?f = "encode_command parts"
  obtain x r' c where x: "read_record (take n ?f) = (x, r', c)" by (metis prod.exhaust)
  have cnt: "c + length r' = n" "\<And>k. x = Inl (UnexpectedEof k) \<Longrightarrow> k = c"
    using read_record_counted [of "take n ?f"] x assms(3) by auto
  have ne: "take n ?f \<noteq> []" using assms(2,3) by auto
  have "\<not> decided (read_record (take n ?f))"
  proof
    assume "decided (read_record (take n ?f))"
    from read_record_extend [OF this ne, of "drop n ?f"]
    have "(x, r' @ drop n ?f, c) = (Inr (Some parts), [], length ?f)"
      using read_record_encode [OF assms(1), of "[]"] x by (simp add: extend_def)
    then show False using assms(3) cnt by auto
  qed
  then obtain k where k: "x = Inl (UnexpectedEof k)"
    using x by (auto simp: decided_def split: sum.splits read_error.splits)
  have "r' = []" using x k by (rule eof_rest)
  then show ?thesis using x k cnt by auto
qed

section \<open>Replaying a log\<close>

text \<open>The reference: the records applied one after the other.\<close>

fun apply_records ::
  "(nat \<Rightarrow> env) \<Rightarrow> bytes list list \<Rightarrow> replay_stats \<Rightarrow> engine \<Rightarrow> (ferrum_error + replay_stats) \<times> engine" where
  "apply_records vs [] stats s = (Inr stats, s)"
| "apply_records vs (rec # recs) stats s =
     (case apply_record (vs (applied stats + skipped stats)) rec s of
        (Inr _, s) \<Rightarrow> apply_records vs recs (stats\<lparr>applied := applied stats + 1\<rparr>) s
      | (Inl (EngineErr e), s) \<Rightarrow> (Inl e, s)
      | (Inl _, s) \<Rightarrow> apply_records vs recs (stats\<lparr>skipped := skipped stats + 1\<rparr>) s)"

definition log_bytes :: "bytes list list \<Rightarrow> bytes" where
  "log_bytes recs = concat (map encode_command recs)"

lemma encode_command_not_Nil [simp]: "encode_command parts \<noteq> []"
  by (simp add: encode_command_def)

lemma replay_loop_records:
  assumes "\<forall>rec\<in>set recs. record_ok rec"
  shows "replay_loop vs len (log_bytes recs @ rest) lg stats s =
     (case apply_records vs recs stats s of
        (Inl e, s') \<Rightarrow> (Inl e, s')
      | (Inr stats', s') \<Rightarrow>
          replay_loop vs len rest (if recs = [] then lg else len - length rest) stats' s')"
  using assms
proof (induction recs arbitrary: lg stats s)
  case Nil
  then show ?case by (simp add: log_bytes_def)
next
  case (Cons rec recs)
  let ?r = "log_bytes (rec # recs) @ rest"
  have rd: "read_record ?r = (Inr (Some rec), log_bytes recs @ rest, length (encode_command rec))"
    using read_record_encode [of rec "log_bytes recs @ rest"] Cons.prems by (simp add: log_bytes_def)
  have ne: "?r \<noteq> []" by (simp add: log_bytes_def)
  have len: "len - length (log_bytes recs @ rest) = len - length rest" if "recs = []"
    using that by (simp add: log_bytes_def)
  obtain x s1 where a: "apply_record (vs (applied stats + skipped stats)) rec s = (x, s1)"
    by (metis prod.exhaust)
  note unfold = replay_loop.simps [of vs len ?r lg stats s]
  show ?case
  proof (cases x)
    case (Inr u)
    then show ?thesis using unfold rd ne a Cons.IH Cons.prems len
      by (auto split: prod.splits sum.splits)
  next
    case (Inl e)
    then show ?thesis using unfold rd ne a Cons.IH Cons.prems len
      by (cases e) (auto split: prod.splits sum.splits)
  qed
qed

lemma replay_loop_Nil: "replay_loop vs len [] lg stats s = (Inr (stats, lg), s)"
  by (simp add: replay_loop.simps)


lemma apply_records_truncated:
  "apply_records vs recs stats s = (Inr stats', s') \<Longrightarrow> truncated_tail stats' = truncated_tail stats"
proof (induction recs arbitrary: stats s)
  case (Cons rec recs)
  then show ?case by (auto split: prod.splits sum.splits apply_error.splits)
qed simp

lemma apply_records_count:
  "apply_records vs recs stats s = (Inr stats', s') \<Longrightarrow>
   applied stats' + skipped stats' = applied stats + skipped stats + length recs"
proof (induction recs arbitrary: stats s)
  case (Cons rec recs)
  then show ?case by (auto split: prod.splits sum.splits apply_error.splits)
qed simp

lemma replay_torn_log:
  assumes "\<forall>rec\<in>set recs. record_ok rec" "record_ok last_rec" "n < length (encode_command last_rec)"
    and "apply_records vs recs replay_stats_default s = (Inr stats, s')"
  shows "replay vs (Some (log_bytes recs @ take n (encode_command last_rec))) s =
     (Ok (stats\<lparr>truncated_tail := 0 < n\<rparr>), Some (log_bytes recs), s')"
proof -
  let ?t = "take n (encode_command last_rec)"
  let ?f = "log_bytes recs @ ?t"
  have tt: "\<not> truncated_tail stats"
    using apply_records_truncated [OF assms(4)] by (simp add: replay_stats_default_def)
  have lg: "(if recs = [] then 0 else length ?f - length ?t) = length (log_bytes recs)"
    by (simp add: log_bytes_def)
  have loop: "replay_loop vs (length ?f) ?f 0 replay_stats_default s
      = replay_loop vs (length ?f) ?t (length (log_bytes recs)) stats s'"
    using replay_loop_records [OF assms(1), of vs "length ?f" ?t 0 replay_stats_default s] assms(4) lg
    by simp
  show ?thesis
  proof (cases "n = 0")
    case True
    then have "stats\<lparr>truncated_tail := 0 < n\<rparr> = stats" using tt by simp
    then show ?thesis using True loop tt by (simp add: replay_def replay_loop_Nil)
  next
    case False
    then have "read_record ?t = (Inl (UnexpectedEof n), [], n)" "?t \<noteq> []"
      using read_record_torn [OF assms(2) _ assms(3)] assms(3) by auto
    then have "replay_loop vs (length ?f) ?t (length (log_bytes recs)) stats s'
        = (Inr (stats\<lparr>truncated_tail := True\<rparr>, length (log_bytes recs)), s')"
      using False by (simp add: replay_loop.simps)
    then show ?thesis using loop False by (simp add: replay_def)
  qed
qed

end
