(* ===== verification/Monitor.thy ===== *)
theory Monitor
  imports Server
begin

text \<open>
  Models \<^verbatim>\<open>src/src/network/monitor.rs\<close> and \<^verbatim>\<open>run_monitor_loop\<close> of \<^verbatim>\<open>src/src/network/server.rs\<close>: the
  registry of MONITOR clients, the broadcast of every executed command to them, and the loop that formats the
  messages for one client. The unbounded channels of tokio are a parameter: their operations are a record, and
  \<open>mpsc_laws\<close> states what their documentation promises. The numbers in the registry only tell the channels apart.
  Poisoned locks are not modelled.
\<close>

section \<open>Channels\<close>

text \<open>\<^verbatim>\<open>unbounded_channel\<close>, \<^verbatim>\<open>UnboundedSender::send\<close> (\<^const>\<open>None\<close> is the error), \<^verbatim>\<open>UnboundedReceiver::recv\<close>
  (\<^const>\<open>None\<close> when nothing is queued) and the drop of the receiver.\<close>

record ('m, 'c) mpsc =
  q_new :: 'c
  q_send :: "'m \<Rightarrow> 'c \<Rightarrow> 'c option"
  q_recv :: "'c \<Rightarrow> 'm option \<times> 'c"
  q_close :: "'c \<Rightarrow> 'c"

text \<open>\<open>pend c\<close> is what is queued in a channel whose receiver is alive: messages are received in the order they were
  sent, and a send fails only when the receiver has been dropped.\<close>

definition mpsc_laws :: "('m, 'c) mpsc \<Rightarrow> ('c \<Rightarrow> 'm list option) \<Rightarrow> bool" where
  "mpsc_laws M pend \<longleftrightarrow> pend (q_new M) = Some []
     \<and> (\<forall>c m q. pend c = Some q \<longrightarrow> (\<exists>c'. q_send M m c = Some c' \<and> pend c' = Some (q @ [m])))
     \<and> (\<forall>c m q. pend c = Some (m # q) \<longrightarrow> fst (q_recv M c) = Some m \<and> pend (snd (q_recv M c)) = Some q)
     \<and> (\<forall>c. pend c = Some [] \<longrightarrow> fst (q_recv M c) = None \<and> pend (snd (q_recv M c)) = Some [])
     \<and> (\<forall>c. pend (q_close M c) = None)"

section \<open>The registry\<close>

record 'c registry =
  r_next :: nat
  r_senders :: "(nat \<times> 'c) list"

definition registry_default :: "'c registry" where
  "registry_default = \<lparr>r_next = 0, r_senders = []\<rparr>"

definition subscribe :: "(monitor_message, 'c) mpsc \<Rightarrow> 'c registry \<Rightarrow> nat \<times> 'c registry" where
  "subscribe M r = (r_next r, r\<lparr>r_next := Suc (r_next r), r_senders := r_senders r @ [(r_next r, q_new M)]\<rparr>)"

definition has_subscribers :: "'c registry \<Rightarrow> bool" where
  "has_subscribers r \<longleftrightarrow> r_senders r \<noteq> []"

text \<open>\<^verbatim>\<open>retain\<close> keeps the senders whose \<^verbatim>\<open>send\<close> succeeds.\<close>

definition registry_send :: "(monitor_message, 'c) mpsc \<Rightarrow> monitor_message \<Rightarrow> 'c registry \<Rightarrow> 'c registry" where
  "registry_send M m r =
     r\<lparr>r_senders := List.map_filter (\<lambda>(i, c). map_option (Pair i) (q_send M m c)) (r_senders r)\<rparr>"

text \<open>The receiving end of channel \<open>i\<close>.\<close>

definition on_channel :: "nat \<Rightarrow> ('c \<Rightarrow> 'c) \<Rightarrow> 'c registry \<Rightarrow> 'c registry" where
  "on_channel i f r = r\<lparr>r_senders := map (\<lambda>(j, c). (j, if j = i then f c else c)) (r_senders r)\<rparr>"

definition channel_recv :: "(monitor_message, 'c) mpsc \<Rightarrow> nat \<Rightarrow> 'c registry \<Rightarrow> monitor_message list \<times> 'c registry" where
  "channel_recv M i r = (case map_of (r_senders r) i of
      None \<Rightarrow> ([], r)
    | Some c \<Rightarrow> (case fst (q_recv M c) of None \<Rightarrow> [] | Some m \<Rightarrow> [m], on_channel i (snd \<circ> q_recv M) r))"

section \<open>Commands and monitors\<close>

text \<open>\<^verbatim>\<open>execute_command\<close> with the registry of the engine: it asks \<^verbatim>\<open>has_subscribers\<close> and hands the message to
  \<^verbatim>\<open>send\<close>.\<close>

definition execute_monitored ::
  "(monitor_message, 'c) mpsc \<Rightarrow> 'f platform \<Rightarrow> call_env \<Rightarrow> bytes option \<Rightarrow> protocol_version \<Rightarrow> 'f command
   \<Rightarrow> 'c registry \<times> engine \<Rightarrow> bytes \<times> 'c registry \<times> engine" where
  "execute_monitored M pf ce client ver cmd rs =
     (let (r, s) = rs;
          ((out, msg), s) = execute_command pf (ce\<lparr>ce_monitored := has_subscribers r\<rparr>) client ver cmd s
      in (out, case msg of None \<Rightarrow> r | Some m \<Rightarrow> registry_send M m r, s))"

datatype 'f mon_event =
    Executes call_env "bytes option" protocol_version "'f command"
  | Subscribes
  | Receives nat
  | Leaves nat

text \<open>A run, and the messages monitor \<open>i\<close> has received in it.\<close>

fun mon_step ::
  "(monitor_message, 'c) mpsc \<Rightarrow> 'f platform \<Rightarrow> nat \<Rightarrow> 'f mon_event \<Rightarrow> 'c registry \<times> engine
   \<Rightarrow> monitor_message list \<times> 'c registry \<times> engine" where
  "mon_step M pf i (Executes ce client ver cmd) rs = ([], snd (execute_monitored M pf ce client ver cmd rs))"
| "mon_step M pf i Subscribes (r, s) = ([], snd (subscribe M r), s)"
| "mon_step M pf i (Receives j) (r, s) =
     (let (ms, r) = channel_recv M j r in (if j = i then ms else [], r, s))"
| "mon_step M pf i (Leaves j) (r, s) = ([], on_channel j (q_close M) r, s)"

fun mon_run ::
  "(monitor_message, 'c) mpsc \<Rightarrow> 'f platform \<Rightarrow> nat \<Rightarrow> 'f mon_event list \<Rightarrow> 'c registry \<times> engine
   \<Rightarrow> monitor_message list \<times> 'c registry \<times> engine" where
  "mon_run M pf i [] rs = ([], rs)"
| "mon_run M pf i (e # es) rs =
     (let (got, rs) = mon_step M pf i e rs; (more_got, rs) = mon_run M pf i es rs in (got @ more_got, rs))"

text \<open>What a monitor should see of an event.\<close>

fun announced :: "'f platform \<Rightarrow> 'f mon_event \<Rightarrow> monitor_message list" where
  "announced pf (Executes ce client ver cmd) =
     (if monitor_meta cmd then []
      else [\<lparr>mm_timestamp_ms = now_ms (ce_env ce), mm_peer = (case client of Some p \<Rightarrow> p | None \<Rightarrow> ''0.0.0.0:0''),
             mm_args = args_redacted (f_show (pf_f64 pf)) cmd\<rparr>])"
| "announced pf _ = []"

section \<open>Delivery\<close>

text \<open>Numbers are handed out once.\<close>

definition registry_ok :: "'c registry \<Rightarrow> bool" where
  "registry_ok r \<longleftrightarrow> distinct (map fst (r_senders r)) \<and> (\<forall>i\<in>set (map fst (r_senders r)). i < r_next r)"

text \<open>Monitor \<open>i\<close> is connected and \<open>q\<close> waits for it.\<close>

definition waiting :: "('c \<Rightarrow> monitor_message list option) \<Rightarrow> nat \<Rightarrow> monitor_message list \<Rightarrow> 'c registry \<Rightarrow> bool" where
  "waiting pend i q r \<longleftrightarrow> (\<exists>c. (i, c) \<in> set (r_senders r) \<and> pend c = Some q)"

lemma send_fst:
  "map fst (List.map_filter (\<lambda>(i, c). map_option (Pair i) (q_send M m c)) cs) = map fst (filter (\<lambda>(i, c). q_send M m c \<noteq> None) cs)"
  by (induction cs) (auto split: option.splits)

lemma registry_ok_send: "registry_ok r \<Longrightarrow> registry_ok (registry_send M m r)"
  unfolding registry_ok_def registry_send_def by (auto simp: send_fst distinct_map_filter)

lemma waiting_send:
  assumes "mpsc_laws M pend" "waiting pend i q r"
  shows "waiting pend i (q @ [m]) (registry_send M m r)"
proof -
  obtain c where c: "(i, c) \<in> set (r_senders r)" "pend c = Some q" using assms(2) by (auto simp: waiting_def)
  obtain c' where c': "q_send M m c = Some c'" "pend c' = Some (q @ [m])" using assms(1) c(2) unfolding mpsc_laws_def by blast
  have "(i, c') \<in> set (List.map_filter (\<lambda>(i, c). map_option (Pair i) (q_send M m c)) cs)" if "(i, c) \<in> set cs" for cs
    using that c'(1) by (induction cs) (auto split: option.splits)
  then show ?thesis using c(1) c'(2) by (auto simp: waiting_def registry_send_def)
qed

lemma on_channel_fst: "map fst (r_senders (on_channel i f r)) = map fst (r_senders r)"
  by (simp add: on_channel_def case_prod_unfold)

lemma registry_ok_on_channel: "registry_ok r \<Longrightarrow> registry_ok (on_channel i f r)"
  unfolding registry_ok_def on_channel_fst by (simp add: on_channel_def)

lemma waiting_on_channel:
  assumes "waiting pend i q r" "i = j \<Longrightarrow> (\<And>c. pend c = Some q \<Longrightarrow> pend (f c) = Some q')" "i \<noteq> j \<Longrightarrow> q' = q"
  shows "waiting pend i q' (on_channel j f r)"
proof -
  obtain c where c: "(i, c) \<in> set (r_senders r)" "pend c = Some q" using assms(1) by (auto simp: waiting_def)
  then have "(i, if i = j then f c else c) \<in> set (r_senders (on_channel j f r))" by (force simp: on_channel_def)
  then show ?thesis using assms(2,3) c(2) by (auto simp: waiting_def split: if_splits)
qed

lemma registry_ok_recv: "registry_ok r \<Longrightarrow> registry_ok (snd (channel_recv M j r))"
  by (auto simp: channel_recv_def split: option.splits intro: registry_ok_on_channel)

lemma waiting_recv:
  assumes "mpsc_laws M pend" "registry_ok r" "waiting pend i q r"
  shows "\<exists>q'. waiting pend i q' (snd (channel_recv M j r)) \<and> (if j = i then fst (channel_recv M j r) else []) @ q' = q"
proof (cases "j = i")
  case True
  obtain c where c: "(i, c) \<in> set (r_senders r)" "pend c = Some q" using assms(3) by (auto simp: waiting_def)
  then have at: "map_of (r_senders r) i = Some c" using assms(2) by (simp add: registry_ok_def)
  have "waiting pend i (drop 1 q) (on_channel i (snd \<circ> q_recv M) r)"
    by (rule waiting_on_channel [OF assms(3)]) (use assms(1) in \<open>cases q; simp add: mpsc_laws_def\<close>)+
  moreover have "(case fst (q_recv M c) of None \<Rightarrow> [] | Some m \<Rightarrow> [m]) @ drop 1 q = q"
    using assms(1) c(2) by (cases q) (simp_all add: mpsc_laws_def)
  ultimately show ?thesis using True at by (auto simp: channel_recv_def)
next
  case False
  then show ?thesis using assms(3) waiting_on_channel [OF assms(3), of j _ q]
    by (auto simp: channel_recv_def split: option.splits)
qed

lemma subscribe_ok:
  assumes "registry_ok r"
  shows "registry_ok (snd (subscribe M r))" "mpsc_laws M pend \<Longrightarrow> waiting pend (fst (subscribe M r)) [] (snd (subscribe M r))"
  using assms by (auto simp: registry_ok_def subscribe_def waiting_def mpsc_laws_def intro: less_SucI)

lemma execute_monitored_cases:
  assumes "has_subscribers r"
  shows "fst (snd (execute_monitored M pf ce client ver cmd (r, s)))
    = (case announced pf (Executes ce client ver cmd) of [] \<Rightarrow> r | m # ms \<Rightarrow> registry_send M m r)"
  using assms by (simp add: execute_monitored_def execute_command_def Let_def case_prod_unfold)

lemma mon_step_ok: "registry_ok (fst rs) \<Longrightarrow> registry_ok (fst (snd (mon_step M pf i e rs)))"
  by (cases rs; cases e)
    (auto simp: execute_monitored_def Let_def case_prod_unfold subscribe_ok registry_ok_send
      split: option.splits intro: registry_ok_recv registry_ok_on_channel)

lemma mon_run_ok: "registry_ok (fst rs) \<Longrightarrow> registry_ok (fst (snd (mon_run M pf i es rs)))"
proof (induction es arbitrary: rs)
  case (Cons e es)
  from Cons.IH [OF mon_step_ok [OF Cons.prems]] show ?case by (simp add: case_prod_unfold Let_def)
qed simp

lemma mon_step_delivers:
  assumes "mpsc_laws M pend" "registry_ok r" "waiting pend i q r" "e \<noteq> Leaves i"
  shows "\<exists>q'. waiting pend i q' (fst (snd (mon_step M pf i e (r, s))))
    \<and> fst (mon_step M pf i e (r, s)) @ q' = q @ announced pf e"
proof (cases e)
  case (Executes ce client ver cmd)
  have "has_subscribers r" using assms(3) by (auto simp: waiting_def has_subscribers_def)
  note * = execute_monitored_cases [OF this, of M pf ce client ver cmd s]
  show ?thesis unfolding Executes mon_step.simps fst_conv snd_conv *
    using assms(3) waiting_send [OF assms(1,3)]
    by (cases "monitor_meta cmd") (auto intro!: exI [of _ "q @ announced pf (Executes ce client ver cmd)"])
next
  case Subscribes
  then show ?thesis using assms by (auto simp: subscribe_def waiting_def)
next
  case (Receives j)
  then show ?thesis using waiting_recv [OF assms(1-3), of j] by (auto simp: Let_def case_prod_unfold)
next
  case (Leaves j)
  then show ?thesis using assms(4) waiting_on_channel [OF assms(3), of j _ q] by auto
qed

lemma mon_run_delivers:
  assumes "mpsc_laws M pend" "registry_ok r" "waiting pend i q r" "Leaves i \<notin> set es"
  shows "\<exists>q'. waiting pend i q' (fst (snd (mon_run M pf i es (r, s))))
    \<and> fst (mon_run M pf i es (r, s)) @ q' = q @ concat (map (announced pf) es)"
  using assms(2-4)
proof (induction es arbitrary: r q s)
  case (Cons e es)
  obtain r1 s1 where e: "snd (mon_step M pf i e (r, s)) = (r1, s1)" by fastforce
  obtain q1 where q1: "registry_ok r1" "waiting pend i q1 r1" "fst (mon_step M pf i e (r, s)) @ q1 = q @ announced pf e"
    using mon_step_delivers [OF assms(1) Cons.prems(1,2), of e pf s] mon_step_ok [of "(r, s)" M pf i e] Cons.prems(1,3) e by auto
  obtain q2 where q2: "waiting pend i q2 (fst (snd (mon_run M pf i es (r1, s1))))"
    "fst (mon_run M pf i es (r1, s1)) @ q2 = q1 @ concat (map (announced pf) es)"
    using Cons.IH [OF q1(1,2), of s1] Cons.prems(3) by auto
  have "q @ concat (map (announced pf) (e # es)) = fst (mon_step M pf i e (r, s)) @ q1 @ concat (map (announced pf) es)"
    using q1(3) by simp
  then show ?case using q2 e by (auto simp: case_prod_unfold Let_def)
qed simp

section \<open>The loop of a monitor\<close>

fun join_spaces :: "bytes list \<Rightarrow> bytes" where
  "join_spaces [] = []"
| "join_spaces [x] = x"
| "join_spaces (x # xs) = x @ '' '' @ join_spaces xs"

definition quoted_arg :: "bytes \<Rightarrow> bytes" where
  "quoted_arg a = CHR 0x22 # from_utf8_lossy a @ [CHR 0x22]"

definition monitor_line :: "monitor_message \<Rightarrow> bytes" where
  "monitor_line m = CHR ''+'' # show_int (mm_timestamp_ms m) @ '' ['' @ mm_peer m @ ''] ''
     @ join_spaces (map quoted_arg (mm_args m)) @ CRLF"

text \<open>What \<^verbatim>\<open>select!\<close> finds, in order: the shutdown signal, or a message (none once the senders are gone) and
  whether it could be written. The result is what reached the socket.\<close>

datatype loop_event = Stop | Message "monitor_message option" bool

fun run_monitor_loop :: "loop_event list \<Rightarrow> bytes" where
  "run_monitor_loop [] = []"
| "run_monitor_loop (Stop # es) = []"
| "run_monitor_loop (Message None ok # es) = []"
| "run_monitor_loop (Message (Some m) ok # es) = (if ok then monitor_line m @ run_monitor_loop es else [])"

lemma run_monitor_loop_messages:
  "run_monitor_loop (map (\<lambda>m. Message (Some m) True) ms @ es) = concat (map monitor_line ms) @ run_monitor_loop es"
  by (induction ms) simp_all

lemma one_line_lossy: "one_line t \<Longrightarrow> one_line (from_utf8_lossy t)"
proof (induction t rule: from_utf8_lossy.induct)
  case (2 a bs)
  obtain ok n where u: "utf8_char a bs = (ok, n)" by fastforce
  have "one_line (drop n bs)" "one_line (take n bs)" using 2(2) by (auto simp: one_line_def dest: in_set_dropD in_set_takeD)
  moreover have "one_line replacement_char" by (simp add: replacement_char_def one_line_def)
  ultimately show ?case using 2 u by simp
qed simp

lemma one_line_join: "\<forall>x\<in>set xs. one_line x \<Longrightarrow> one_line (join_spaces xs)"
  by (induction xs rule: join_spaces.induct) simp_all

lemma monitor_line_value:
  assumes "one_line (mm_peer m)" "\<forall>a\<in>set (mm_args m). one_line a"
  shows "is_value (monitor_line m)"
proof -
  let ?t = "show_int (mm_timestamp_ms m) @ '' ['' @ mm_peer m @ ''] '' @ join_spaces (map quoted_arg (mm_args m))"
  have "one_line (join_spaces (map quoted_arg (mm_args m)))"
    using assms(2) by (intro one_line_join) (auto simp: quoted_arg_def one_line_lossy)
  then have "is_value (encode_simple_string ?t)" using assms(1) by (intro value_simple) simp
  then show ?thesis by (simp add: monitor_line_def encode_simple_string_def)
qed

text \<open>An argument that closes its quote and ends the line is followed by whatever it likes.\<close>

lemma lossy_ascii: "\<forall>b\<in>set bs. byte_in 0 0x7F b \<Longrightarrow> from_utf8_lossy bs = bs"
  by (induction bs) (simp_all add: utf8_char_def)

lemma join_spaces_snoc: "join_spaces (xs @ [x]) = (if xs = [] then x else join_spaces xs @ '' '' @ x)"
  by (induction xs rule: join_spaces.induct) simp_all

definition ascii :: "bytes \<Rightarrow> bool" where
  "ascii bs \<longleftrightarrow> (\<forall>b\<in>set bs. byte_in 0 0x7F b)"

text \<open>The line up to the opening quote of the last argument.\<close>

definition line_start :: "monitor_message \<Rightarrow> bytes list \<Rightarrow> bytes" where
  "line_start m as = CHR ''+'' # show_int (mm_timestamp_ms m) @ '' ['' @ mm_peer m @ ''] ''
     @ (if as = [] then [] else join_spaces (map quoted_arg as) @ '' '') @ [CHR 0x22]"

lemma monitor_line_last:
  "ascii x \<Longrightarrow> monitor_line (m\<lparr>mm_args := as @ [x]\<rparr>) = line_start m as @ x @ CHR 0x22 # CRLF"
  by (simp add: monitor_line_def line_start_def join_spaces_snoc quoted_arg_def ascii_def lossy_ascii)

lemma monitor_line_split:
  assumes "ascii (monitor_line m)" "mm_args m \<noteq> []"
  shows "\<exists>t. ascii t \<and> monitor_line m = t @ CHR 0x22 # CRLF"
proof -
  obtain as x where as: "mm_args m = as @ [x]" using assms(2) by (metis rev_exhaust)
  have "\<exists>t. monitor_line m = t @ CHR 0x22 # CRLF"
    by (simp add: monitor_line_def as join_spaces_snoc quoted_arg_def)
  then show ?thesis using assms(1) by (auto simp: ascii_def)
qed

lemma monitor_line_forged:
  assumes "ascii x" "ascii (monitor_line m')" "mm_args m' \<noteq> []"
  shows "\<exists>y. monitor_line (m\<lparr>mm_args := as @ [y]\<rparr>) = monitor_line (m\<lparr>mm_args := as @ [x]\<rparr>) @ monitor_line m'"
proof -
  obtain t where t: "ascii t" "monitor_line m' = t @ CHR 0x22 # CRLF" using monitor_line_split [OF assms(2,3)] by blast
  let ?y = "x @ CHR 0x22 # CRLF @ t"
  have "ascii ?y" using assms(1) t(1) by (auto simp: ascii_def byte_in_def)
  from monitor_line_last [OF this, of as m] monitor_line_last [OF assms(1), of as m]
  have "monitor_line (m\<lparr>mm_args := as @ [?y]\<rparr>) = monitor_line (m\<lparr>mm_args := as @ [x]\<rparr>) @ monitor_line m'"
    by (simp add: t(2))
  then show ?thesis by blast
qed

end
