(* ===== verification/Network_Claims.thy ===== *)
theory Network_Claims
  imports Samples Conversation Replay Monitor
begin

text \<open>
  The properties of the protocol and the connections: the conversation of a client with the server against the
  abstract keyspace, authentication, framing of requests and replies, admission of connections, and recovery of
  the append-only file.
\<close>

lemma sendable_samples [simp]:
  "sendable sample_conn (Set ''k'' ''41'')" "sendable sample_conn (IncrBy ''k'' 1)" "sendable sample_conn (Get ''k'')"
  by (simp_all add: sendable_def data_command_def frame_ok_def conn_eval in_i64_def MAX_BULK_LEN_def MAX_ARRAY_ELEMENTS_def
      show_int_def show_nat.simps)

section \<open>The server as seen by a client\<close>




section \<open>Authentication\<close>



text \<open>C28: MONITOR is the exception the gate does not cover: on a server with a password a fresh connection that
  sends MONITOR and nothing else becomes a monitor and gets every client's commands.\<close>

theorem monitor_needs_no_password:
  assumes "e_auth_required s" "\<forall>i. x_write_ok x i"
  shows "\<exists>c. run_chunks x [encode_command [''MONITOR'']] conn_new s = (Some Monitoring, c, s)
     \<and> \<not> c_authed c \<and> c_sent c = OK_reply"
proof -
  have "frame_ok [''MONITOR'']" by (simp add: frame_ok_def MAX_BULK_LEN_def MAX_ARRAY_ELEMENTS_def)
  from parse_frame_encode [OF this, of "f_parse (pf_f64 (x_platform x))" "[]"]
  have p: "parse_frame (f_parse (pf_f64 (x_platform x))) (encode_command [''MONITOR'']) =
      Ok (Complete Monitor (length (encode_command [''MONITOR''])))"
    by (simp add: build_dispatch)
  show ?thesis using assms
    by (simp add: on_read_def drain.simps conn_frame_def p conn_new_def write_all_def put_out_def)
qed

theorem monitor_needs_no_password_witness:
  "\<exists>c. run_chunks sample_conn [encode_command [''MONITOR'']] conn_new (set_requirepass (Some ''pw'') engine0)
     = (Some Monitoring, c, set_requirepass (Some ''pw'') engine0)"
  using monitor_needs_no_password [of "set_requirepass (Some ''pw'') engine0" sample_conn]
  by (auto simp: conn_eval set_requirepass_def)

section \<open>Framing\<close>

text \<open>C16: The reply to any command, success or error, is exactly one well-formed RESP value: whatever follows it
  on the wire, a client decodes that value and continues at the next reply. (For CONFIG SET the operands must
  not contain line breaks; the other hypothesis is that a printed float has none.)\<close>

theorem reply_is_one_value:
  assumes "platform_ok pf" "spliced_ok cmd"
  shows "\<exists>v. \<forall>rest. resp_decode 3 (fst (fst (execute_command pf ce peer ver cmd s)) @ rest) = Some (v, rest)"
proof -
  have "\<exists>s'. fst (fst (execute_command pf ce peer ver cmd s)) = fst (dispatch pf ce ver cmd s')"
    by (auto simp: execute_command_def Let_def split: prod.splits) (metis fst_conv)+
  then show ?thesis using is_value_decode [OF dispatch_value [OF assms]] by metis
qed

theorem reply_is_one_value_witness:
  "\<exists>v. \<forall>rest. resp_decode 3 (fst (fst (execute_command sample_platform (x_calls sample_conn 0) None Resp2 (Get ''k'') engine0)) @ rest)
     = Some (v, rest)"
  by (rule reply_is_one_value) (simp_all add: platform_ok_def sample_platform_def)




text \<open>C15: A command in its wire form is parsed back to itself, with exactly its own bytes consumed whatever
  follows, and while any byte of it is missing the parser asks for more instead of failing.\<close>

theorem command_wire_roundtrip:
  assumes "command_ok fp fs cmd" "frame_ok (command_args fs cmd)"
  shows "parse_frame fp (encode_command (command_args fs cmd) @ rest) =
      Ok (Complete cmd (length (encode_command (command_args fs cmd))))
    \<and> (\<forall>n < length (encode_command (command_args fs cmd)).
        parse_frame fp (take n (encode_command (command_args fs cmd))) = Ok Incomplete)"
  using parse_frame_encode [OF assms(2), of fp rest] build_command_args [OF assms(1)]
    parse_frame_strict_prefix [OF assms(2), of _ fp] by auto

theorem command_wire_roundtrip_witness:
  "parse_frame parse_i64 (encode_command [''SET'', ''k'', ''v''] @ ''rest'') =
     Ok (Complete (Set ''k'' ''v'' :: int command) (length (encode_command [''SET'', ''k'', ''v''])))"
  using command_wire_roundtrip [of parse_i64 show_int "Set ''k'' ''v''" "''rest''"]
  by (simp add: frame_ok_def MAX_BULK_LEN_def MAX_ARRAY_ELEMENTS_def)

text \<open>The parser is stable: once it has decided about a prefix of the input (a command, an invalid command or a
  protocol error), more input does not change the decision, and it never consumes more than it was given.\<close>

theorem parser_is_stable:
  assumes "parse_frame fp buf \<noteq> Ok Incomplete"
  shows "parse_frame fp (buf @ more_input) = parse_frame fp buf
    \<and> (\<forall>cmd n. parse_frame fp buf = Ok (Complete cmd n) \<longrightarrow> 0 < n \<and> n \<le> length buf)
    \<and> (\<forall>e n. parse_frame fp buf = Ok (Invalid e n) \<longrightarrow> 0 < n \<and> n \<le> length buf)"
  using parse_frame_append [OF assms] parse_frame_used by blast

theorem parser_is_stable_witness:
  "parse_frame parse_i64 (''GET'' @ ''ting'') = (parse_frame parse_i64 ''GET'' :: int frame_parse result)"
  using parser_is_stable [of "parse_i64 :: bytes \<Rightarrow> int option" "''GET''" "''ting''"] by (simp add: parse_frame_def)

section \<open>Admission\<close>

text \<open>The lock-free connection counter never admits more than the configured number of clients, whatever the
  interleaving of the loads, compare-and-exchanges and releases of concurrent accepts, and it always equals the
  number of guards held.\<close>

theorem connection_limit_holds:
  assumes "counter_reachable mx c"
  shows "active c = held c \<and> (mx = 0 \<or> active c \<le> mx)"
  using counter_inv [OF assms] by blast

theorem connection_limit_holds_witness:
  "let c = counter_new\<lparr>pending := (\<lambda>_. None)(0 := Some 0)\<rparr> in counter_reachable 1 c \<and> active c \<le> 1"
proof -
  let ?c = "counter_new\<lparr>pending := (pending counter_new)(0 := Some (active counter_new))\<rparr>"
  have "counter_reachable 1 ?c" by (rule step [OF start load]) (simp_all add: counter_new_def)
  with connection_limit_holds [OF this] show ?thesis by (simp add: Let_def counter_new_def)
qed

section \<open>Monitors\<close>

text \<open>C19: A MONITOR client misses nothing and sees nothing twice: whatever happened on the server before it
  subscribed, the messages it has received followed by those still in its channel are the announcements of exactly
  the commands executed since, in order, each with its time, client and redacted arguments, however other monitors
  come, read and go. (The channels deliver in order, as documented.)\<close>

theorem monitor_stream_complete:
  assumes "mpsc_laws M pend"
    and "mon_run M pf j past (registry_default, s0) = (old, r, s)" "subscribe M r = (i, r0)"
    and "Leaves i \<notin> set es" "mon_run M pf i es (r0, s) = (got, r', s')"
  shows "\<exists>c q. (i, c) \<in> set (r_senders r') \<and> pend c = Some q \<and> got @ q = concat (map (announced pf) es)"
proof -
  have "registry_ok r" using mon_run_ok [of "(registry_default, s0)" M pf j past] assms(2)
    by (simp add: registry_default_def registry_ok_def)
  from subscribe_ok [OF this] assms(1) have r0: "registry_ok r0" "waiting pend i [] r0" by (metis assms(3) fst_conv snd_conv)+
  obtain q where "waiting pend i q r'" "got @ q = concat (map (announced pf) es)"
    using mon_run_delivers [OF assms(1) r0 assms(4), of pf s] assms(5) by auto
  then show ?thesis by (auto simp: waiting_def)
qed

text \<open>A channel as a queue, absent once the receiver is gone.\<close>

definition queue_mpsc :: "('m, 'm list option) mpsc" where
  "queue_mpsc = \<lparr>q_new = Some [], q_send = (\<lambda>m c. map_option (\<lambda>q. Some (q @ [m])) c),
     q_recv = (\<lambda>c. case c of Some (m # q) \<Rightarrow> (Some m, Some q) | _ \<Rightarrow> (None, c)), q_close = (\<lambda>c. None)\<rparr>"

lemma queue_mpsc_laws: "mpsc_laws queue_mpsc (\<lambda>c. c)"
  by (simp add: mpsc_laws_def queue_mpsc_def)

theorem monitor_stream_complete_witness:
  "let call = (\<lambda>cmd. Executes (x_calls sample_conn 7) (Some ''peer'') Resp2 cmd);
       (old, r, s) = mon_run queue_mpsc sample_platform 9 [call (Set ''k'' ''1''), Subscribes] (registry_default, engine0);
       (i, r0) = subscribe queue_mpsc r;
       (got, r', s') = mon_run queue_mpsc sample_platform i
         [call (Get ''k''), Leaves 0, call (SlowLog ''LEN'' []), Receives i, call (Del [''k''])] (r0, s)
   in i = 1 \<and> (\<exists>q. (i, Some q) \<in> set (r_senders r') \<and> map mm_args (got @ q) = [[''GET'', ''k''], [''DEL'', ''k'']])"
proof -
  let ?call = "\<lambda>cmd. Executes (x_calls sample_conn 7) (Some ''peer'') Resp2 cmd"
  let ?es = "[?call (Get ''k''), Leaves 0, ?call (SlowLog ''LEN'' []), Receives 1, ?call (Del [''k''])]"
  obtain old r s where past:
    "mon_run queue_mpsc sample_platform 9 [?call (Set ''k'' ''1''), Subscribes] (registry_default, engine0) = (old, r, s)"
    by (metis prod_cases3)
  have r: "r_next r = 1" using past
    by (auto simp: Let_def case_prod_unfold execute_monitored_def execute_command_def has_subscribers_def registry_default_def
        subscribe_def split: prod.splits if_splits)
  obtain r0 where sub: "subscribe queue_mpsc r = (1, r0)" by (simp add: subscribe_def r)
  obtain got r' s' where run: "mon_run queue_mpsc sample_platform 1 ?es (r0, s) = (got, r', s')" by (metis prod_cases3)
  obtain q where c: "(1, Some q) \<in> set (r_senders r')" "got @ q = concat (map (announced sample_platform) ?es)"
    using monitor_stream_complete [OF queue_mpsc_laws past sub _ run] by auto
  have "map mm_args (got @ q) = [[''GET'', ''k''], [''DEL'', ''k'']]"
    unfolding c(2) by (simp add: monitor_meta_def args_redacted_def)
  then show ?thesis using past sub run c(1) by (auto simp: Let_def)
qed

text \<open>C32: What a monitor prints cannot be trusted: arguments are quoted without escaping, so for any printable
  command there is an argument whose single line on the stream is byte for byte that command's line followed by an
  arbitrary forged entry, with a time, client and command of the sender's choice.\<close>

theorem monitor_lines_can_be_forged:
  assumes "ascii x" "ascii (monitor_line forged)" "mm_args forged \<noteq> []"
  shows "\<exists>y. run_monitor_loop [Message (Some (m\<lparr>mm_args := as @ [y]\<rparr>)) True]
    = run_monitor_loop [Message (Some (m\<lparr>mm_args := as @ [x]\<rparr>)) True, Message (Some forged) True]"
  using monitor_line_forged [OF assms] by simp

theorem monitor_lines_can_be_forged_witness:
  "let m = \<lparr>mm_timestamp_ms = 5, mm_peer = ''10.0.0.1:1'', mm_args = []\<rparr>;
       forged = \<lparr>mm_timestamp_ms = 6, mm_peer = ''10.0.0.2:2'', mm_args = [''FLUSHDB'']\<rparr>
   in \<exists>y. run_monitor_loop [Message (Some (m\<lparr>mm_args := [''ECHO'', y]\<rparr>)) True]
        = run_monitor_loop [Message (Some (m\<lparr>mm_args := [''ECHO'', ''x'']\<rparr>)) True, Message (Some forged) True]"
proof -
  let ?m = "\<lparr>mm_timestamp_ms = 5, mm_peer = ''10.0.0.1:1'', mm_args = []\<rparr>"
  let ?forged = "\<lparr>mm_timestamp_ms = 6, mm_peer = ''10.0.0.2:2'', mm_args = [''FLUSHDB'']\<rparr>"
  have "from_utf8_lossy ''FLUSHDB'' = ''FLUSHDB''" by (rule lossy_ascii) (simp add: byte_in_def)
  then have "ascii ''x''" "ascii (monitor_line ?forged)"
    by (simp_all add: ascii_def byte_in_def monitor_line_def quoted_arg_def show_int_def show_nat.simps digit_char_def)
  from monitor_lines_can_be_forged [OF this, of "[''ECHO'']" ?m] show ?thesis by simp
qed

section \<open>Recovery\<close>

text \<open>C12: A crash in the middle of a record costs only that record: replaying a log whose last record was cut
  anywhere applies every complete record in order, reports the torn tail, and leaves the file truncated to the
  complete records, so that later appends stay readable.\<close>

theorem torn_log_is_recovered:
  assumes "\<forall>rec\<in>set recs. record_ok rec" "record_ok last_rec" "n < length (encode_command last_rec)"
    and "apply_records vs recs replay_stats_default s = (Inr stats, s')"
  shows "replay vs (Some (log_bytes recs @ take n (encode_command last_rec))) s =
     (Ok (stats\<lparr>truncated_tail := 0 < n\<rparr>), Some (log_bytes recs), s')"
  using assms by (rule replay_torn_log)

theorem torn_log_is_recovered_witness:
  "\<exists>stats s'. replay env_at (Some (log_bytes [[''SET'', ''k'', ''v'']] @ take 5 (encode_command [''DEL'', ''k'']))) engine0
      = (Ok stats, Some (log_bytes [[''SET'', ''k'', ''v'']]), s')
    \<and> truncated_tail stats \<and> map_option data (map_of (e_store s') ''k'') = Some ''v''"
proof -
  obtain stats s' where a: "apply_records env_at [[''SET'', ''k'', ''v'']] replay_stats_default engine0 = (Inr stats, s')"
    "map_option data (map_of (e_store s') ''k'') = Some ''v''"
    by (simp add: apply_record_def upper_bytes_def ascii_upper_def replay_stats_default_def engine_eval sample_eval)
  have "5 < length (encode_command [''DEL'', ''k''])" by (simp add: encode_command_def encode_part_def show_nat.simps)
  from torn_log_is_recovered [OF _ _ this a(1)] a(2) show ?thesis by (simp add: record_ok_def in_i64_def)
qed


end
