(* ===== verification/Cli.thy ===== *)
theory Cli
  imports Config_File
begin

text \<open>
  Models \<^verbatim>\<open>src/src/cli.rs\<close>: the scan of the argument vector, its merge with the configuration file and
  the accessors the server is started from. Reading the file named by \<^verbatim>\<open>--config\<close> is the argument
  \<open>read\<close>, from a path to its text or \<open>None\<close>; the text of the operating system's error is left out.
  A duration is its number of seconds.
\<close>

section \<open>State\<close>

record cli_args =
  ca_addr :: bytes
  ca_aof_path :: "bytes option"
  ca_appendfsync :: "fsync_policy option"
  ca_client_timeout :: "nat option"
  ca_max_clients :: "nat option"
  ca_loglevel :: "bytes option"
  ca_max_memory :: "nat option"
  ca_max_memory_policy :: "eviction_policy option"
  ca_max_memory_samples :: "nat option"
  ca_requirepass :: "bytes option"
  ca_io_threads :: "nat option"
  ca_dashboard_addr :: "bytes option"
  ca_dashboard_token :: "bytes option"

record raw_flags =
  rf_config_path :: "bytes option"
  rf_addr :: "bytes option"
  rf_aof_path :: "bytes option"
  rf_appendfsync :: "fsync_policy option"
  rf_client_timeout :: "nat option option"
  rf_max_clients :: "nat option"
  rf_loglevel :: "bytes option"
  rf_max_memory :: "nat option"
  rf_max_memory_policy :: "eviction_policy option"
  rf_max_memory_samples :: "nat option"
  rf_requirepass :: "bytes option"
  rf_io_threads :: "nat option"
  rf_dashboard_addr :: "bytes option"
  rf_dashboard_token :: "bytes option"

definition raw_flags_default :: raw_flags where
  "raw_flags_default =
     \<lparr>rf_config_path = None, rf_addr = None, rf_aof_path = None, rf_appendfsync = None,
      rf_client_timeout = None, rf_max_clients = None, rf_loglevel = None, rf_max_memory = None,
      rf_max_memory_policy = None, rf_max_memory_samples = None, rf_requirepass = None,
      rf_io_threads = None, rf_dashboard_addr = None, rf_dashboard_token = None\<rparr>"

datatype scan_outcome = ScanHelp | Flags raw_flags
datatype invocation = Run cli_args | Help

definition DEFAULT_ADDR :: bytes where "DEFAULT_ADDR = ''127.0.0.1:6380''"
definition DEFAULT_DASHBOARD_ADDR :: bytes where "DEFAULT_DASHBOARD_ADDR = ''127.0.0.1:6381''"

section \<open>Values\<close>

definition validate_loglevel :: "bytes \<Rightarrow> string + bytes" where
  "validate_loglevel raw =
     (let lower = to_ascii_lowercase raw in
      if lower \<in> set log_levels then Ok lower
      else Err (''invalid --loglevel '' @ quoted raw @ '' (expected off|error|warn|info|debug|trace)''))"

definition parse_timeout_seconds :: "bytes \<Rightarrow> string + nat option" where
  "parse_timeout_seconds raw =
     (case parse_unsigned u64_max raw of
        None \<Rightarrow> Err (''invalid --client-timeout: '' @ quoted raw @ '' is not a non-negative integer'')
      | Some secs \<Rightarrow> if secs = 0 then Ok None else Ok (Some secs))"

definition cli_parse_bytes :: "bytes \<Rightarrow> string + nat" where
  "cli_parse_bytes raw =
     (let lower = to_ascii_lowercase (trim raw); (num, factor) =
        (case strip_suffix ''gb'' lower of Some n \<Rightarrow> (n, 1024 * 1024 * 1024) | None \<Rightarrow>
         case strip_suffix ''mb'' lower of Some n \<Rightarrow> (n, 1024 * 1024) | None \<Rightarrow>
         case strip_suffix ''kb'' lower of Some n \<Rightarrow> (n, 1024) | None \<Rightarrow>
         case strip_suffix ''g'' lower of Some n \<Rightarrow> (n, 1024 * 1024 * 1024) | None \<Rightarrow>
         case strip_suffix ''m'' lower of Some n \<Rightarrow> (n, 1024 * 1024) | None \<Rightarrow>
         case strip_suffix ''k'' lower of Some n \<Rightarrow> (n, 1024) | None \<Rightarrow>
         case strip_suffix ''b'' lower of Some n \<Rightarrow> (n, 1) | None \<Rightarrow> (lower, 1)) in
      case parse_unsigned u64_max (trim num) of
        None \<Rightarrow> Err (quoted raw @ '' is not a byte size'')
      | Some n \<Rightarrow> if n * factor \<le> u64_max then Ok (n * factor) else Err (quoted raw @ '' overflows u64''))"

definition cli_number :: "string \<Rightarrow> bytes \<Rightarrow> string + nat" where
  "cli_number flag raw =
     (case parse_unsigned u64_max raw of
        Some n \<Rightarrow> Ok n
      | None \<Rightarrow> Err (''invalid '' @ flag @ '': '' @ quoted raw @ '' is not a non-negative integer''))"

section \<open>Scanning the arguments\<close>

definition cli_flags :: "bytes list" where
  "cli_flags = [''--config'', ''--addr'', ''--aof-path'', ''--appendfsync'', ''--client-timeout'',
     ''--maxclients'', ''--loglevel'', ''--maxmemory'', ''--maxmemory-policy'', ''--maxmemory-samples'',
     ''--requirepass'', ''--io-threads'', ''--dashboard-addr'', ''--dashboard-token'']"

text \<open>The arm of a flag once its value has been taken.\<close>

definition set_flag :: "bytes \<Rightarrow> bytes \<Rightarrow> raw_flags \<Rightarrow> string + raw_flags" where
  "set_flag arg val raw =
     (if arg = ''--config'' then Ok (raw\<lparr>rf_config_path := Some val\<rparr>)
      else if arg = ''--addr'' then Ok (raw\<lparr>rf_addr := Some val\<rparr>)
      else if arg = ''--aof-path'' then Ok (raw\<lparr>rf_aof_path := Some val\<rparr>)
      else if arg = ''--appendfsync'' then
        map_sum (\<lambda>e. ''invalid --appendfsync: '' @ e) (\<lambda>p. raw\<lparr>rf_appendfsync := Some p\<rparr>)
          (fsync_parse val)
      else if arg = ''--client-timeout'' then
        map_sum id (\<lambda>t. raw\<lparr>rf_client_timeout := Some t\<rparr>) (parse_timeout_seconds val)
      else if arg = ''--maxclients'' then
        map_sum id (\<lambda>n. raw\<lparr>rf_max_clients := Some n\<rparr>) (cli_number ''--maxclients'' val)
      else if arg = ''--loglevel'' then
        map_sum id (\<lambda>l. raw\<lparr>rf_loglevel := Some l\<rparr>) (validate_loglevel val)
      else if arg = ''--maxmemory'' then
        map_sum (\<lambda>e. ''invalid --maxmemory: '' @ e) (\<lambda>n. raw\<lparr>rf_max_memory := Some n\<rparr>)
          (cli_parse_bytes val)
      else if arg = ''--maxmemory-policy'' then
        (case from_name (to_ascii_lowercase val) of
           Some p \<Rightarrow> Ok (raw\<lparr>rf_max_memory_policy := Some p\<rparr>)
         | None \<Rightarrow> Err (''invalid --maxmemory-policy '' @ quoted val @ '' (expected noeviction, '' @
                        policy_list_text))
      else if arg = ''--maxmemory-samples'' then
        map_sum id (\<lambda>n. raw\<lparr>rf_max_memory_samples := Some n\<rparr>) (cli_number ''--maxmemory-samples'' val)
      else if arg = ''--requirepass'' then Ok (raw\<lparr>rf_requirepass := Some val\<rparr>)
      else if arg = ''--io-threads'' then
        map_sum id (\<lambda>n. raw\<lparr>rf_io_threads := Some n\<rparr>) (cli_number ''--io-threads'' val)
      else if arg = ''--dashboard-addr'' then Ok (raw\<lparr>rf_dashboard_addr := Some val\<rparr>)
      else if val = [] then Err ''--dashboard-token must not be empty''
      else Ok (raw\<lparr>rf_dashboard_token := Some val\<rparr>))"

fun scan_argv :: "bytes list \<Rightarrow> raw_flags \<Rightarrow> string + scan_outcome" where
  "scan_argv [] raw = Ok (Flags raw)"
| "scan_argv (arg # rest) raw =
     (if arg \<in> set cli_flags then
        (case rest of
           [] \<Rightarrow> Err (arg @ '' requires a value'')
         | val # rest' \<Rightarrow>
             (case set_flag arg val raw of Inl e \<Rightarrow> Err e | Inr raw' \<Rightarrow> scan_argv rest' raw'))
      else if arg = ''-h'' \<or> arg = ''--help'' then Ok ScanHelp
      else Err (''unrecognised argument: '' @ quoted arg))"

section \<open>Merging\<close>

definition or_else :: "'a option \<Rightarrow> 'a option \<Rightarrow> 'a option" where
  "or_else a b = (case a of Some x \<Rightarrow> Some x | None \<Rightarrow> b)"

definition from_file :: "(file_config \<Rightarrow> 'a option) \<Rightarrow> file_config option \<Rightarrow> 'a option" where
  "from_file sel file = (case file of None \<Rightarrow> None | Some f \<Rightarrow> sel f)"

definition compose_addr_from_file :: "file_config \<Rightarrow> bytes" where
  "compose_addr_from_file file =
     (let host = (case fc_bind file of Some h \<Rightarrow> h | None \<Rightarrow> ''127.0.0.1'');
          word = fst (split_ws (trim_with unicode_ws host));
          host = (if word = [] then ''127.0.0.1'' else word);
          port = (case fc_port file of Some p \<Rightarrow> p | None \<Rightarrow> 6380)
      in host @ '':'' @ show_nat port)"

definition merge :: "raw_flags \<Rightarrow> file_config option \<Rightarrow> string + cli_args" where
  "merge raw file =
     (let addr = (case rf_addr raw of Some a \<Rightarrow> a
            | None \<Rightarrow> (case file of Some f \<Rightarrow> compose_addr_from_file f | None \<Rightarrow> DEFAULT_ADDR));
          aof_path = or_else (rf_aof_path raw)
            (case file of
               Some f \<Rightarrow> if fc_appendonly f = Some True
                         then Some (case fc_appendfilename f of Some n \<Rightarrow> n | None \<Rightarrow> ''appendonly.aof'')
                         else None
             | None \<Rightarrow> None);
          appendfsync = or_else (rf_appendfsync raw) (from_file fc_appendfsync file)
      in if appendfsync \<noteq> None \<and> aof_path = None
         then Err ''appendfsync requires AOF to be enabled (via --aof-path or 'appendonly yes')''
         else Ok \<lparr>ca_addr = addr, ca_aof_path = aof_path, ca_appendfsync = appendfsync,
           ca_client_timeout =
             (case rf_client_timeout raw of
                Some t \<Rightarrow> t
              | None \<Rightarrow> (case from_file fc_timeout_secs file of
                          None \<Rightarrow> None | Some s \<Rightarrow> if s = 0 then None else Some s)),
           ca_max_clients = or_else (rf_max_clients raw) (from_file fc_max_clients file),
           ca_loglevel = or_else (rf_loglevel raw) (from_file fc_loglevel file),
           ca_max_memory = or_else (rf_max_memory raw) (from_file fc_max_memory file),
           ca_max_memory_policy = or_else (rf_max_memory_policy raw) (from_file fc_max_memory_policy file),
           ca_max_memory_samples = or_else (rf_max_memory_samples raw) (from_file fc_max_memory_samples file),
           ca_requirepass = or_else (rf_requirepass raw) (from_file fc_requirepass file),
           ca_io_threads = or_else (rf_io_threads raw) (from_file fc_io_threads file),
           ca_dashboard_addr = or_else (rf_dashboard_addr raw) (from_file fc_dashboard_addr file),
           ca_dashboard_token = or_else (rf_dashboard_token raw) (from_file fc_dashboard_token file)\<rparr>)"

fun file_err_to_cli :: "file_config_error \<Rightarrow> string" where
  "file_err_to_cli (FileIo path) = ''failed to read config '' @ quoted path"
| "file_err_to_cli (FileParse path line_no msg) =
     ''config '' @ quoted path @ '' line '' @ show_nat line_no @ '': '' @ msg"

definition cli_parse :: "(bytes \<Rightarrow> bytes option) \<Rightarrow> bytes list \<Rightarrow> string + invocation" where
  "cli_parse read args =
     (case scan_argv args raw_flags_default of
        Inl e \<Rightarrow> Err e
      | Inr ScanHelp \<Rightarrow> Ok Help
      | Inr (Flags raw) \<Rightarrow>
          (case rf_config_path raw of
             None \<Rightarrow> map_sum id Run (merge raw None)
           | Some path \<Rightarrow>
               (case file_config_load path (read path) of
                  Inl e \<Rightarrow> Err (file_err_to_cli e)
                | Inr f \<Rightarrow> map_sum id Run (merge raw (Some f)))))"

section \<open>Accessors\<close>

definition cli_aof_config :: "cli_args \<Rightarrow> (bytes \<times> fsync_policy) option" where
  "cli_aof_config a =
     map_option (\<lambda>path. (path, case ca_appendfsync a of Some p \<Rightarrow> p | None \<Rightarrow> FsyncEverySec)) (ca_aof_path a)"

definition cli_dashboard_addr :: "cli_args \<Rightarrow> bytes option" where
  "cli_dashboard_addr a =
     (case ca_dashboard_addr a of
        None \<Rightarrow> Some DEFAULT_DASHBOARD_ADDR
      | Some s \<Rightarrow>
          if eq_ignore_ascii_case s ''off'' \<or> eq_ignore_ascii_case s ''disabled''
             \<or> eq_ignore_ascii_case s ''none'' then None
          else Some s)"

definition cli_eviction_config :: "cli_args \<Rightarrow> eviction_config" where
  "cli_eviction_config a =
     \<lparr>max_memory = (case ca_max_memory a of Some n \<Rightarrow> n | None \<Rightarrow> max_memory eviction_config_default),
      policy = (case ca_max_memory_policy a of Some p \<Rightarrow> p | None \<Rightarrow> policy eviction_config_default),
      samples = (case ca_max_memory_samples a of Some n \<Rightarrow> n | None \<Rightarrow> samples eviction_config_default)\<rparr>"

section \<open>Lemmas\<close>

text \<open>The two copies of the byte-size grammar accept the same inputs with the same result.\<close>

lemma cli_parse_bytes_agrees:
  "parse_bytes raw name = map_sum (\<lambda>e. ''invalid '' @ name @ '': '' @ e) id (cli_parse_bytes raw)"
  unfolding parse_bytes_def cli_parse_bytes_def size_suffix_def [symmetric] Let_def
  by (simp split: option.split prod.split)

lemma merge_aof_enabled: "merge raw file = Ok a \<Longrightarrow> ca_appendfsync a \<noteq> None \<Longrightarrow> ca_aof_path a \<noteq> None"
  by (auto simp: merge_def Let_def split: if_splits)

lemma cli_parse_merge:
  assumes "cli_parse read args = Ok (Run a)"
  shows "\<exists>raw file. scan_argv args raw_flags_default = Ok (Flags raw) \<and> merge raw file = Ok a
    \<and> (file = None \<longleftrightarrow> rf_config_path raw = None)"
proof -
  have sum: "map_sum id Run r = Ok (Run a) \<Longrightarrow> r = Ok a" for r :: "string + cli_args"
    by (cases r) auto
  from assms show ?thesis
    by (auto simp: cli_parse_def split: sum.splits scan_outcome.splits option.splits dest!: sum)
qed

text \<open>A flag given twice: the last one wins, and flags before a later one do not change it.\<close>

lemma scan_argv_append:
  assumes "scan_argv args raw = Ok (Flags raw')"
  shows "scan_argv (args @ args') raw = scan_argv args' raw'"
  using assms by (induction args raw rule: scan_argv.induct) (auto split: if_splits list.splits sum.splits)

end
