(* ===== verification/Dash_Codec.thy ===== *)
theory Dash_Codec
  imports Server
begin

text \<open>
  The codecs of the web dashboard (\<^verbatim>\<open>src/network/dashboard/http.rs\<close>): base64 for keys and values that are not
  UTF-8, percent-encoding and query strings, JSON string literals, the command line of the console and the
  display of RESP replies. The lemmas show that the encoders and the decoders are inverse: base64, JSON string
  literals (against a reader of the JSON grammar), and quoted console arguments.
\<close>

section \<open>Codecs\<close>

definition base64_table :: bytes where
  "base64_table = ''ABCDEFGHIJKLMNOPQRSTUVWXYZabcdefghijklmnopqrstuvwxyz0123456789+/''"

definition base64_chunk :: "bytes \<Rightarrow> bytes" where
  "base64_chunk chunk =
     (let byte = (\<lambda>i. if i < length chunk then of_char (chunk ! i) else 0 :: nat);
          n = byte 0 * 65536 + byte 1 * 256 + byte 2
      in [base64_table ! (n div 262144 mod 64), base64_table ! (n div 4096 mod 64),
          if length chunk > 1 then base64_table ! (n div 64 mod 64) else CHR ''='',
          if length chunk > 2 then base64_table ! (n mod 64) else CHR ''=''])"

fun base64_encode :: "bytes \<Rightarrow> bytes" where
  "base64_encode [] = []"
| "base64_encode [a] = base64_chunk [a]"
| "base64_encode [a, b] = base64_chunk [a, b]"
| "base64_encode (a # b # c # rest) = base64_chunk [a, b, c] @ base64_encode rest"

definition sextet :: "byte \<Rightarrow> nat option" where
  "sextet c =
     (let n = of_char c :: nat in
      if 65 \<le> n \<and> n \<le> 90 then Some (n - 65)
      else if 97 \<le> n \<and> n \<le> 122 then Some (n - 97 + 26)
      else if 48 \<le> n \<and> n \<le> 57 then Some (n - 48 + 52)
      else if c = CHR ''+'' then Some 62 else if c = CHR ''/'' then Some 63 else None)"

fun sextets :: "bytes \<Rightarrow> nat \<Rightarrow> nat option" where
  "sextets [] n = Some n"
| "sextets (c # cs) n =
     (if c = CHR ''='' then sextets cs (n * 64)
      else case sextet c of None \<Rightarrow> None | Some x \<Rightarrow> sextets cs (n * 64 + x))"

definition base64_unchunk :: "bytes \<Rightarrow> bytes option" where
  "base64_unchunk chunk =
     (let pad = length (filter (\<lambda>c. c = CHR ''='') chunk) in
      if pad > 2 then None
      else case sextets chunk 0 of
        None \<Rightarrow> None
      | Some n \<Rightarrow> Some ([char_of (n div 65536)] @ (if pad < 2 then [char_of (n div 256)] else []) @
                       (if pad < 1 then [char_of n] else [])))"

fun base64_chunks :: "bytes \<Rightarrow> bytes option" where
  "base64_chunks (a # b # c # d # rest) =
     (case base64_unchunk [a, b, c, d] of
        None \<Rightarrow> None
      | Some xs \<Rightarrow> (case base64_chunks rest of None \<Rightarrow> None | Some ys \<Rightarrow> Some (xs @ ys)))"
| "base64_chunks _ = Some []"

definition base64_decode :: "bytes \<Rightarrow> bytes option" where
  "base64_decode s =
     (let bs = filter (\<lambda>c. \<not> is_ascii_ws c) s in
      if bs = [] then Some [] else if length bs mod 4 \<noteq> 0 then None else base64_chunks bs)"

definition hex_digit :: "byte \<Rightarrow> nat option" where
  "hex_digit c =
     (let n = of_char c :: nat in
      if 48 \<le> n \<and> n \<le> 57 then Some (n - 48)
      else if 97 \<le> n \<and> n \<le> 102 then Some (n - 87)
      else if 65 \<le> n \<and> n \<le> 70 then Some (n - 55) else None)"

fun url_bytes :: "bytes \<Rightarrow> bytes" where
  "url_bytes [] = []"
| "url_bytes (c # cs) =
     (if c = CHR ''+'' then CHR '' '' # url_bytes cs
      else if c = CHR ''%'' then
        (case cs of
           h # l # rest \<Rightarrow>
             (case (hex_digit h, hex_digit l) of
                (Some a, Some b) \<Rightarrow> char_of (a * 16 + b) # url_bytes rest
              | _ \<Rightarrow> c # url_bytes cs)
         | _ \<Rightarrow> c # url_bytes cs)
      else c # url_bytes cs)"

definition url_decode :: "bytes \<Rightarrow> bytes" where
  "url_decode s = from_utf8_lossy (url_bytes s)"

fun split_on :: "byte \<Rightarrow> bytes \<Rightarrow> bytes list" where
  "split_on d [] = [[]]"
| "split_on d (c # cs) =
     (if c = d then [] # split_on d cs
      else (case split_on d cs of l # ls \<Rightarrow> (c # l) # ls | [] \<Rightarrow> [[c]]))"

fun split_byte :: "bytes \<Rightarrow> byte \<Rightarrow> (bytes \<times> bytes) option" where
  "split_byte [] d = None"
| "split_byte (c # cs) d =
     (if c = d then Some ([], cs) else map_option (\<lambda>(a, b). (c # a, b)) (split_byte cs d))"

type_synonym str_map = "(bytes \<times> bytes) list"

definition query_pair :: "bytes \<Rightarrow> bytes \<times> bytes" where
  "query_pair pair = (case split_byte pair (CHR ''='') of Some kv \<Rightarrow> kv | None \<Rightarrow> (pair, []))"

fun query_insert :: "bytes list \<Rightarrow> str_map \<Rightarrow> str_map" where
  "query_insert [] m = m"
| "query_insert (p # ps) m =
     (if p = [] then query_insert ps m
      else let (k, v) = query_pair p in query_insert ps (AList.update (url_decode k) (url_decode v) m))"

definition parse_query :: "bytes \<Rightarrow> str_map" where
  "parse_query q = query_insert (split_on (CHR ''&'') q) []"

definition hex4 :: "nat \<Rightarrow> bytes" where
  "hex4 n = ''00'' @ map (\<lambda>d. if d < 10 then char_of (48 + d) else char_of (87 + d)) [n div 16 mod 16, n mod 16]"

abbreviation dquote :: byte where "dquote \<equiv> CHR 0x22"
abbreviation backslash :: byte where "backslash \<equiv> CHR 0x5C"

definition json_char :: "byte \<Rightarrow> bytes" where
  "json_char c =
     (if c = dquote then [backslash, dquote]
      else if c = backslash then [backslash, backslash]
      else if c = LF then backslash # ''n''
      else if c = CR then backslash # ''r''
      else if c = CHR 0x09 then backslash # ''t''
      else if (of_char c :: nat) < 0x20 then backslash # ''u'' @ hex4 (of_char c)
      else [c])"

definition json_string :: "bytes \<Rightarrow> bytes" where
  "json_string s = [dquote] @ concat (map json_char s) @ [dquote]"

fun tokenize :: "bytes \<Rightarrow> bytes list \<Rightarrow> bytes \<Rightarrow> bool \<Rightarrow> bool \<Rightarrow> bytes list option" where
  "tokenize [] argv cur in_token in_quotes =
     (if in_quotes then None else Some (if in_token then argv @ [cur] else argv))"
| "tokenize (b # bs) argv cur in_token in_quotes =
     (if in_quotes then
        (if b = dquote then tokenize bs argv cur in_token False
         else if b = backslash then
           (case bs of
              c # cs \<Rightarrow> tokenize cs argv (cur @ [c]) in_token True
            | [] \<Rightarrow> tokenize bs argv (cur @ [b]) in_token True)
         else tokenize bs argv (cur @ [b]) in_token True)
      else if b = dquote then tokenize bs argv cur True True
      else if b \<in> set [CHR '' '', CHR 0x09, CR, LF] then
        (if in_token then tokenize bs (argv @ [cur]) [] False False
         else tokenize bs argv cur in_token False)
      else tokenize bs argv (cur @ [b]) True False)"

definition tokenize_command :: "bytes \<Rightarrow> bytes list option" where
  "tokenize_command line = tokenize line [] [] False False"

definition encode_resp_array :: "bytes list \<Rightarrow> bytes" where
  "encode_resp_array argv =
     CHR ''*'' # show_nat (length argv) @ CRLF @
     concat (map (\<lambda>a. CHR ''$'' # show_nat (length a) @ CRLF @ a @ CRLF) argv)"

definition read_line :: "bytes \<Rightarrow> bytes \<times> bytes" where
  "read_line buf =
     (from_utf8_lossy (takeWhile (\<lambda>c. c \<noteq> CR) buf), drop 2 (dropWhile (\<lambda>c. c \<noteq> CR) buf))"

fun join_lines :: "bytes list \<Rightarrow> bytes" where
  "join_lines [] = []"
| "join_lines [x] = x"
| "join_lines (x # xs) = x @ [LF] @ join_lines xs"

text \<open>\<open>fuel\<close> bounds the nesting of arrays; the length of the buffer is enough.\<close>

fun decode_one :: "nat \<Rightarrow> bytes \<Rightarrow> (bytes \<times> bytes) option"
  and decode_many :: "nat \<Rightarrow> nat \<Rightarrow> bytes \<Rightarrow> (bytes list \<times> bytes) option" where
  "decode_one 0 buf = None"
| "decode_one (Suc fuel) [] = None"
| "decode_one (Suc fuel) (m # buf) =
     (let (line, rest) = read_line buf in
      if m = CHR ''+'' then Some (line, rest)
      else if m = CHR ''-'' then Some (''(error) '' @ line, rest)
      else if m = CHR '':'' then Some (line, rest)
      else if m = CHR ''$'' then
        (case parse_i64 line of
           None \<Rightarrow> None
         | Some len \<Rightarrow>
             if len < 0 then Some (''(nil)'', rest)
             else if nat len + 2 > length rest then None
             else Some (from_utf8_lossy (take (nat len) rest), drop (nat len + 2) rest))
      else if m = CHR ''*'' then
        (case parse_i64 line of
           None \<Rightarrow> None
         | Some n \<Rightarrow>
             if n < 0 then Some (''(empty array)'', rest)
             else (case decode_many fuel (nat n) rest of
                     None \<Rightarrow> None | Some (parts, rest) \<Rightarrow> Some (join_lines parts, rest)))
      else None)"
| "decode_many fuel 0 buf = Some ([], buf)"
| "decode_many fuel (Suc n) buf =
     (case decode_one fuel buf of
        None \<Rightarrow> None
      | Some (p, rest) \<Rightarrow>
          (case decode_many fuel n rest of None \<Rightarrow> None | Some (ps, rest) \<Rightarrow> Some (p # ps, rest)))"

definition decode_resp :: "bytes \<Rightarrow> bytes" where
  "decode_resp buf =
     (case decode_one (length buf) buf of None \<Rightarrow> from_utf8_lossy buf | Some (t, _) \<Rightarrow> t)"

section \<open>Base64\<close>

definition base64_code :: "nat \<Rightarrow> nat" where
  "base64_code i = (if i < 26 then 65 + i else if i < 52 then 71 + i else if i < 62 then i - 4
     else if i = 62 then 43 else 47)"

lemma base64_table_code: "map of_char base64_table = map base64_code [0..<64]"
  by (simp add: base64_table_def base64_code_def upt_conv_Cons)

lemma base64_table_props:
  assumes "i < 64"
  shows "sextet (base64_table ! i) = Some i" "base64_table ! i \<noteq> CHR ''=''" "\<not> is_ascii_ws (base64_table ! i)"
proof -
  have "length base64_table = 64" using arg_cong [OF base64_table_code, of length] by simp
  then have o: "(of_char (base64_table ! i) :: nat) = base64_code i"
    using assms arg_cong [OF base64_table_code, of "\<lambda>l. l ! i"] by simp
  have eq: "base64_table ! i = c \<longleftrightarrow> base64_code i = of_char c" for c
    using o by (metis of_char_eq_iff)
  show "sextet (base64_table ! i) = Some i"
    using assms unfolding sextet_def Let_def o eq by (auto simp: base64_code_def split: if_splits)
  show "base64_table ! i \<noteq> CHR ''=''" using assms unfolding eq by (auto simp: base64_code_def split: if_splits)
  show "\<not> is_ascii_ws (base64_table ! i)"
    using assms unfolding is_ascii_ws_def o by (auto simp: base64_code_def split: if_splits)
qed

lemma sextets_table:
  "i < 64 \<Longrightarrow> sextets ((base64_table ! i) # cs) n = sextets cs (n * 64 + i)"
  by (simp add: base64_table_props)

text \<open>The four sextets of a 24-bit number put it together again.\<close>

lemma sextet_sum:
  fixes n :: nat
  assumes "n < 16777216"
  shows "((n div 262144 mod 64 * 64 + n div 4096 mod 64) * 64 + n div 64 mod 64) * 64 + n mod 64 = n"
proof -
  have d: "n div 4096 = n div 64 div 64" "n div 262144 = n div 64 div 64 div 64"
    by (simp_all flip: div_mult2_eq)
  have "n div 262144 < 64" using assms by (intro less_mult_imp_div_less) simp
  then have "n div 262144 mod 64 * 64 + n div 4096 mod 64 = n div 4096"
    unfolding d by simp
  then show ?thesis unfolding d by simp
qed

lemma char_of_mod: "n mod 256 = of_char c \<Longrightarrow> char_of (n :: nat) = c"
  by (metis char_of_mod_256 char_of_char)

text \<open>The chunk of the bytes \<open>A\<close>, \<open>B\<close>, \<open>C\<close>, of which the last two may be missing.\<close>

definition table :: "nat \<Rightarrow> byte" where
  "table i = base64_table ! (i mod 64)"

lemma table_props [simp]: "sextet (table i) = Some (i mod 64)" "table i \<noteq> CHR ''=''" "\<not> is_ascii_ws (table i)"
  by (simp_all add: table_def base64_table_props)

lemma base64_chunk_table:
  "base64_chunk [a] = (let n = of_char a * 65536 in [table (n div 262144), table (n div 4096), CHR ''='', CHR ''=''])"
  "base64_chunk [a, b] = (let n = of_char a * 65536 + of_char b * 256 in
     [table (n div 262144), table (n div 4096), table (n div 64), CHR ''=''])"
  "base64_chunk [a, b, c] = (let n = of_char a * 65536 + of_char b * 256 + of_char c in
     [table (n div 262144), table (n div 4096), table (n div 64), table n])"
  by (simp_all add: base64_chunk_def table_def Let_def)

text \<open>What the decoder makes of the three shapes of a chunk.\<close>

lemma base64_unchunk_table:
  assumes "n < 16777216"
  shows "base64_unchunk [table (n div 262144), table (n div 4096), table (n div 64), table n] =
      Some [char_of (n div 65536), char_of (n div 256), char_of n]"
    and "n mod 64 = 0 \<Longrightarrow> base64_unchunk [table (n div 262144), table (n div 4096), table (n div 64), CHR ''=''] =
      Some [char_of (n div 65536), char_of (n div 256)]"
    and "n mod 4096 = 0 \<Longrightarrow> base64_unchunk [table (n div 262144), table (n div 4096), CHR ''='', CHR ''=''] =
      Some [char_of (n div 65536)]"
proof -
  note sum = sextet_sum [OF assms]
  define p q r t where pqrt: "p = n div 262144 mod 64" "q = n div 4096 mod 64" "r = n div 64 mod 64" "t = n mod 64"
  have sum: "((p * 64 + q) * 64 + r) * 64 + t = n" using sum by (simp only: pqrt)
  have full: "sextets [table (n div 262144), table (n div 4096), table (n div 64), table n] 0 = Some n"
    using sum by (simp flip: pqrt)
  show "base64_unchunk [table (n div 262144), table (n div 4096), table (n div 64), table n] =
      Some [char_of (n div 65536), char_of (n div 256), char_of n]"
    unfolding base64_unchunk_def full by simp
  show "base64_unchunk [table (n div 262144), table (n div 4096), table (n div 64), CHR ''=''] =
      Some [char_of (n div 65536), char_of (n div 256)]" if "n mod 64 = 0"
  proof -
    have h: "sextets [table (n div 262144), table (n div 4096), table (n div 64), CHR ''=''] 0 = Some n"
      using sum that pqrt(4) by (simp flip: pqrt(1-3))
    show ?thesis unfolding base64_unchunk_def h by simp
  qed
  show "base64_unchunk [table (n div 262144), table (n div 4096), CHR ''='', CHR ''=''] =
      Some [char_of (n div 65536)]" if "n mod 4096 = 0"
  proof -
    from that have "4096 dvd n" by (simp only: dvd_eq_mod_eq_0)
    then obtain k where "n = 4096 * k" by (rule dvdE)
    then have "t = 0" "r = 0" by (simp_all add: pqrt)
    then have h: "sextets [table (n div 262144), table (n div 4096), CHR ''='', CHR ''=''] 0 = Some n"
      using sum by (simp flip: pqrt(1-2))
    show ?thesis unfolding base64_unchunk_def h by simp
  qed
qed

lemma base64_unchunk_chunk [simp]:
  "base64_unchunk (base64_chunk [a]) = Some [a]"
  "base64_unchunk (base64_chunk [a, b]) = Some [a, b]"
  "base64_unchunk (base64_chunk [a, b, c]) = Some [a, b, c]"
proof -
  define A B C :: nat where ABC: "A = of_char a" "B = of_char b" "C = of_char c"
  have bd: "A < 256" "B < 256" "C < 256" by (simp_all add: ABC of_char_nat_bound)
  have A: "char_of A = a" by (simp add: ABC)
  have parts: "(A * 65536 + B * 256 + C) div 65536 = A"
    "(A * 65536 + B * 256 + C) div 256 mod 256 = B" "(A * 65536 + B * 256 + C) mod 256 = C"
    if "B < 256" "C < 256" for A B C :: nat
  proof -
    have n: "A * 65536 + B * 256 + C = (A * 256 + B) * 256 + C" by simp
    show "(A * 65536 + B * 256 + C) div 65536 = A" using that by simp
    have "((A * 256 + B) * 256 + C) div 256 = A * 256 + B"
      using that div_mult_self3 [of 256 "A * 256 + B" C] by (simp only: div_less)
    then show "(A * 65536 + B * 256 + C) div 256 mod 256 = B" unfolding n
      using that by (metis mod_less mod_mult_self3)
    show "(A * 65536 + B * 256 + C) mod 256 = C" unfolding n using that by (metis mod_less mod_mult_self3)
  qed
  have "A * 65536 mod 4096 = 0" by (simp add: mod_mult_right_eq)
  then show "base64_unchunk (base64_chunk [a]) = Some [a]"
    using base64_unchunk_table(3) [of "A * 65536"] bd A
    by (simp add: base64_chunk_table Let_def flip: ABC)
  have "64 dvd A * 65536 + B * 256" by (intro dvd_add dvd_mult) simp_all
  then have "(A * 65536 + B * 256) mod 64 = 0" by (simp only: dvd_eq_mod_eq_0)
  then show "base64_unchunk (base64_chunk [a, b]) = Some [a, b]"
    using base64_unchunk_table(2) [of "A * 65536 + B * 256"] bd A parts [of B 0 A]
      char_of_mod [of "(A * 65536 + B * 256) div 256" b]
    by (simp add: base64_chunk_table Let_def flip: ABC)
  show "base64_unchunk (base64_chunk [a, b, c]) = Some [a, b, c]"
    using base64_unchunk_table(1) [of "A * 65536 + B * 256 + C"] bd A parts [of B C A]
      char_of_mod [of "(A * 65536 + B * 256 + C) div 256" b] char_of_mod [of "A * 65536 + B * 256 + C" c]
    by (simp add: base64_chunk_table Let_def flip: ABC)
qed

lemma eq_ws [simp]: "\<not> is_ascii_ws (CHR ''='')"
  by (simp add: is_ascii_ws_def)

lemma base64_chunk_shape:
  assumes "chunk \<in> {[a], [a, b], [a, b, c]}"
  obtains p q r t where "base64_chunk chunk = [p, q, r, t]" "\<forall>x \<in> {p, q, r, t}. \<not> is_ascii_ws x"
proof -
  have "\<exists>p q r t. base64_chunk chunk = [p, q, r, t] \<and> (\<forall>x \<in> {p, q, r, t}. \<not> is_ascii_ws x)"
    using assms by (auto simp: base64_chunk_table Let_def)
  with that show thesis by blast
qed

lemma base64_encode_shape:
  "length (base64_encode bs) mod 4 = 0 \<and> (\<forall>x \<in> set (base64_encode bs). \<not> is_ascii_ws x)
   \<and> (base64_encode bs = [] \<longleftrightarrow> bs = []) \<and> base64_chunks (base64_encode bs) = Some bs"
proof (induction bs rule: base64_encode.induct)
  case (2 a)
  obtain p q r t where "base64_chunk [a] = [p, q, r, t]" "\<forall>x \<in> {p, q, r, t}. \<not> is_ascii_ws x"
    by (rule base64_chunk_shape [of "[a]" a]) auto
  with base64_unchunk_chunk(1) [of a] show ?case by simp
next
  case (3 a b)
  obtain p q r t where "base64_chunk [a, b] = [p, q, r, t]" "\<forall>x \<in> {p, q, r, t}. \<not> is_ascii_ws x"
    by (rule base64_chunk_shape [of "[a, b]" a b]) auto
  with base64_unchunk_chunk(2) [of a b] show ?case by simp
next
  case (4 a b c rest)
  obtain p q r t where "base64_chunk [a, b, c] = [p, q, r, t]" "\<forall>x \<in> {p, q, r, t}. \<not> is_ascii_ws x"
    by (rule base64_chunk_shape [of "[a, b, c]" a b c]) auto
  with base64_unchunk_chunk(3) [of a b c] 4 show ?case by (auto simp: ball_Un)
qed simp

lemma base64_decode_encode: "base64_decode (base64_encode bs) = Some bs"
proof -
  note shape = base64_encode_shape [of bs]
  then have "filter (\<lambda>b. \<not> is_ascii_ws b) (base64_encode bs) = base64_encode bs" by (intro filter_True) blast
  with shape show ?thesis by (simp add: base64_decode_def Let_def)
qed

section \<open>JSON string literals\<close>

text \<open>A reader of the string literals of JSON, from after the opening quote: the contents and what follows
  the closing quote; \<open>None\<close> for what is not a literal, a raw control character in particular.\<close>

fun json_read :: "bytes \<Rightarrow> (bytes \<times> bytes) option" where
  "json_read [] = None"
| "json_read (c # cs) =
     (if c = dquote then Some ([], cs)
      else if c = backslash then
        (case cs of
           [] \<Rightarrow> None
         | e # es \<Rightarrow>
             if e = CHR ''u'' then
               (case es of
                  a # b # h # l # rest \<Rightarrow>
                    (case (hex_digit a, hex_digit b, hex_digit h, hex_digit l) of
                       (Some 0, Some 0, Some x, Some y) \<Rightarrow>
                         map_option (\<lambda>(s, r). (char_of (x * 16 + y) # s, r)) (json_read rest)
                     | _ \<Rightarrow> None)
                | _ \<Rightarrow> None)
             else
               (case map_of [(dquote, dquote), (backslash, backslash), (CHR ''n'', LF), (CHR ''r'', CR),
                    (CHR ''t'', CHR 0x09)] e of
                  None \<Rightarrow> None
                | Some x \<Rightarrow> map_option (\<lambda>(s, r). (x # s, r)) (json_read es)))
      else if (of_char c :: nat) < 0x20 then None
      else map_option (\<lambda>(s, r). (c # s, r)) (json_read cs))"

lemma hex_digit_hex:
  "d < 16 \<Longrightarrow> hex_digit (if d < 10 then char_of (48 + d) else char_of (87 + d)) = Some d"
  by (auto simp: hex_digit_def Let_def)

lemma json_read_char:
  "json_read (json_char c @ rest) = map_option (\<lambda>(s, r). (c # s, r)) (json_read rest)"
proof (cases "c \<in> {dquote, backslash, LF, CR, CHR 0x09} \<or> 0x20 \<le> (of_char c :: nat)")
  case True
  then show ?thesis by (auto simp: json_char_def)
next
  case False
  define n :: nat where "n = of_char c"
  have n: "n < 32" using False by (simp add: n_def)
  then have "n div 16 mod 16 = n div 16" "n div 16 * 16 + n mod 16 = n" by simp_all
  moreover have "hex_digit (CHR ''0'') = Some 0" by (simp add: hex_digit_def)
  moreover have "char_of n = c" by (simp add: n_def)
  ultimately show ?thesis
    using False hex_digit_hex [of "n div 16"] hex_digit_hex [of "n mod 16"] n
    by (simp add: json_char_def hex4_def flip: n_def)
qed

lemma json_read_string:
  "\<exists>cs. json_string s @ rest = dquote # cs \<and> json_read cs = Some (s, rest)"
proof -
  have "json_read (concat (map json_char s) @ dquote # rest) = Some (s, rest)" for s
    by (induction s) (simp_all add: json_read_char)
  then show ?thesis by (auto simp: json_string_def)
qed

section \<open>The command line of the console\<close>

text \<open>An argument written in quotes, with quotes and backslashes escaped.\<close>

definition quote_arg :: "bytes \<Rightarrow> bytes" where
  "quote_arg a = [dquote] @ concat (map (\<lambda>c. if c = dquote \<or> c = backslash then [backslash, c] else [c]) a) @ [dquote]"

fun command_line :: "bytes list \<Rightarrow> bytes" where
  "command_line [] = []"
| "command_line (a # as) = quote_arg a @ '' '' @ command_line as"

lemma tokenize_quoted:
  "tokenize (concat (map (\<lambda>c. if c = dquote \<or> c = backslash then [backslash, c] else [c]) a) @ dquote # rest)
     argv cur True True = tokenize rest argv (cur @ a) True False"
  by (induction a arbitrary: cur) auto

lemma tokenize_command_line: "tokenize_command (command_line argv) = Some argv"
proof -
  have "tokenize (command_line as) argv [] False False = Some (argv @ as)" for as argv
    by (induction as arbitrary: argv) (simp_all add: quote_arg_def tokenize_quoted)
  then show ?thesis by (simp add: tokenize_command_def)
qed

lemma encode_resp_array_command: "encode_resp_array argv = encode_command argv"
  by (simp add: encode_resp_array_def encode_command_def encode_part_def [abs_def])

end
