(* ===== verification/Dashboard.thy ===== *)
theory Dashboard
  imports Dash_Codec
begin

text \<open>
  The web dashboard: \<^verbatim>\<open>src/network/dashboard/http.rs\<close> and the bind policy of \<^verbatim>\<open>src/network/dashboard/mod.rs\<close>.
  The definitions are the parsing of a request, access control, the routes with their effect on the engine, and
  the two read loops of a connection; the codecs are those of \<open>Dash_Codec\<close>.

  A \<^verbatim>\<open>String\<close> is its UTF-8 bytes. The engine calls of one request read their clocks from \<open>d_env\<close> in turn; the
  uptime, the HTML page and the printed floating point numbers are fields of \<open>dash_env\<close>. The lemmas show that a
  connection without the configured token neither changes nor observes the engine, that cross-origin writes are
  refused when no token is configured, that the way the request is cut into reads does not matter, and that
  the console executes the command a client would send over RESP.
\<close>

section \<open>Requests and responses\<close>

record request =
  rq_method :: bytes
  rq_path :: bytes
  rq_query :: bytes
  rq_headers :: str_map
  rq_body :: bytes

record response =
  rs_status :: nat
  rs_content_type :: bytes
  rs_body :: bytes

definition json_type :: bytes where "json_type = ''application/json; charset=utf-8''"

definition ok_json :: "bytes \<Rightarrow> response" where
  "ok_json body = \<lparr>rs_status = 200, rs_content_type = json_type, rs_body = body\<rparr>"

definition text_html :: "bytes \<Rightarrow> response" where
  "text_html body = \<lparr>rs_status = 200, rs_content_type = ''text/html; charset=utf-8'', rs_body = body\<rparr>"

definition status_text :: "nat \<Rightarrow> bytes" where
  "status_text status =
     (if status = 200 then ''OK'' else if status = 204 then ''No Content''
      else if status = 400 then ''Bad Request'' else if status = 401 then ''Unauthorized''
      else if status = 403 then ''Forbidden'' else if status = 404 then ''Not Found''
      else if status = 405 then ''Method Not Allowed'' else if status = 408 then ''Request Timeout''
      else if status = 413 then ''Payload Too Large''
      else if status = 500 then ''Internal Server Error'' else ''Unknown'')"

definition with_status :: "nat \<Rightarrow> response" where
  "with_status status =
     \<lparr>rs_status = status, rs_content_type = ''text/plain; charset=utf-8'', rs_body = status_text status\<rparr>"

definition json_error :: "nat \<Rightarrow> bytes \<Rightarrow> response" where
  "json_error status msg =
     \<lparr>rs_status = status, rs_content_type = json_type, rs_body = ''{\"error\":'' @ json_string msg @ ''}''\<rparr>"

definition write_response :: "response \<Rightarrow> bytes" where
  "write_response r =
     ''HTTP/1.1 '' @ show_nat (rs_status r) @ '' '' @ status_text (rs_status r) @ CRLF @
     ''Content-Type: '' @ rs_content_type r @ CRLF @
     ''Content-Length: '' @ show_nat (length (rs_body r)) @ CRLF @
     ''X-Content-Type-Options: nosniff'' @ CRLF @ ''X-Frame-Options: DENY'' @ CRLF @
     ''Referrer-Policy: no-referrer'' @ CRLF @ ''Cache-Control: no-store'' @ CRLF @
     ''Connection: close'' @ CRLF @ CRLF @ rs_body r"

definition strip_prefix_byte :: "bytes \<Rightarrow> byte \<Rightarrow> bytes" where
  "strip_prefix_byte s b = (case s of c # cs \<Rightarrow> if c = b then cs else s | [] \<Rightarrow> s)"

definition trim_ascii :: "bytes \<Rightarrow> bytes" where
  "trim_ascii s = rev (dropWhile is_ascii_ws (rev (dropWhile is_ascii_ws s)))"

text \<open>\<^verbatim>\<open>find_subsequence\<close> for the end of the header block.\<close>

fun header_end :: "bytes \<Rightarrow> nat option" where
  "header_end (a # b # c # d # bs) =
     (if [a, b, c, d] = CRLF @ CRLF then Some 0 else map_option Suc (header_end (b # c # d # bs)))"
| "header_end _ = None"

fun header_lookup :: "bytes list \<Rightarrow> bytes \<Rightarrow> bytes option" where
  "header_lookup [] name = None"
| "header_lookup (l # ls) name =
     (case split_byte (strip_prefix_byte l CR) (CHR '':'') of
        Some (k, v) \<Rightarrow> if eq_ignore_ascii_case (trim_ascii k) name then Some (from_utf8_lossy (trim_ascii v))
                      else header_lookup ls name
      | None \<Rightarrow> header_lookup ls name)"

definition header_value :: "bytes \<Rightarrow> bytes \<Rightarrow> bytes option" where
  "header_value block name = header_lookup (split_on LF block) (to_ascii_lowercase name)"

definition content_length :: "bytes \<Rightarrow> nat" where
  "content_length block =
     (case header_value block ''content-length'' of
        None \<Rightarrow> 0
      | Some v \<Rightarrow> (case parse_unsigned u64_max v of Some n \<Rightarrow> n | None \<Rightarrow> 0))"

fun collect_headers :: "bytes list \<Rightarrow> str_map \<Rightarrow> str_map" where
  "collect_headers [] m = m"
| "collect_headers (l # ls) m =
     (case split_byte l (CHR '':'') of
        None \<Rightarrow> collect_headers ls m
      | Some (k, v) \<Rightarrow>
          let name = to_ascii_lowercase (from_utf8_lossy (trim_ascii k));
              val = from_utf8_lossy (trim_ascii (strip_prefix_byte (trim_ascii v) CR))
          in collect_headers ls (if name = [] then m else AList.update name val m))"

definition parse_request :: "bytes \<Rightarrow> request option" where
  "parse_request buf =
     (case header_end buf of
        None \<Rightarrow> None
      | Some p \<Rightarrow>
          let block = take p buf; lines = split_on LF block in
          case split_on (CHR '' '') (hd lines) of
            m # t # _ \<Rightarrow>
              let target = from_utf8_lossy t;
                  (path, query) = (case split_byte target (CHR ''?'') of Some pq \<Rightarrow> pq | None \<Rightarrow> (target, []));
                  n = content_length block
              in Some \<lparr>rq_method = from_utf8_lossy m, rq_path = path, rq_query = query,
                       rq_headers = collect_headers (tl lines) [],
                       rq_body = (if length buf \<ge> p + 4 + n then take n (drop (p + 4) buf) else [])\<rparr>
          | _ \<Rightarrow> None)"

section \<open>Access control\<close>

definition strip_prefix :: "bytes \<Rightarrow> bytes \<Rightarrow> bytes option" where
  "strip_prefix p s = (if take (length p) s = p then Some (drop (length p) s) else None)"

definition origin_host :: "bytes \<Rightarrow> bytes option" where
  "origin_host origin =
     (case (case strip_prefix ''http://'' origin of Some r \<Rightarrow> Some r | None \<Rightarrow> strip_prefix ''https://'' origin) of
        None \<Rightarrow> None
      | Some rest \<Rightarrow> let host = hd (split_on (CHR ''/'') rest) in if host = [] then None else Some host)"

definition provided_token :: "request \<Rightarrow> bytes option" where
  "provided_token req =
     (case map_of (rq_headers req) ''x-ferrum-token'' of
        Some t \<Rightarrow> Some t
      | None \<Rightarrow> (case map_of (rq_headers req) ''authorization'' of
                  None \<Rightarrow> None | Some v \<Rightarrow> strip_prefix ''Bearer '' v))"

definition authorize :: "request \<Rightarrow> bytes option \<Rightarrow> response option" where
  "authorize req token =
     (case token of
        Some expected \<Rightarrow>
          if rq_path req = ''/'' then None
          else (case provided_token req of
                  Some p \<Rightarrow> if constant_time_eq p expected then None
                           else Some (json_error 401 ''missing or invalid dashboard token'')
                | None \<Rightarrow> Some (json_error 401 ''missing or invalid dashboard token''))
      | None \<Rightarrow>
          if rq_method req \<in> set [''POST'', ''PUT'', ''DELETE'', ''PATCH''] then
            (case map_of (rq_headers req) ''origin'' of
               None \<Rightarrow> None
             | Some origin \<Rightarrow>
                 let host = (case map_of (rq_headers req) ''host'' of Some h \<Rightarrow> h | None \<Rightarrow> []) in
                 if origin_host origin \<noteq> Some host then Some (json_error 403 ''cross-origin request rejected'')
                 else None)
          else None)"

text \<open>\<open>resolved\<close> is what \<^verbatim>\<open>to_socket_addrs\<close> returns: the addresses, each with its printed form and whether it is
  a loopback address, or the text of the error.\<close>

fun refuse_public :: "(bytes \<times> bool) list \<Rightarrow> unit result" where
  "refuse_public [] = Ok ()"
| "refuse_public ((addr, loopback) # rest) =
     (if \<not> loopback
      then Err (Internal (''refusing to bind the dashboard to non-loopback address '' @ addr @
             '' without a token; pass --dashboard-token <secret> or use 127.0.0.1''))
      else refuse_public rest)"

definition check_bind_policy :: "bytes + (bytes \<times> bool) list \<Rightarrow> bytes option \<Rightarrow> bytes \<Rightarrow> unit result" where
  "check_bind_policy resolved token addr =
     (if token \<noteq> None then Ok ()
      else case resolved of
        Inl e \<Rightarrow> Err (Internal (''invalid dashboard address '' @ quoted addr @ '': '' @ e))
      | Inr addrs \<Rightarrow> refuse_public addrs)"

section \<open>Handlers\<close>

record 'f dash_env =
  d_env :: "nat \<Rightarrow> env"
  d_call :: call_env
  d_platform :: "'f platform"
  d_ratio4 :: "nat \<Rightarrow> nat \<Rightarrow> bytes"
  d_uptime :: nat
  d_html :: bytes

definition ttl_number :: "ttl_status \<Rightarrow> int" where
  "ttl_number t = (case t of Millis ms \<Rightarrow> ms | _ \<Rightarrow> - 1)"

definition info_json :: "'f dash_env \<Rightarrow> engine \<Rightarrow> bytes" where
  "info_json d s =
     (let (hits, misses) = keyspace_stats s; (expires, avg_ttl) = kv_expire_stats (d_env d 1) s in
      ''{\"version\":\"'' @ pf_version (d_platform d) @ ''\",\"uptime_sec\":'' @ show_nat (d_uptime d) @
      '',\"keys\":'' @ show_nat (kv_dbsize (d_env d 0) s) @ '',\"used_memory\":'' @ show_nat (e_used_memory s) @
      '',\"max_memory\":'' @ show_nat (max_memory (e_eviction s)) @ '',\"eviction_policy\":\"'' @
      policy_name (policy (e_eviction s)) @ ''\",\"hits\":'' @ show_nat hits @ '',\"misses\":'' @ show_nat misses @
      '',\"hit_ratio\":'' @ d_ratio4 d hits misses @ '',\"ahe_alpha\":'' @ pf_fmt3 (d_platform d) (ah_alpha (e_ahe s)) @
      '',\"ahe_hit_ratio\":'' @ pf_fmt3 (d_platform d) (ah_last_hit_ratio (e_ahe s)) @ '',\"expires\":'' @
      show_nat expires @ '',\"avg_ttl_ms\":'' @ show_nat avg_ttl @ ''}'')"

definition KEYS_PER_PAGE :: nat where "KEYS_PER_PAGE = 50"

definition query_number :: "str_map \<Rightarrow> bytes \<Rightarrow> nat \<Rightarrow> nat" where
  "query_number m name dflt =
     (case map_of m name of
        None \<Rightarrow> dflt
      | Some v \<Rightarrow> (case parse_unsigned u64_max v of Some n \<Rightarrow> n | None \<Rightarrow> dflt))"

definition key_item :: "bytes \<Rightarrow> int \<Rightarrow> bytes" where
  "key_item key ttl =
     ''{\"key\":'' @ (if utf8_valid key then json_string key else ''null'') @ '',\"key_b64\":'' @
     json_string (base64_encode key) @ '',\"binary_key\":'' @ (if utf8_valid key then ''false'' else ''true'') @
     '',\"type\":\"string\",\"ttl_ms\":'' @ show_int ttl @ ''}''"

fun key_items :: "'f dash_env \<Rightarrow> nat \<Rightarrow> bytes list \<Rightarrow> engine \<Rightarrow> bytes list \<times> engine" where
  "key_items d i [] s = ([], s)"
| "key_items d i (k # ks) s =
     (let (t, s1) = kv_ttl_ms (d_env d i) (d_env d (i + 1)) k s;
          (items, s2) = key_items d (i + 2) ks s1
      in (key_item k (ttl_number t) # items, s2))"

fun join_commas :: "bytes list \<Rightarrow> bytes" where
  "join_commas [] = []"
| "join_commas [x] = x"
| "join_commas (x # xs) = x @ '','' @ join_commas xs"

definition keys_json :: "'f dash_env \<Rightarrow> bytes \<Rightarrow> engine \<Rightarrow> bytes \<times> engine" where
  "keys_json d query s =
     (let params = parse_query query;
          pattern = (case map_of params ''filter'' of Some f \<Rightarrow> f | None \<Rightarrow> ''*'');
          limit = query_number params ''limit'' KEYS_PER_PAGE;
          offset = query_number params ''offset'' 0;
          all_keys = kv_scan_keys (d_env d 0) pattern s;
          n = length all_keys;
          lo = min offset n;
          hi = min (sat_add_u64 offset limit) n;
          (items, s1) = key_items d 1 (take (hi - lo) (drop lo all_keys)) s
      in (''{\"total\":'' @ show_nat n @ '',\"count\":'' @ show_nat (hi - lo) @ '',\"offset\":'' @ show_nat offset @
          '',\"keys\":['' @ join_commas items @ '']}'', s1))"

definition key_detail :: "'f dash_env \<Rightarrow> bytes \<Rightarrow> engine \<Rightarrow> response \<times> engine" where
  "key_detail d key s =
     (case kv_get (d_env d 0) (d_env d 1) key s of
        (None, s) \<Rightarrow> (json_error 404 ''key not found'', s)
      | (Some val, s) \<Rightarrow>
          let (t, s) = kv_ttl_ms (d_env d 2) (d_env d 3) key s;
              value_field = (if utf8_valid val
                then '',\"value\":'' @ json_string val @ '',\"binary\":false''
                else '',\"value\":null,\"binary\":true,\"value_b64\":'' @ json_string (base64_encode val))
          in (ok_json (''{\"key\":'' @ json_string (from_utf8_lossy key) @ '',\"key_b64\":'' @
                json_string (base64_encode key) @ '',\"type\":\"string\"'' @ value_field @ '',\"bytes\":'' @
                show_nat (length val) @ '',\"ttl_ms\":'' @ show_int (ttl_number t) @ ''}''), s))"

definition form_of :: "bytes \<Rightarrow> str_map" where
  "form_of body = parse_query (if utf8_valid body then body else [])"

definition form_bytes :: "str_map \<Rightarrow> bytes \<Rightarrow> bytes option" where
  "form_bytes form field =
     (case map_of form (field @ ''_b64'') of
        Some b64 \<Rightarrow> base64_decode b64
      | None \<Rightarrow> map_of form field)"

definition apply_ttl :: "'f dash_env \<Rightarrow> bytes \<Rightarrow> bytes \<Rightarrow> engine \<Rightarrow> engine" where
  "apply_ttl d key ttl_str s =
     (case parse_i64 ttl_str of
        Some ttl \<Rightarrow>
          if ttl > 0 then
            snd (kv_expire_at_ms (d_env d 2) key
                   (saturate_i64 (now_ms (d_env d 1) + saturate_i64 (ttl * 1000))) s)
          else if ttl = 0 then snd (kv_persist (d_env d 1) key s) else s
      | None \<Rightarrow> s)"

definition form_ttl :: "'f dash_env \<Rightarrow> str_map \<Rightarrow> bytes \<Rightarrow> engine \<Rightarrow> engine" where
  "form_ttl d form key s = (case map_of form ''ttl'' of Some t \<Rightarrow> apply_ttl d key t s | None \<Rightarrow> s)"

definition create_key :: "'f dash_env \<Rightarrow> bytes \<Rightarrow> engine \<Rightarrow> response \<times> engine" where
  "create_key d body s =
     (let form = form_of body in
      case form_bytes form ''key'' of
        None \<Rightarrow> (json_error 400 (''missing '' @ quoted ''key''), s)
      | Some key \<Rightarrow>
          if key = [] then (json_error 400 (''missing '' @ quoted ''key''), s)
          else
            let val = (case form_bytes form ''value'' of Some v \<Rightarrow> v | None \<Rightarrow> []) in
            case kv_set (d_env d 0) key val s of
              (Inl e, s) \<Rightarrow> (json_error 500 (error_text e), s)
            | (Inr _, s) \<Rightarrow>
                (ok_json (''{\"ok\":true,\"key\":'' @ json_string (from_utf8_lossy key) @ ''}''), form_ttl d form key s))"

definition update_key :: "'f dash_env \<Rightarrow> bytes \<Rightarrow> bytes \<Rightarrow> engine \<Rightarrow> response \<times> engine" where
  "update_key d key body s =
     (let form = form_of body in
      case form_bytes form ''value'' of
        None \<Rightarrow> (json_error 400 (''missing '' @ quoted ''value''), s)
      | Some val \<Rightarrow>
          (case kv_set (d_env d 0) key val s of
             (Inl e, s) \<Rightarrow> (json_error 500 (error_text e), s)
           | (Inr _, s) \<Rightarrow> (ok_json ''{\"ok\":true}'', form_ttl d form key s)))"

definition delete_key :: "'f dash_env \<Rightarrow> bytes \<Rightarrow> engine \<Rightarrow> response \<times> engine" where
  "delete_key d key s =
     (let (b, s) = kv_del (d_env d 0) key s
      in (ok_json (if b then ''{\"deleted\":true}'' else ''{\"deleted\":false}''), s))"

definition run_command :: "'f dash_env \<Rightarrow> bytes \<Rightarrow> engine \<Rightarrow> response \<times> engine" where
  "run_command d body s =
     (case map_of (form_of body) ''command'' of
        None \<Rightarrow> (json_error 400 (''missing '' @ quoted ''command''), s)
      | Some line \<Rightarrow>
          (case tokenize_command line of
             None \<Rightarrow> (json_error 400 ''empty command'', s)
           | Some argv \<Rightarrow>
               if argv = [] then (json_error 400 ''empty command'', s)
               else
                 (case parse_frame (f_parse (pf_f64 (d_platform d))) (encode_resp_array argv) of
                    Inr (Complete cmd _) \<Rightarrow>
                      let ((out, _), s) = execute_command (d_platform d) (d_call d) None Resp2 cmd s
                      in (ok_json (''{\"ok\":true,\"response\":'' @ json_string (decode_resp out) @ ''}''), s)
                  | Inr (Invalid e _) \<Rightarrow> (json_error 400 (error_text e), s)
                  | Inr Incomplete \<Rightarrow> (json_error 400 ''incomplete command'', s)
                  | Inl e \<Rightarrow> (json_error 400 (error_text e), s))))"

definition route :: "'f dash_env \<Rightarrow> request \<Rightarrow> engine \<Rightarrow> response \<times> engine" where
  "route d req s =
     (let m = rq_method req; path = rq_path req in
      if path = ''/'' then (if m = ''GET'' then text_html (d_html d) else with_status 405, s)
      else if path = ''/api/info'' then (if m = ''GET'' then ok_json (info_json d s) else with_status 405, s)
      else if path = ''/api/keys'' then
        (if m = ''GET'' then map_prod ok_json id (keys_json d (rq_query req) s)
         else if m = ''POST'' then create_key d (rq_body req) s else (with_status 405, s))
      else if path = ''/api/command'' then
        (if m = ''POST'' then run_command d (rq_body req) s else (with_status 405, s))
      else case strip_prefix ''/api/keys/'' path of
        Some raw \<Rightarrow>
          let key = url_decode raw in
          if m = ''GET'' then key_detail d key s
          else if m = ''DELETE'' then delete_key d key s
          else if m = ''POST'' \<or> m = ''PUT'' then update_key d key (rq_body req) s
          else (with_status 405, s)
      | None \<Rightarrow> (with_status 404, s))"

definition MAX_HEADER_BYTES :: nat where "MAX_HEADER_BYTES = 64 * 1024"
definition MAX_BODY_BYTES :: nat where "MAX_BODY_BYTES = 1024 * 1024"

text \<open>
  \<^verbatim>\<open>handle_conn\<close>. The reads of the socket are a list of non-empty chunks, which ends because the peer closed
  (\<open>Closed\<close>) or because of a shutdown, an idle timeout or a read error (\<open>Quiet\<close>). \<open>read_head\<close> is the first
  read loop: \<open>Inl\<close> when it returns early, with the response if there is one, or the end of the header block,
  the buffer and the chunks still unread. \<open>read_body\<close> is the second one, \<open>None\<close> when it returns early.
\<close>

datatype read_end = Closed | Quiet

fun read_head :: "bytes list \<Rightarrow> bytes \<Rightarrow> response option + (nat \<times> bytes \<times> bytes list)" where
  "read_head [] buf =
     (case header_end buf of
        Some pos \<Rightarrow> Inr (pos + 4, buf, [])
      | None \<Rightarrow> Inl (if length buf > MAX_HEADER_BYTES then Some (with_status 400) else None))"
| "read_head (c # cs) buf =
     (case header_end buf of
        Some pos \<Rightarrow> Inr (pos + 4, buf, c # cs)
      | None \<Rightarrow> if length buf > MAX_HEADER_BYTES then Inl (Some (with_status 400)) else read_head cs (buf @ c))"

fun read_body :: "bytes list \<Rightarrow> read_end \<Rightarrow> nat \<Rightarrow> bytes \<Rightarrow> bytes option" where
  "read_body [] fin needed buf =
     (if length buf < needed then (case fin of Closed \<Rightarrow> Some buf | Quiet \<Rightarrow> None) else Some buf)"
| "read_body (c # cs) fin needed buf =
     (if length buf < needed then read_body cs fin needed (buf @ c) else Some buf)"

definition handle_conn :: "'f dash_env \<Rightarrow> bytes option \<Rightarrow> bytes list \<Rightarrow> read_end \<Rightarrow> engine \<Rightarrow>
    response option \<times> engine" where
  "handle_conn d token chunks fin s =
     (case read_head chunks [] of
        Inl early \<Rightarrow> (early, s)
      | Inr (hend, buf, rest) \<Rightarrow>
          let len = content_length (take hend buf) in
          if len > MAX_BODY_BYTES then (Some (with_status 413), s)
          else case read_body rest fin (hend + len) buf of
            None \<Rightarrow> (None, s)
          | Some buf \<Rightarrow>
              (case parse_request buf of
                 None \<Rightarrow> (Some (with_status 400), s)
               | Some req \<Rightarrow>
                   (case authorize req token of
                      Some denied \<Rightarrow> (Some denied, s)
                    | None \<Rightarrow> map_prod Some id (route d req s))))"

section \<open>Access control\<close>

text \<open>The request a connection delivers, or the response with which it is answered before there is one.\<close>

definition receive :: "bytes list \<Rightarrow> read_end \<Rightarrow> response option + request" where
  "receive chunks fin =
     (case read_head chunks [] of
        Inl early \<Rightarrow> Inl early
      | Inr (hend, buf, rest) \<Rightarrow>
          let len = content_length (take hend buf) in
          if len > MAX_BODY_BYTES then Inl (Some (with_status 413))
          else case read_body rest fin (hend + len) buf of
            None \<Rightarrow> Inl None
          | Some buf \<Rightarrow> (case parse_request buf of None \<Rightarrow> Inl (Some (with_status 400)) | Some req \<Rightarrow> Inr req))"

lemma handle_conn_receive:
  "handle_conn d token chunks fin s =
     (case receive chunks fin of
        Inl early \<Rightarrow> (early, s)
      | Inr req \<Rightarrow> (case authorize req token of
                    Some denied \<Rightarrow> (Some denied, s)
                  | None \<Rightarrow> map_prod Some id (route d req s)))"
  by (simp add: handle_conn_def receive_def Let_def split: sum.splits option.splits prod.splits)

lemma handle_conn_token:
  assumes "\<And>req. receive chunks fin = Inr req \<Longrightarrow> provided_token req \<noteq> Some t"
  shows "\<exists>r. \<forall>s. handle_conn d (Some t) chunks fin s = (r, s)"
proof (cases "receive chunks fin")
  case (Inl early)
  then show ?thesis by (simp add: handle_conn_receive)
next
  case (Inr req)
  show ?thesis
  proof (cases "rq_path req = ''/''")
    case True
    then show ?thesis by (simp add: handle_conn_receive Inr authorize_def route_def Let_def)
  next
    case False
    then show ?thesis using assms [OF Inr]
      by (auto simp: handle_conn_receive Inr authorize_def constant_time_eq_def ct_diff_zero split: option.splits)
  qed
qed

lemma handle_conn_origin:
  assumes "receive chunks fin = Inr req" "rq_method req \<in> {''POST'', ''PUT'', ''DELETE'', ''PATCH''}"
    and "map_of (rq_headers req) ''origin'' = Some orig"
    and "map_of (rq_headers req) ''host'' = Some host" "origin_host orig \<noteq> Some host"
  shows "handle_conn d None chunks fin s = (Some (json_error 403 ''cross-origin request rejected''), s)"
  using assms by (auto simp: handle_conn_receive authorize_def)

lemma check_bind_policy_public:
  "check_bind_policy resolved token addr = Ok () \<longleftrightarrow>
     token \<noteq> None \<or> (\<exists>addrs. resolved = Inr addrs \<and> (\<forall>(a, loopback) \<in> set addrs. loopback))"
proof -
  have "refuse_public addrs = Ok () \<longleftrightarrow> (\<forall>(a, loopback) \<in> set addrs. loopback)" for addrs
    by (induction addrs rule: refuse_public.induct) auto
  then show ?thesis by (simp add: check_bind_policy_def split: sum.splits)
qed

section \<open>Reading a request\<close>

lemma header_end_bound: "header_end buf = Some p \<Longrightarrow> p + 4 \<le> length buf"
  by (induction buf arbitrary: p rule: header_end.induct) (auto split: if_splits)

lemma header_end_append: "header_end buf = Some p \<Longrightarrow> header_end (buf @ tail) = Some p"
  by (induction buf arbitrary: p rule: header_end.induct) (auto split: if_splits)

lemma header_end_prefix:
  "header_end (buf @ tail) = Some p \<Longrightarrow> p + 4 \<le> length buf \<Longrightarrow> header_end buf = Some p"
  by (induction buf arbitrary: p rule: header_end.induct) (auto split: if_splits)

lemma read_head_complete:
  assumes "header_end (buf @ concat chunks) = Some p" "p + 3 \<le> MAX_HEADER_BYTES"
  shows "\<exists>b rest. read_head chunks buf = Inr (p + 4, b, rest) \<and> b @ concat rest = buf @ concat chunks
     \<and> p + 4 \<le> length b"
proof (cases "header_end buf")
  case (Some q)
  then have "q = p" using header_end_append [OF Some, of "concat chunks"] assms by simp
  with Some header_end_bound [OF Some] show ?thesis by (cases chunks) auto
next
  case None
  then have short: "length buf \<le> MAX_HEADER_BYTES" using header_end_prefix [OF assms(1)] assms(2) by fastforce
  then show ?thesis using assms None
  proof (induction chunks arbitrary: buf)
    case (Cons c cs)
    show ?case
    proof (cases "header_end (buf @ c)")
      case (Some q)
      then have "q = p" using header_end_append [OF Some, of "concat cs"] Cons.prems by simp
      with Some header_end_bound [OF Some] Cons.prems show ?thesis by (cases cs) auto
    next
      case None
      then have "length (buf @ c) \<le> MAX_HEADER_BYTES"
        using header_end_prefix [of "buf @ c" "concat cs" p] Cons.prems by fastforce
      with Cons.IH [of "buf @ c"] Cons.prems None show ?thesis by simp
    qed
  qed simp
qed

lemma read_body_complete:
  assumes "needed \<le> length (buf @ concat chunks)"
  shows "\<exists>b. read_body chunks fin needed buf = Some b \<and> needed \<le> length b
     \<and> (\<exists>tail. b @ tail = buf @ concat chunks)"
  using assms
proof (induction chunks arbitrary: buf)
  case (Cons c cs)
  then show ?case using Cons.IH [of "buf @ c"] by auto
qed auto

lemma split_on_not_Nil [simp]: "split_on d s \<noteq> []"
  by (induction s) (auto split: list.splits)

lemma split_on_append: "split_on d (a @ d # b) = split_on d a @ split_on d b"
  by (induction a) (auto split: list.splits simp: neq_Nil_conv)

lemma split_on_snoc:
  "c \<noteq> d \<Longrightarrow> split_on d (a @ [c]) = butlast (split_on d a) @ [last (split_on d a) @ [c]]"
  by (induction a) (auto split: list.splits simp: neq_Nil_conv)

lemma split_byte_snoc:
  "c \<noteq> d \<Longrightarrow> split_byte (s @ [c]) d = map_option (\<lambda>(k, v). (k, v @ [c])) (split_byte s d)"
  by (induction s) (auto simp: option.map_comp comp_def case_prod_beta)

lemma trim_ascii_snoc_CR: "trim_ascii (v @ [CR]) = trim_ascii v"
proof -
  have "is_ascii_ws CR" by (simp add: is_ascii_ws_def)
  moreover have "dropWhile is_ascii_ws v = []" if "\<forall>x\<in>set v. is_ascii_ws x" using that by simp
  ultimately show ?thesis
    by (cases "\<forall>x\<in>set v. is_ascii_ws x") (auto simp: trim_ascii_def dropWhile_append dest: set_dropWhileD)
qed

lemma header_lookup_CR: "header_lookup (ls @ [l @ [CR], [CR], []]) name = header_lookup (ls @ [l]) name"
proof (induction ls)
  case Nil
  have "strip_prefix_byte (l @ [CR]) CR = strip_prefix_byte l CR @ [CR] \<or> l = []"
    by (cases l) (auto simp: strip_prefix_byte_def)
  then show ?case
    by (auto simp: split_byte_snoc trim_ascii_snoc_CR strip_prefix_byte_def split: option.splits)
next
  case (Cons x xs)
  then show ?case by (simp split: option.splits)
qed

lemma header_end_split:
  "header_end buf = Some p \<Longrightarrow> take (p + 4) buf = take p buf @ CRLF @ CRLF"
  by (induction buf arbitrary: p rule: header_end.induct) (auto simp: eval_nat_numeral split: if_splits)

text \<open>The two readings of the content length, with and without the empty line, agree.\<close>

lemma content_length_block:
  assumes "header_end buf = Some p"
  shows "content_length (take (p + 4) buf) = content_length (take p buf)"
proof -
  have "split_on LF (take p buf @ CRLF @ CRLF) =
      split_on LF (take p buf @ [CR]) @ split_on LF ([CR] @ LF # [])"
    using split_on_append [of LF "take p buf @ [CR]" "[CR] @ LF # []"] by simp
  also have "\<dots> = butlast (split_on LF (take p buf)) @ [last (split_on LF (take p buf)) @ [CR], [CR], []]"
    by (simp add: split_on_snoc)
  finally have "header_value (take (p + 4) buf) name = header_value (take p buf) name" for name
    using append_butlast_last_id [of "split_on LF (take p buf)"]
    unfolding header_value_def header_end_split [OF assms] by (simp only: header_lookup_CR) simp
  then show ?thesis by (simp add: content_length_def)
qed

lemma parse_request_prefix:
  assumes "header_end b = Some p" "p + 4 + content_length (take p b) \<le> length b"
  shows "parse_request (b @ tail) = parse_request b"
  using assms header_end_append [OF assms(1), of tail] header_end_bound [OF assms(1)]
  by (auto simp: parse_request_def Let_def split: list.splits prod.splits)

lemma receive_segments:
  assumes "header_end (concat chunks) = Some p" "p + 3 \<le> MAX_HEADER_BYTES"
    and len: "content_length (take p (concat chunks)) \<le> MAX_BODY_BYTES"
    and all: "p + 4 + content_length (take p (concat chunks)) \<le> length (concat chunks)"
  shows "receive chunks fin =
     (case parse_request (concat chunks) of None \<Rightarrow> Inl (Some (with_status 400)) | Some req \<Rightarrow> Inr req)"
proof -
  let ?n = "content_length (take p (concat chunks))"
  obtain b rest where h: "read_head chunks [] = Inr (p + 4, b, rest)" "b @ concat rest = concat chunks"
    "p + 4 \<le> length b"
    using read_head_complete [of "[]" chunks p] assms(1,2) by auto
  have hb: "header_end b = Some p" using header_end_prefix [of b "concat rest" p] h assms(1) by simp
  have tp: "take p b = take p (concat chunks)" using h by (metis add_leD1 take_append diff_is_0_eq take0 append_Nil2)
  obtain c tail where c: "read_body rest fin (p + 4 + ?n) b = Some c" "p + 4 + ?n \<le> length c"
    "c @ tail = concat chunks"
    using read_body_complete [of "p + 4 + ?n" b rest fin] all h(2) by auto
  have hc: "header_end c = Some p" using header_end_prefix [of c tail p] c assms(1) by simp
  have tc: "take p c = take p (concat chunks)" using c(2,3) by (metis add_leD1 take_append diff_is_0_eq take0 append_Nil2)
  have "parse_request (concat chunks) = parse_request c"
    using parse_request_prefix [OF hc, of tail] c tc by simp
  then show ?thesis
    using content_length_block [OF hb] len by (simp add: receive_def h(1) c(1) tp)
qed

section \<open>The command console\<close>

lemma run_command_wire:
  assumes "map_of (form_of body) ''command'' = Some (command_line argv)" "frame_ok argv"
    and "build_command (f_parse (pf_f64 (d_platform d))) argv = Ok cmd"
  shows "run_command d body s =
     (let ((out, _), s') = execute_command (d_platform d) (d_call d) None Resp2 cmd s
      in (ok_json (''{\"ok\":true,\"response\":'' @ json_string (decode_resp out) @ ''}''), s'))"
  using assms parse_frame_encode [OF assms(2), of "f_parse (pf_f64 (d_platform d))" "[]"]
  by (auto simp: run_command_def tokenize_command_line encode_resp_array_command frame_ok_def)

end
