(* ===== verification/Journal.thy ===== *)
theory Journal
  imports Reachable
begin

text \<open>
  The engine and its append-only file: whatever a command does, it reaches the writer only through
  \<^verbatim>\<open>write_bytes\<close> and the durability barrier \<^verbatim>\<open>sync_if_needed\<close>. The locale \<open>writer_contract\<close> states what an
  invariant of the writer has to satisfy, its lemmas carry the invariant through every command and every run of
  commands (eviction, lazy and active expiry included); the interpretations below are the invariants used.
\<close>

section \<open>Invariants of the writer under the commands\<close>

lemma e_aof_note: "e_aof (aof_note opr s) = map_option (\<lambda>w. snd (opr w)) (e_aof s)"
  by (auto simp: aof_note_def note_aof_result_def Let_def split: option.splits prod.splits sum.splits)

locale writer_contract =
  fixes ok :: "aof_writer \<Rightarrow> bool"
  assumes write_ok: "ok w \<Longrightarrow> ok (snd (write_bytes b w))"
    and sync_ok: "ok w \<Longrightarrow> ok (snd (sync_if_needed w))"
begin

lemma appends_ok:
  assumes "ok w"
  shows "ok (snd (append_set k val w))" "ok (snd (append_set_many ps w))" "ok (snd (append_del k w))"
    "ok (snd (append_flushdb w))" "ok (snd (append_pexpireat k ms w))" "ok (snd (append_persist k w))"
  using assms write_ok
  by (auto simp: append_set_def append_set_many_def append_del_def append_flushdb_def append_pexpireat_def
      append_persist_def aof_append_def)

lemma note_ok:
  assumes "pred_option ok (e_aof s)" "\<And>w. ok w \<Longrightarrow> ok (snd (opr w))"
  shows "pred_option ok (e_aof (aof_note opr s))"
  using assms by (cases "e_aof s") (simp_all add: e_aof_note)

lemma expire_drop_ok [simp]:
  "pred_option ok (e_aof s) \<Longrightarrow> pred_option ok (e_aof (log_expire_drop k s))"
  "pred_option ok (e_aof (g_engine g)) \<Longrightarrow> pred_option ok (e_aof (g_engine (wg_expire_drop k g)))"
  by (simp_all add: log_expire_drop_def wg_expire_drop_def note_ok appends_ok)

lemma log_ok [simp]:
  assumes "pred_option ok (e_aof (g_engine g))"
  shows "pred_option ok (e_aof (g_engine (wg_log (append_set k val) g)))"
    "pred_option ok (e_aof (g_engine (wg_log (append_set_many ps) g)))"
    "pred_option ok (e_aof (g_engine (wg_log (append_del k) g)))"
    "pred_option ok (e_aof (g_engine (wg_log append_flushdb g)))"
    "pred_option ok (e_aof (g_engine (wg_log (append_pexpireat k ms) g)))"
    "pred_option ok (e_aof (g_engine (wg_log (append_persist k) g)))"
  using assms by (simp_all add: wg_log_engine note_ok appends_ok)

lemma drop_ok [simp]: "pred_option ok (e_aof (g_engine g)) \<Longrightarrow> pred_option ok (e_aof (wg_drop g))"
  by (simp add: wg_drop_def note_ok sync_ok)

lemma evict_loop_ok:
  "pred_option ok (e_aof s) \<Longrightarrow> pred_option ok (e_aof (snd (evict_loop fuel v cfg inc n s)))"
proof (induction fuel arbitrary: n s)
  case (Suc fuel)
  obtain x s1 where sv: "select_victim v cfg s = (x, s1)" by (cases "select_victim v cfg s")
  then have "e_aof s1 = e_aof s" using select_victim_simps(4) [of v cfg s] by simp
  then have "pred_option ok (e_aof (evict_turn k s1))" for k
    using Suc.prems by (simp add: evict_turn_def Let_def note_ok appends_ok)
  then show ?case
    using Suc.IH Suc.prems sv \<open>e_aof s1 = e_aof s\<close> by (simp add: evict_loop_Suc del: evict_loop.simps split: option.splits)
qed simp

lemma enforce_ok [simp]:
  assumes "pred_option ok (e_aof (g_engine g))"
  shows "pred_option ok (e_aof (g_engine (snd (wg_enforce v k n g))))"
  using assms evict_loop_ok [OF assms]
  by (auto simp: wg_enforce_def enforce_for_write_def enforce_memory_limit_def case_prod_unfold Let_def split: sum.splits)

lemma put_aof [simp]: "e_aof (g_engine (wg_put k e g)) = e_aof (g_engine g)"
  by (simp add: wg_put_def)

lemma put_pairs_aof [simp]: "e_aof (g_engine (put_pairs v ps g)) = e_aof (g_engine g)"
  by (induction ps arbitrary: g) auto

lemma enforce_pairs_ok [simp]:
  "pred_option ok (e_aof (g_engine g)) \<Longrightarrow> pred_option ok (e_aof (g_engine (snd (enforce_pairs v ps g))))"
proof (induction v ps g rule: enforce_pairs.induct)
  case (2 v k val ps g)
  obtain r g1 where e: "wg_enforce v k (length val) g = (r, g1)" by (cases "wg_enforce v k (length val) g")
  then have "pred_option ok (e_aof (g_engine g1))" using enforce_ok [OF 2(2), of v k "length val"] by simp
  then show ?case using 2(1) e by (cases r) simp_all
qed simp

lemma inserts_ok [simp]:
  assumes "pred_option ok (e_aof (g_engine g))"
  shows "pred_option ok (e_aof (g_engine (snd (wg_insert v k val g))))"
    "pred_option ok (e_aof (g_engine (snd (wg_insert_nx v k val g))))"
    "pred_option ok (e_aof (g_engine (snd (wg_insert_many v ps g))))"
    "pred_option ok (e_aof (g_engine (snd (wg_insert_keep_ttl v k val ttl g))))"
proof -
  show "pred_option ok (e_aof (g_engine (snd (wg_insert v k val g))))"
    using assms by (simp add: wg_insert_def case_prod_unfold Let_def split: sum.split)
  show "pred_option ok (e_aof (g_engine (snd (wg_insert_nx v k val g))))"
    using assms by (simp add: wg_insert_nx_def case_prod_unfold Let_def split: sum.split option.split)
  show "pred_option ok (e_aof (g_engine (snd (wg_insert_many v ps g))))"
    using assms by (simp add: wg_insert_many_def case_prod_unfold split: sum.split)
  show "pred_option ok (e_aof (g_engine (snd (wg_insert_keep_ttl v k val ttl g))))"
    using assms by (simp add: wg_insert_keep_ttl_def case_prod_unfold Let_def split: sum.split option.split)
qed

lemma reads_ok [simp]:
  assumes "pred_option ok (e_aof (g_engine g))"
  shows "pred_option ok (e_aof (g_engine (snd (wg_fetch_live v k g))))"
    "pred_option ok (e_aof (g_engine (snd (wg_contains_live v k g))))"
    "pred_option ok (e_aof (g_engine (snd (wg_ttl_of v k g))))"
    "pred_option ok (e_aof (g_engine (snd (wg_strlen_of v k g))))"
    "pred_option ok (e_aof (g_engine (snd (wg_memory_of v k g))))"
    "pred_option ok (e_aof (g_engine (snd (wg_read_state v k g))))"
    "pred_option ok (e_aof (g_engine (snd (wg_persist v k g))))"
    "pred_option ok (e_aof (g_engine (snd (wg_expire_at v k ms g))))"
  using assms
  by (auto simp: wg_fetch_live_def wg_contains_live_def wg_ttl_of_def wg_strlen_of_def wg_memory_of_def
      wg_read_state_def wg_persist_def wg_expire_at_def untrack_def Let_def split: option.splits)

lemma loops_ok [simp]:
  "pred_option ok (e_aof s) \<Longrightarrow> pred_option ok (e_aof (snd (mget_scan v ks s)))"
  "pred_option ok (e_aof s) \<Longrightarrow> pred_option ok (e_aof (snd (exists_scan v ks s)))"
  "pred_option ok (e_aof (g_engine g)) \<Longrightarrow> pred_option ok (e_aof (g_engine (fetch_all v ks g)))"
  "pred_option ok (e_aof (g_engine g)) \<Longrightarrow> pred_option ok (e_aof (g_engine (snd (contains_all v ks n g))))"
  "pred_option ok (e_aof (g_engine g)) \<Longrightarrow> pred_option ok (e_aof (g_engine (snd (remove_keys v ks g))))"
  "pred_option ok (e_aof (g_engine g)) \<Longrightarrow> pred_option ok (e_aof (g_engine (log_dels ks g)))"
  "pred_option ok (e_aof s) \<Longrightarrow> pred_option ok (e_aof (drop_victims ks s))"
  by (induction ks arbitrary: s g n) (simp_all add: case_prod_unfold Let_def note_ok appends_ok split: probe.splits)

lemma updates_ok:
  assumes "pred_option ok (e_aof s)"
  shows "pred_option ok (e_aof (snd (kv_incr_by v k d s)))" "pred_option ok (e_aof (snd (kv_append v k x s)))"
proof -
  obtain st g where rs: "wg_read_state v k (wg_begin s) = (st, g)" by (cases "wg_read_state v k (wg_begin s)")
  then have g: "pred_option ok (e_aof (g_engine g))" using reads_ok(6) [of "wg_begin s" v k] assms by simp
  note keep = drop_ok [OF g] drop_ok [OF inserts_ok(4) [OF g]]
  show "pred_option ok (e_aof (snd (kv_incr_by v k d s)))"
    using assms by (simp add: kv_incr_by_def rs keep case_prod_unfold Let_def split: sum.split option.split)
  show "pred_option ok (e_aof (snd (kv_append v k x s)))"
    using assms by (simp add: kv_append_def rs keep case_prod_unfold Let_def split: sum.split option.split)
qed

lemma run_op_ok:
  assumes "pred_option ok (e_aof s)"
  shows "pred_option ok (e_aof (snd (run_op v v2 op s)))"
  using assms updates_ok [OF assms]
  by (cases op) (auto simp: kv_set_def kv_set_nx_def kv_mset_def kv_get_def kv_mget_def kv_exists_def
    kv_exists_many_def kv_strlen_def kv_ttl_ms_def kv_memory_usage_def kv_del_def kv_del_many_def kv_flushdb_def
    kv_expire_at_ms_def kv_persist_def kv_sweep_expired_def wg_remove_def wg_remove_many_def wg_clear_def
    track_clear_def case_prod_unfold Let_def split: probe.splits)

lemma run_trace_ok: "pred_option ok (e_aof s) \<Longrightarrow> pred_option ok (e_aof (snd (run_trace tr s)))"
proof (induction tr arbitrary: s)
  case (Cons x tr)
  obtain v v2 op where x: "x = (v, v2, op)" by (cases x)
  show ?case using Cons.IH [OF run_op_ok [OF Cons.prems, of v v2 op]] x by (simp add: case_prod_unfold Let_def)
qed simp

end

section \<open>The invariants\<close>

text \<open>The shape of the writer; the bytes accepted so far, which nothing takes back; and, while a rewrite is under
  way and the disk is well, the appends since its start.\<close>

lemma sync_if_needed_simps [simp]:
  "aof_log (snd (sync_if_needed w)) = aof_log w" "w_rewriting (snd (sync_if_needed w)) = w_rewriting w"
  "w_delta (snd (sync_if_needed w)) = w_delta w" "w_path (snd (sync_if_needed w)) = w_path w"
  "w_delta_cap (snd (sync_if_needed w)) = w_delta_cap w"
  using bw_flush_simps(1) [of w] by (simp_all add: sync_if_needed_def case_prod_unfold Let_def aof_log_def)

lemma aof_wf_sync: "aof_wf w \<Longrightarrow> aof_wf (snd (sync_if_needed w))"
  using aof_wf_io(2) [of w] aof_wf_io(3) [of "snd (bw_flush w)"]
  by (auto simp: sync_if_needed_def case_prod_unfold Let_def) (simp_all add: aof_wf_def)

interpretation wf: writer_contract aof_wf
  by unfold_locales (metis aof_wf_write_bytes prod.collapse, rule aof_wf_sync)

definition log_has :: "bytes \<Rightarrow> aof_writer \<Rightarrow> bool" where
  "log_has base w \<longleftrightarrow> (\<exists>rest. aof_log w = base @ rest)"

interpretation grow: writer_contract "log_has base" for base
proof
  fix w b assume "log_has base w"
  moreover obtain r w' where wb: "write_bytes b w = (r, w')" by (cases "write_bytes b w")
  moreover have "\<exists>rest. aof_log w' = aof_log w @ rest"
    using write_bytes_Ok [of b w w'] write_bytes_Err [of b w _ w'] wb by (cases r) auto
  ultimately show "log_has base (snd (write_bytes b w))" by (auto simp: log_has_def)
qed (simp add: log_has_def)

definition mirrored :: "bytes \<Rightarrow> aof_writer \<Rightarrow> bool" where
  "mirrored base w \<longleftrightarrow> w_io w = [] \<and> w_path w = None \<and> (w_rewriting w \<longrightarrow> aof_log w = base @ w_delta w)"

lemma write_bytes_io:
  assumes "w_io w = []"
  shows "fst (write_bytes b w) = Ok ()" "w_io (snd (write_bytes b w)) = []" "aof_log (snd (write_bytes b w)) = aof_log w @ b"
  using assms
  by (auto simp: write_bytes_def bw_write_all_def bw_flush_def next_io_def to_file_def delta_mirror_def aof_log_def Let_def
      split: fsync_policy.splits)

lemma sync_if_needed_io: "w_io w = [] \<Longrightarrow> w_io (snd (sync_if_needed w)) = []"
  by (auto simp: sync_if_needed_def bw_flush_def sync_data_def next_io_def to_file_def Let_def)

interpretation mir: writer_contract "mirrored base" for base
proof
  fix w b assume m: "mirrored base w"
  then have "write_bytes b w = (Ok (), snd (write_bytes b w))" using write_bytes_io(1) [of w b] by (simp add: mirrored_def prod_eq_iff)
  from write_bytes_delta [OF this] m write_bytes_io [of w b] show "mirrored base (snd (write_bytes b w))"
    by (auto simp: mirrored_def)
qed (simp add: mirrored_def sync_if_needed_io)

definition idle :: "aof_writer \<Rightarrow> bool" where
  "idle w \<longleftrightarrow> \<not> w_rewriting w \<and> w_path w = None"

interpretation idl: writer_contract idle
proof
  fix w b assume "idle w"
  then show "idle (snd (write_bytes b w))"
    by (simp add: idle_def write_bytes_def case_prod_unfold Let_def delta_mirror_def split: fsync_policy.split)
qed (simp add: idle_def)

end
