(* ===== verification/Recovery.thy ===== *)
theory Recovery
  imports Journal Replay
begin

text \<open>
  Restart: the commands of an engine with an append-only file, followed by the replay of that file into a fresh
  engine. \<open>lrec\<close> lists the records the writer produces, \<open>replayed\<close> is their meaning on a map from keys to a value
  and a deadline in epoch milliseconds. The invariant \<open>logged\<close> says that the log of the running engine means its
  store; every command keeps it (\<open>run_op_logged\<close>), and replaying a log builds a store with the meaning of the log
  (\<open>apply_recs_mirrors\<close>). Both hold as long as no logged deadline has passed by the time of the replay.
\<close>

section \<open>The records and their meaning\<close>

datatype lrec = LSet bytes bytes | LDel bytes | LFlush | LExpire bytes int | LPersist bytes

fun rec_parts :: "lrec \<Rightarrow> bytes list" where
  "rec_parts (LSet k val) = [''SET'', k, val]"
| "rec_parts (LDel k) = [''DEL'', k]"
| "rec_parts LFlush = [''FLUSHDB'']"
| "rec_parts (LExpire k ms) = [''PEXPIREAT'', k, show_int ms]"
| "rec_parts (LPersist k) = [''PERSIST'', k]"

type_synonym lmap = "bytes \<rightharpoonup> bytes \<times> int option"

fun log_step :: "lrec \<Rightarrow> lmap \<Rightarrow> lmap" where
  "log_step (LSet k val) m = m(k \<mapsto> (val, None))"
| "log_step (LDel k) m = m(k := None)"
| "log_step LFlush m = Map.empty"
| "log_step (LExpire k ms) m = (case m k of None \<Rightarrow> m | Some (d, _) \<Rightarrow> m(k \<mapsto> (d, Some ms)))"
| "log_step (LPersist k) m = (case m k of None \<Rightarrow> m | Some (d, _) \<Rightarrow> m(k \<mapsto> (d, None)))"

definition log_steps :: "lrec list \<Rightarrow> lmap \<Rightarrow> lmap" where
  "log_steps recs m = fold log_step recs m"

lemma log_steps_simps [simp]:
  "log_steps [] m = m" "log_steps (r # rs) m = log_steps rs (log_step r m)"
  "log_steps (rs @ rs') m = log_steps rs' (log_steps rs m)"
  by (simp_all add: log_steps_def)

text \<open>A record the writer may produce: a valid key and value, a 64-bit deadline after \<open>T\<close>.\<close>

fun rec_ok :: "int \<Rightarrow> lrec \<Rightarrow> bool" where
  "rec_ok T (LSet k val) \<longleftrightarrow> valid_pair k val = Ok ()"
| "rec_ok T (LDel k) \<longleftrightarrow> validate_key k = Ok ()"
| "rec_ok T LFlush \<longleftrightarrow> True"
| "rec_ok T (LExpire k ms) \<longleftrightarrow> validate_key k = Ok () \<and> in_i64 ms \<and> T < ms"
| "rec_ok T (LPersist k) \<longleftrightarrow> validate_key k = Ok ()"

definition recs_bytes :: "lrec list \<Rightarrow> bytes" where
  "recs_bytes recs = log_bytes (map rec_parts recs)"

lemma recs_bytes_simps [simp]:
  "recs_bytes [] = []" "recs_bytes (rs @ rs') = recs_bytes rs @ recs_bytes rs'"
  "recs_bytes [r] = encode_command (rec_parts r)"
  by (simp_all add: recs_bytes_def log_bytes_def)

lemma validate_key_length: "validate_key k = Ok () \<Longrightarrow> in_i64 (int (length k))"
  by (auto simp: validate_key_def KEY_MAX_BYTES_def in_i64_def Let_def split: if_splits)

lemma valid_pair_iff: "valid_pair k val = Ok () \<longleftrightarrow> validate_key k = Ok () \<and> validate_value val = Ok ()"
  by (auto simp: valid_pair_def split: sum.splits)

lemma rec_ok_record: "rec_ok T r \<Longrightarrow> record_ok (rec_parts r)"
  using length_show_int
  by (cases r) (force simp: record_ok_def in_i64_def valid_pair_iff validate_key_def validate_value_def
      KEY_MAX_BYTES_def VALUE_MAX_BYTES_def Let_def split: if_splits)+

section \<open>Stores and their meaning\<close>

text \<open>A deadline in nanoseconds of the monotonic clock, whose origin is \<open>off\<close> nanoseconds after the epoch, against
  the milliseconds in the log: at most two milliseconds later, not before \<open>lo\<close>, and within 64 bits.\<close>

definition near :: "int \<Rightarrow> int \<Rightarrow> instant \<Rightarrow> int \<Rightarrow> bool" where
  "near off lo dl ms \<longleftrightarrow> ms * 1000000 \<le> int dl + off \<and> int dl + off < (ms + 2) * 1000000
     \<and> lo * 1000000 \<le> int dl + off \<and> int dl + off < (i64_max + 1) * 1000000"

definition mirrors :: "int \<Rightarrow> int \<Rightarrow> store \<Rightarrow> lmap \<Rightarrow> bool" where
  "mirrors off lo st m \<longleftrightarrow> (\<forall>k. rel_option (\<lambda>e (d, a). data e = d \<and> rel_option (near off lo) (expire_at e) a)
     (map_of st k) (m k))"

lemma mirrors_Nil [simp]: "mirrors off lo [] Map.empty"
  by (simp add: mirrors_def)

lemma mirrors_update:
  "mirrors off lo st m \<Longrightarrow> data e = d \<Longrightarrow> rel_option (near off lo) (expire_at e) a \<Longrightarrow>
   mirrors off lo (AList.update k e st) (m(k \<mapsto> (d, a)))"
  by (simp add: mirrors_def)

lemma mirrors_delete: "mirrors off lo st m \<Longrightarrow> mirrors off lo (AList.delete k st) (m(k := None))"
  by (simp add: mirrors_def)

lemma mirrors_None: "mirrors off lo st m \<Longrightarrow> map_of st k = None \<longleftrightarrow> m k = None"
proof -
  assume "mirrors off lo st m"
  then have "rel_option (\<lambda>e (d, a). data e = d \<and> rel_option (near off lo) (expire_at e) a) (map_of st k) (m k)"
    by (simp add: mirrors_def)
  then show ?thesis by (cases "map_of st k"; cases "m k") simp_all
qed

lemma mirrors_Some:
  assumes "mirrors off lo st m" "map_of st k = Some e"
  obtains a where "m k = Some (data e, a)" "rel_option (near off lo) (expire_at e) a"
proof -
  from assms(1) have "rel_option (\<lambda>e (d, a). data e = d \<and> rel_option (near off lo) (expire_at e) a) (map_of st k) (m k)"
    by (simp add: mirrors_def)
  with assms(2) that show thesis by (auto simp: option_rel_Some1)
qed

lemma mirrors_touch [simp]:
  "mirrors off lo (e_store (touch_access v k s)) m \<longleftrightarrow> mirrors off lo (e_store s) m"
proof -
  have "map_of (e_store (touch_access v k s)) k' =
      (if k' = k then map_option (touch v (fst (next_rand01 s))) (map_of (e_store s) k) else map_of (e_store s) k')" for k'
    by (auto simp: touch_access_store split: option.splits)
  then show ?thesis by (auto simp: mirrors_def option.rel_map)
qed

text \<open>Nothing has expired while the clock has not reached \<open>lo\<close>.\<close>

definition fresh :: "env \<Rightarrow> engine \<Rightarrow> bool" where
  "fresh v s \<longleftrightarrow> (\<forall>k e. map_of (e_store s) k = Some e \<longrightarrow> \<not> is_expired e (now v))"

definition clock_ok :: "int \<Rightarrow> int \<Rightarrow> env \<Rightarrow> bool" where
  "clock_ok off T v \<longleftrightarrow> now_ms v = (int (now v) + off) div 1000000 \<and> 0 \<le> now_ms v \<and> now_ms v \<le> T"

lemma mirrors_fresh:
  assumes "mirrors off lo (e_store s) m" "clock_ok off T v" "T < lo"
  shows "fresh v s"
  unfolding fresh_def
proof (intro allI impI)
  fix k e assume e: "map_of (e_store s) k = Some e"
  obtain a where "rel_option (near off lo) (expire_at e) a" using mirrors_Some [OF assms(1) e] by blast
  moreover have "int (now v) + off < lo * 1000000" using assms(2,3) by (simp add: clock_ok_def) linarith
  ultimately show "\<not> is_expired e (now v)"
    by (cases "expire_at e"; cases a) (simp_all add: is_expired_def near_def)
qed

section \<open>What the commands write to the log\<close>

text \<open>The contents of the log of an engine whose file operations succeed.\<close>

fun jr :: "aof_writer option \<Rightarrow> bytes option" where
  "jr None = None"
| "jr (Some w) = (if w_io w = [] then Some (aof_log w) else None)"

text \<open>A run is judged from an origin: the log at its start and a map that log may mean.\<close>

type_synonym origin = "bytes \<times> lmap"

definition says :: "origin \<Rightarrow> engine \<Rightarrow> lrec list \<Rightarrow> bool" where
  "says B s recs \<longleftrightarrow> jr (e_aof s) = Some (fst B @ recs_bytes recs)"

lemma says_cong: "e_aof s' = e_aof s \<Longrightarrow> says B s' recs = says B s recs"
  by (simp add: says_def)

lemma says_append:
  assumes "says B s recs" "\<And>w. opr w = write_bytes (recs_bytes rs) w"
  shows "says B (aof_note opr s) (recs @ rs)"
  using assms(1) write_bytes_io
  by (auto simp: says_def e_aof_note assms(2) split: if_splits elim!: jr.elims)

lemma says_sync: "says B s recs \<Longrightarrow> says B (aof_note sync_if_needed s) recs"
  using sync_if_needed_io by (auto simp: says_def e_aof_note split: if_splits elim!: jr.elims)

lemma says_log:
  assumes "says B (g_engine g) recs" "\<And>w. opr w = write_bytes (recs_bytes rs) w"
  shows "says B (g_engine (wg_log opr g)) (recs @ rs)"
proof (cases "e_aof (g_engine g)")
  case None
  then show ?thesis using assms(1) by (simp add: says_def)
next
  case (Some w)
  then show ?thesis using says_append [OF assms] by (simp add: wg_log_def)
qed

lemma says_drop [simp]: "says B (g_engine g) recs \<Longrightarrow> says B (wg_drop g) recs"
  by (simp add: wg_drop_def says_sync)

lemma writers:
  "append_set k val w = write_bytes (recs_bytes [LSet k val]) w" "append_del k w = write_bytes (recs_bytes [LDel k]) w"
  "append_flushdb w = write_bytes (recs_bytes [LFlush]) w" "append_persist k w = write_bytes (recs_bytes [LPersist k]) w"
  "append_pexpireat k ms w = write_bytes (recs_bytes [LExpire k ms]) w"
  by (simp_all add: append_set_def append_del_def append_flushdb_def append_persist_def append_pexpireat_def aof_append_def)

lemma says_frame [simp]:
  "says B (snd (track_insert k e s)) recs = says B s recs" "says B (snd (track_remove k s)) recs = says B s recs"
  "says B (track_clear s) recs = says B s recs" "says B (record_hit s) recs = says B s recs" "says B (record_miss s) recs = says B s recs"
  "says B (touch_access v k s) recs = says B s recs" "says B (s\<lparr>e_store := st\<rparr>) recs = says B s recs"
  "says B (sieve_notify_insert k b s) recs = says B s recs" "says B (ac_notify_insert k b s) recs = says B s recs"
  "says B (sieve_notify_remove k s) recs = says B s recs" "says B (ac_notify_remove k s) recs = says B s recs"
  "says B (g_engine (wg_put k e g)) recs = says B (g_engine g) recs"
  by (simp_all add: says_def track_clear_def wg_put_def)

text \<open>The invariant: the log means the store, and every record of it is one the replay will accept.\<close>

definition valid_map :: "lmap \<Rightarrow> bool" where
  "valid_map m \<longleftrightarrow> (\<forall>k d a. m k = Some (d, a) \<longrightarrow> valid_pair k d = Ok ())"

definition logged :: "origin \<Rightarrow> int \<Rightarrow> int \<Rightarrow> lrec list \<Rightarrow> engine \<Rightarrow> bool" where
  "logged B off T recs s \<longleftrightarrow> says B s recs \<and> list_all (rec_ok T) recs \<and> valid_map (snd B)
     \<and> mirrors off (T + 2) (e_store s) (log_steps recs (snd B))"

definition extends :: "origin \<Rightarrow> int \<Rightarrow> int \<Rightarrow> lrec list \<Rightarrow> engine \<Rightarrow> bool" where
  "extends B off T recs s \<longleftrightarrow> (\<exists>rs. logged B off T (recs @ rs) s)"

lemma extends_refl: "logged B off T recs s \<Longrightarrow> extends B off T recs s"
  unfolding extends_def by (rule exI [of _ "[]"]) simp

lemma valid_map_step: "rec_ok T r \<Longrightarrow> valid_map m \<Longrightarrow> valid_map (log_step r m)"
  by (cases r) (auto simp: valid_map_def split: if_splits option.splits)

lemma valid_map_steps: "list_all (rec_ok T) recs \<Longrightarrow> valid_map m \<Longrightarrow> valid_map (log_steps recs m)"
  by (induction recs arbitrary: m) (auto simp: valid_map_step)

lemma logged_valid_pair:
  assumes "logged B off T recs s" "map_of (e_store s) k = Some e"
  shows "valid_pair k (data e) = Ok ()"
proof -
  have "valid_map (log_steps recs (snd B))" using assms(1) valid_map_steps by (auto simp: logged_def)
  moreover obtain a where "log_steps recs (snd B) k = Some (data e, a)"
    using assms mirrors_Some unfolding logged_def by metis
  ultimately show ?thesis by (auto simp: valid_map_def)
qed

lemma logged_valid: "logged B off T recs s \<Longrightarrow> map_of (e_store s) k \<noteq> None \<Longrightarrow> validate_key k = Ok ()"
  using logged_valid_pair [of B off T recs s k] by (auto simp: valid_pair_iff)


section \<open>Every command keeps the log in step\<close>

lemma logged_drop: "logged B off T recs (g_engine g) \<Longrightarrow> logged B off T recs (wg_drop g)"
  by (simp add: logged_def)

lemma logged_quiet:
  assumes "logged B off T recs s" "e_aof s' = e_aof s" "mirrors off (T + 2) (e_store s') (log_steps recs (snd B))"
  shows "logged B off T recs s'"
  using assms by (simp add: logged_def says_def)

lemma logged_write:
  assumes "logged B off T recs (g_engine g)" "\<And>w. opr w = write_bytes (recs_bytes rs) w" "list_all (rec_ok T) rs"
    and "e_aof s' = e_aof (g_engine (wg_log opr g))"
    and "mirrors off (T + 2) (e_store s') (log_steps rs (log_steps recs (snd B)))"
  shows "logged B off T (recs @ rs) s'"
  using assms(1,3,5) says_log [of B g recs opr rs] assms(2) says_cong [OF assms(4)] by (simp add: logged_def)

lemma extendsI: "logged B off T (recs @ rs) (g_engine g) \<Longrightarrow> extends B off T recs (wg_drop g)"
  unfolding extends_def by (blast intro: logged_drop)

lemma aof_of_put [simp]: "e_aof (g_engine (wg_put k e g)) = e_aof (g_engine g)"
  by (simp add: wg_put_def)

lemma put_logged:
  assumes "logged B off T recs (g_engine g)" "valid_pair k val = Ok ()"
  shows "logged B off T (recs @ [LSet k val]) (g_engine (wg_put k (entry_new v val) (wg_log (append_set k val) g)))"
  by (rule logged_write [OF assms(1) writers(1)])
    (use assms in \<open>auto simp: logged_def intro!: mirrors_update\<close>)

lemma set_logged:
  assumes "logged B off T recs s" "unlimited s"
  shows "extends B off T recs (snd (kv_set v k val s))"
proof (cases "valid_pair k val = Ok ()")
  case False
  then have "snd (kv_set v k val s) = s"
    by (auto simp: kv_set_def wg_insert_def valid_pair_iff wg_drop_def wg_begin_def split: sum.splits)
  with assms(1) show ?thesis by (simp add: extends_refl)
next
  case True
  then have "snd (kv_set v k val s) = wg_drop (wg_put k (entry_new v val) (wg_log (append_set k val) (wg_begin s)))"
    using assms(2) by (simp add: kv_set_def wg_insert_def valid_pair_iff wg_enforce_unlimited unlimited_def Let_def)
  with put_logged [of B off T recs "wg_begin s"] assms(1) True show ?thesis by (auto intro: extendsI)
qed

lemma set_nx_logged:
  assumes "logged B off T recs s" "unlimited s" "fresh v s"
  shows "extends B off T recs (snd (kv_set_nx v k val s))"
proof (cases "valid_pair k val = Ok () \<and> map_of (e_store s) k = None")
  case False
  then have "snd (kv_set_nx v k val s) = s" using assms(3)
    by (auto simp: kv_set_nx_def wg_insert_nx_def valid_pair_iff wg_drop_def wg_begin_def fresh_def Let_def split: sum.splits)
  with assms(1) show ?thesis by (simp add: extends_refl)
next
  case True
  then have "snd (kv_set_nx v k val s) = wg_drop (wg_put k (entry_new v val) (wg_log (append_set k val) (wg_begin s)))"
    using assms(2) by (simp add: kv_set_nx_def wg_insert_nx_def valid_pair_iff wg_enforce_unlimited unlimited_def Let_def)
  with put_logged [of B off T recs "wg_begin s"] assms(1) True show ?thesis by (auto intro: extendsI)
qed

lemma validate_pairs_iff: "validate_pairs ps = Ok () \<longleftrightarrow> list_all (\<lambda>(k, val). valid_pair k val = Ok ()) ps"
  by (induction ps rule: validate_pairs.induct) (auto simp: valid_pair_iff split: sum.splits)

lemma put_pairs_mirrors:
  "mirrors off lo (e_store (g_engine g)) m \<Longrightarrow>
   mirrors off lo (e_store (g_engine (put_pairs v ps g))) (log_steps (map (\<lambda>(k, val). LSet k val) ps) m)
   \<and> e_aof (g_engine (put_pairs v ps g)) = e_aof (g_engine g)"
proof (induction ps arbitrary: g m)
  case (Cons p ps)
  obtain k val where p: "p = (k, val)" by (cases p)
  have "mirrors off lo (e_store (g_engine (wg_put k (entry_new v val) g))) (m(k \<mapsto> (val, None)))"
    using Cons.prems by (simp add: mirrors_update)
  from Cons.IH [OF this] show ?case
    by (simp only: p put_pairs.simps list.map prod.case log_steps_simps log_step.simps aof_of_put)
qed simp

lemma append_set_many_records:
  "ps \<noteq> [] \<Longrightarrow> append_set_many ps w = write_bytes (recs_bytes (map (\<lambda>(k, val). LSet k val) ps)) w"
  by (simp add: append_set_many_def recs_bytes_def log_bytes_def comp_def case_prod_unfold)

lemma append_set_many_Nil: "append_set_many [] w = (Ok (), w)"
  by (simp add: append_set_many_def)

lemma mset_Nil_logged:
  assumes "logged B off T recs s"
  shows "logged B off T recs (g_engine (wg_log (append_set_many []) (wg_begin s)))"
  using assms by (cases "e_aof s") (simp_all add: logged_def says_def wg_log_engine e_aof_note append_set_many_Nil)

lemma mset_logged:
  assumes "logged B off T recs s" "unlimited s"
  shows "extends B off T recs (snd (kv_mset v ps s))"
proof (cases "validate_pairs ps = Ok ()")
  case False
  then have "snd (kv_mset v ps s) = s"
    by (auto simp: kv_mset_def wg_insert_many_def wg_drop_def wg_begin_def split: sum.splits)
  with assms(1) show ?thesis by (simp add: extends_refl)
next
  case True
  let ?rs = "map (\<lambda>(k, val). LSet k val) ps" and ?g = "wg_log (append_set_many ps) (wg_begin s)"
  have run: "snd (kv_mset v ps s) = wg_drop (put_pairs v ps ?g)"
    using assms(2) True by (simp add: kv_mset_def wg_insert_many_def enforce_pairs_unlimited)
  have put: "mirrors off (T + 2) (e_store (g_engine (put_pairs v ps ?g))) (log_steps ?rs (log_steps recs (snd B)))"
    "e_aof (g_engine (put_pairs v ps ?g)) = e_aof (g_engine ?g)"
    using put_pairs_mirrors [of off "T + 2" ?g "log_steps recs (snd B)" v ps] assms(1) by (simp_all add: logged_def)
  have ok: "list_all (rec_ok T) ?rs" using True by (auto simp: validate_pairs_iff list_all_iff)
  show ?thesis
  proof (cases "ps = []")
    case True
    with mset_Nil_logged [OF assms(1)] show ?thesis
      unfolding run extends_def by (intro exI [of _ "[]"] logged_drop) simp
  next
    case False
    have "logged B off T (recs @ ?rs) (g_engine (put_pairs v ps ?g))"
      by (rule logged_write [OF _ append_set_many_records [OF False] ok put(2,1)]) (use assms(1) in simp)
    then show ?thesis unfolding run by (rule extendsI)
  qed
qed


text \<open>A deadline that survives an in-place update is logged again, in milliseconds of the wall clock.\<close>

lemma div_million:
  fixes a b :: int
  shows "(a div 1000000 + b div 1000000) * 1000000 \<le> a + b" "a + b < (a div 1000000 + b div 1000000 + 2) * 1000000"
    "a div 1000000 \<le> c \<Longrightarrow> a < (c + 1) * 1000000"
  using div_mult_mod_eq [of a 1000000] div_mult_mod_eq [of b 1000000] pos_mod_bound [of 1000000 a]
    pos_mod_bound [of 1000000 b] pos_mod_sign [of 1000000 a] pos_mod_sign [of 1000000 b]
  by (simp_all add: algebra_simps)

lemma near_epoch:
  assumes "near off (T + 2) dl ms" "clock_ok off T v"
  obtains ms' where "deadline_to_epoch_ms dl (now v) (now_ms v) = Some ms'" "near off (T + 2) dl ms'" "in_i64 ms'" "T < ms'"
proof -
  let ?a = "int (now v) + off" and ?M = "1000000 :: int"
  have a: "now_ms v = ?a div ?M" "0 \<le> now_ms v" "now_ms v \<le> T" using assms(2) by (simp_all add: clock_ok_def)
  have d: "(T + 2) * ?M \<le> int dl + off" "int dl + off < (i64_max + 1) * ?M" using assms(1) by (simp_all add: near_def)
  have "?a < (T + 1) * ?M" using a div_million(3) [of ?a T] by simp
  with d(1) have late: "now v < dl" by (simp add: algebra_simps)
  define b where "b = int dl - int (now v)"
  define ms' where "ms' = ?a div ?M + b div ?M"
  have ab: "int dl + off = ?a + b" by (simp add: b_def)
  have near': "ms' * ?M \<le> int dl + off" "int dl + off < (ms' + 2) * ?M" unfolding ab ms'_def by (rule div_million)+
  have up: "ms' \<le> i64_max" "T < ms'" using near' d by (simp_all add: algebra_simps)
  have "saturate_i64 (now_ms v + int ((dl - now v) div 1000000)) = ms'"
    using late up a by (simp add: saturate_i64_def ms'_def b_def of_nat_diff zdiv_int)
  then have "deadline_to_epoch_ms dl (now v) (now_ms v) = Some ms'" using late by (simp add: deadline_to_epoch_ms_def)
  moreover have "near off (T + 2) dl ms'" using near' d by (simp add: near_def)
  moreover have "in_i64 ms'" using up a by (simp add: in_i64_def)
  ultimately show thesis using that up by blast
qed

lemma entry_new_with_simps [simp]: "data (entry_new_with v val ttl) = val" "expire_at (entry_new_with v val ttl) = ttl"
  by (simp_all add: entry_new_with_def)

lemma keep_ttl_logged:
  assumes lg: "logged B off T recs s" and ok: "valid_pair k val = Ok ()" and un: "unlimited s" and cl: "clock_ok off T v"
    and ttl: "ttl = Option.bind (map_of (e_store s) k) expire_at"
  shows "\<exists>r g. wg_insert_keep_ttl v k val ttl (wg_begin s) = (Ok r, g) \<and> extends B off T recs (wg_drop g)"
proof (cases ttl)
  case None
  then have "snd (wg_insert_keep_ttl v k val ttl (wg_begin s)) =
      wg_put k (entry_new_with v val None) (wg_log (append_set k val) (wg_begin s))"
    using un by (simp add: wg_insert_keep_ttl_def wg_enforce_unlimited unlimited_def Let_def)
  moreover have "logged B off T (recs @ [LSet k val]) (g_engine (wg_put k (entry_new_with v val None) (wg_log (append_set k val) (wg_begin s))))"
    by (rule logged_write [OF _ writers(1)]) (use lg ok in \<open>auto simp: logged_def intro!: mirrors_update\<close>)
  moreover have "\<exists>r g. wg_insert_keep_ttl v k val ttl (wg_begin s) = (Ok r, g)"
    using un None by (simp add: wg_insert_keep_ttl_def wg_enforce_unlimited unlimited_def Let_def)
  ultimately show ?thesis by (metis extendsI snd_conv)
next
  case (Some dl)
  then obtain e where e: "map_of (e_store s) k = Some e" "expire_at e = Some dl"
    using ttl by (auto simp: bind_eq_Some_conv)
  obtain a where "rel_option (near off (T + 2)) (expire_at e) a"
    using lg e(1) mirrors_Some unfolding logged_def by metis
  with e(2) obtain ms where "near off (T + 2) dl ms" by (auto simp: option_rel_Some1)
  from near_epoch [OF this cl] obtain ms' where
    ms: "deadline_to_epoch_ms dl (now v) (now_ms v) = Some ms'" "near off (T + 2) dl ms'" "in_i64 ms'" "T < ms'" .
  let ?g1 = "wg_log (append_set k val) (wg_begin s)"
  let ?g2 = "wg_log (append_pexpireat k ms') ?g1"
  have run: "\<exists>r. wg_insert_keep_ttl v k val ttl (wg_begin s) = (Ok r, wg_put k (entry_new_with v val ttl) ?g2)"
    using un Some ms(1) by (simp add: wg_insert_keep_ttl_def wg_enforce_unlimited unlimited_def Let_def)
  have vk: "validate_key k = Ok ()" using ok by (simp add: valid_pair_iff)
  have says: "says B (g_engine ?g2) ((recs @ [LSet k val]) @ [LExpire k ms'])"
    using lg by (intro says_log writers) (simp add: logged_def)
  have "logged B off T (recs @ [LSet k val, LExpire k ms']) (g_engine (wg_put k (entry_new_with v val ttl) ?g2))"
    using lg says ok vk ms Some mirrors_update [of off "T + 2" "e_store s" "log_steps recs (snd B)" "entry_new_with v val ttl" val "Some ms'" k]
    by (simp add: logged_def)
  with run show ?thesis by (metis extendsI)
qed

lemma read_state_fresh:
  assumes "fresh v s"
  shows "wg_read_state v k (wg_begin s) = (map_option (\<lambda>e. (data e, expire_at e)) (map_of (e_store s) k), wg_begin s)"
  using assms by (auto simp: wg_read_state_def fresh_def split: option.splits)

lemma incr_by_logged:
  assumes "logged B off T recs s" "unlimited s" "clock_ok off T v" "fresh v s"
  shows "extends B off T recs (snd (kv_incr_by v k d s))"
proof -
  let ?st = "map_of (e_store s) k"
  let ?cur = "case ?st of None \<Rightarrow> Some 0 | Some e \<Rightarrow> parse_i64 (data e)"
  have ttl: "(case ?st of None \<Rightarrow> None | Some e \<Rightarrow> expire_at e) = Option.bind ?st expire_at" by (cases ?st) simp_all
  show ?thesis
  proof (cases "validate_key k = Ok () \<and> (\<exists>n. ?cur = Some n \<and> in_i64 (n + d))")
    case False
    then have "snd (kv_incr_by v k d s) = s"
      using read_state_fresh [OF assms(4)]
      by (cases ?st) (auto simp: kv_incr_by_def wg_drop_def wg_begin_def checked_i64_def split: sum.splits option.splits)
    with assms(1) show ?thesis by (simp add: extends_refl)
  next
    case True
    then obtain n where n: "?cur = Some n" "in_i64 (n + d)" by blast
    have "valid_pair k (show_int (n + d)) = Ok ()"
      using True length_show_int [OF n(2)] by (simp add: valid_pair_iff validate_value_def VALUE_MAX_BYTES_def)
    from keep_ttl_logged [OF assms(1) this assms(2,3) refl] obtain r g where
      "wg_insert_keep_ttl v k (show_int (n + d)) (Option.bind ?st expire_at) (wg_begin s) = (Ok r, g)" "extends B off T recs (wg_drop g)"
      by blast
    then show ?thesis
      using True n read_state_fresh [OF assms(4)] ttl
      by (cases ?st) (simp_all add: kv_incr_by_def checked_i64_def)
  qed
qed

lemma append_logged:
  assumes "logged B off T recs s" "unlimited s" "clock_ok off T v" "fresh v s"
  shows "extends B off T recs (snd (kv_append v k x s))"
proof -
  let ?st = "map_of (e_store s) k"
  define y where "y = (case ?st of None \<Rightarrow> x | Some e \<Rightarrow> data e @ x)"
  show ?thesis
  proof (cases "valid_pair k y = Ok ()")
    case False
    then have "snd (kv_append v k x s) = s"
      using read_state_fresh [OF assms(4)] unfolding valid_pair_iff y_def
      by (cases ?st) (auto simp: kv_append_def wg_drop_def wg_begin_def split: sum.splits)
    with assms(1) show ?thesis by (simp add: extends_refl)
  next
    case True
    from keep_ttl_logged [OF assms(1) this assms(2,3) refl] obtain r g where
      "wg_insert_keep_ttl v k y (Option.bind ?st expire_at) (wg_begin s) = (Ok r, g)" "extends B off T recs (wg_drop g)"
      by blast
    then show ?thesis
      using True read_state_fresh [OF assms(4)] unfolding valid_pair_iff y_def
      by (cases ?st) (simp_all add: kv_append_def)
  qed
qed

text \<open>Reads leave a fresh store alone but for the access statistics.\<close>

lemma logged_reads [simp]:
  "logged B off T recs (record_hit s) = logged B off T recs s" "logged B off T recs (record_miss s) = logged B off T recs s"
  "logged B off T recs (touch_access v k s) = logged B off T recs s"
  by (simp_all add: logged_def)

lemma fresh_reads [simp]:
  "fresh v (record_hit s) = fresh v s" "fresh v (record_miss s) = fresh v s"
  by (simp_all add: fresh_def)

lemma fresh_not_stale: "fresh v s \<Longrightarrow> peek v k s \<noteq> Stale"
  by (auto simp: peek_def fresh_def split: option.splits)

lemma logged_fresh: "logged B off T recs s \<Longrightarrow> clock_ok off T v \<Longrightarrow> fresh v s"
  unfolding logged_def using mirrors_fresh [of off "T + 2" s _ T v] by auto

lemma mget_scan_logged:
  assumes "clock_ok off T v" "logged B off T recs s"
  shows "logged B off T recs (snd (mget_scan v ks s)) \<and> snd (fst (mget_scan v ks s)) = []"
  using assms(2)
proof (induction ks arbitrary: s)
  case (Cons k ks)
  have "fresh v s" using Cons.prems assms(1) by (rule logged_fresh)
  then show ?case
    using Cons.IH [of "record_hit (touch_access v k s)"] Cons.IH [of "record_miss s"] Cons.prems fresh_not_stale [of v s k]
    by (cases "peek v k s") (auto simp: case_prod_unfold Let_def)
qed simp

lemma exists_scan_logged:
  "logged B off T recs s \<Longrightarrow> fresh v s \<Longrightarrow>
   logged B off T recs (snd (exists_scan v ks s)) \<and> snd (fst (exists_scan v ks s)) = []"
proof (induction ks arbitrary: s)
  case (Cons k ks)
  then show ?case
    using Cons.IH [of "record_hit s"] Cons.IH [of "record_miss s"] fresh_not_stale [of v s k]
    by (cases "peek v k s") (auto simp: case_prod_unfold Let_def)
qed simp

lemma reads_logged:
  assumes "logged B off T recs s" "clock_ok off T v" "fresh v s"
  shows "logged B off T recs (snd (kv_get v v2 k s))" "logged B off T recs (snd (kv_mget v v2 ks s))"
    "logged B off T recs (snd (kv_exists v v2 k s))" "logged B off T recs (snd (kv_exists_many v v2 ks s))"
    "logged B off T recs (snd (kv_strlen v v2 k s))" "logged B off T recs (snd (kv_ttl_ms v v2 k s))"
    "logged B off T recs (snd (kv_memory_usage v v2 k s))"
  using assms fresh_not_stale [OF assms(3), of k] mget_scan_logged [OF assms(2,1), of ks]
    exists_scan_logged [OF assms(1,3), of ks]
  by (cases "peek v k s"; simp add: kv_get_def kv_mget_def kv_exists_def kv_exists_many_def kv_strlen_def kv_ttl_ms_def
      kv_memory_usage_def case_prod_unfold Let_def)+

lemma sweep_logged:
  assumes "logged B off T recs s" "fresh v s" "well_keyed (e_store s)"
  shows "logged B off T recs (snd (kv_sweep_expired v n s))"
proof -
  have "filter (\<lambda>(k, e). is_expired e (now v)) (sweep_window n s) = []"
  proof (rule filter_False, rule ballI)
    fix p assume "p \<in> set (sweep_window n s)"
    moreover obtain k e where "p = (k, e)" by (cases p)
    ultimately show "\<not> (case p of (k, e) \<Rightarrow> is_expired e (now v))"
      using sweep_window_sub [of n s] assms(2,3) by (auto simp: fresh_def)
  qed
  then show ?thesis using assms(1)
    by (auto simp: kv_sweep_expired_def Let_def intro!: logged_quiet [OF assms(1)]) (simp_all add: logged_def)
qed

text \<open>Removals: a key that is not stored needs no record, and the map the log means does not hold it either.\<close>

lemma mirrors_delete_absent:
  "mirrors off lo st m \<Longrightarrow> map_of st k = None \<Longrightarrow> mirrors off lo (AList.delete k st) m"
  using mirrors_delete [of off lo st m k] mirrors_None [of off lo st m k] by (simp add: fun_upd_idem)

lemma remove_logged:
  assumes "logged B off T recs (g_engine g)" "map_of (e_store (g_engine g)) k \<noteq> None"
  shows "logged B off T (recs @ [LDel k]) (g_engine (wg_log (append_del k) (wg_do (\<lambda>s. snd (track_remove k s)) g)))"
proof -
  have "says B (g_engine (wg_do (\<lambda>s. snd (track_remove k s)) g)) recs" using assms(1) by (simp add: logged_def)
  from says_log [OF this writers(2)] show ?thesis
    using assms logged_valid [OF assms] mirrors_delete [of off "T + 2" "e_store (g_engine g)" _ k] by (simp add: logged_def)
qed

lemma del_logged:
  assumes "logged B off T recs s" "fresh v s"
  shows "extends B off T recs (snd (kv_del v k s))"
proof (cases "map_of (e_store s) k")
  case None
  then have "logged B off T recs (g_engine (wg_do (\<lambda>s. snd (track_remove k s)) (wg_begin s)))"
    using assms(1) by (intro logged_quiet [OF assms(1)]) (simp_all add: logged_def mirrors_delete_absent)
  then have "extends B off T recs (wg_drop (wg_do (\<lambda>s. snd (track_remove k s)) (wg_begin s)))"
    by (intro extends_refl logged_drop)
  with None show ?thesis by (simp add: kv_del_def wg_remove_def Let_def)
next
  case (Some e)
  with assms(2) have "\<not> is_expired e (now v)" by (auto simp: fresh_def)
  with Some remove_logged [of B off T recs "wg_begin s" k] assms(1) show ?thesis
    by (simp add: kv_del_def wg_remove_def extendsI Let_def del: wg_simps(2))
qed

lemma remove_keys_logged:
  assumes "fresh v (g_engine g)" "mirrors off lo (e_store (g_engine g)) m"
  shows "e_aof (g_engine (snd (remove_keys v ks g))) = e_aof (g_engine g)
     \<and> mirrors off lo (e_store (g_engine (snd (remove_keys v ks g)))) (log_steps (map LDel (fst (remove_keys v ks g))) m)
     \<and> (\<forall>k\<in>set (fst (remove_keys v ks g)). map_of (e_store (g_engine g)) k \<noteq> None)"
  using assms
proof (induction ks arbitrary: g m)
  case (Cons k ks)
  let ?g = "wg_do (\<lambda>s. snd (track_remove k s)) g" and ?m = "if wg_lookup k g = None then m else m(k := None)"
  have a: "fresh v (g_engine ?g)" using Cons.prems(1) by (auto simp: fresh_def split: if_splits)
  have b: "mirrors off lo (e_store (g_engine ?g)) ?m"
    using Cons.prems(2) mirrors_delete mirrors_delete_absent by auto
  note IH = Cons.IH [OF a b]
  have "(case wg_lookup k g of Some e \<Rightarrow> \<not> is_expired e (now v) | None \<Rightarrow> False) \<longleftrightarrow> wg_lookup k g \<noteq> None"
    using Cons.prems(1) by (auto simp: fresh_def split: option.splits)
  with IH show ?case
    by (cases "remove_keys v ks ?g") (auto simp: Let_def split: if_splits)
qed simp

lemma log_dels_says:
  "says B (g_engine g) recs \<Longrightarrow> says B (g_engine (log_dels ks g)) (recs @ map LDel ks)"
proof (induction ks arbitrary: g recs)
  case (Cons k ks)
  from Cons.IH [OF says_log [OF Cons.prems writers(2)]] show ?case by simp
qed simp

lemma del_many_logged:
  assumes "logged B off T recs s" "fresh v s"
  shows "extends B off T recs (snd (kv_del_many v ks s))"
proof (cases "ks = []")
  case True
  with assms(1) show ?thesis by (simp add: kv_del_many_def extends_refl)
next
  case False
  obtain rm g where rm: "remove_keys v ks (wg_begin s) = (rm, g)" by (cases "remove_keys v ks (wg_begin s)")
  have g: "e_aof (g_engine g) = e_aof s" "mirrors off (T + 2) (e_store (g_engine g)) (log_steps (map LDel rm) (log_steps recs (snd B)))"
    "\<forall>k\<in>set rm. map_of (e_store s) k \<noteq> None"
    using remove_keys_logged [of v "wg_begin s" off "T + 2" "log_steps recs (snd B)" ks] assms rm by (simp_all add: logged_def)
  have "says B (g_engine (log_dels rm g)) (recs @ map LDel rm)"
    using assms(1) g(1) by (intro log_dels_says) (simp add: logged_def says_def)
  moreover have "list_all (rec_ok T) (map LDel rm)" using g(3) logged_valid [OF assms(1)] by (auto simp: list_all_iff)
  ultimately have "logged B off T (recs @ map LDel rm) (g_engine (log_dels rm g))"
    using assms(1) g(2) by (simp add: logged_def)
  with False rm show ?thesis by (simp add: kv_del_many_def wg_remove_many_def extendsI)
qed

lemma flushdb_logged:
  assumes "logged B off T recs s"
  shows "extends B off T recs (kv_flushdb s)"
proof -
  have "says B (g_engine (wg_do track_clear (wg_begin s))) recs" using assms by (simp add: logged_def)
  from says_log [OF this writers(3)] have "logged B off T (recs @ [LFlush]) (g_engine (wg_clear (wg_begin s)))"
    using assms by (simp add: logged_def wg_clear_def track_clear_def)
  then show ?thesis unfolding kv_flushdb_def by (rule extendsI)
qed

text \<open>Deadlines: the command keeps the milliseconds it was given, which must not pass before the replay.\<close>

lemma near_deadline:
  assumes "clock_ok off T v" "now_ms v \<le> ms" "lo \<le> ms" "in_i64 ms"
  shows "near off lo (now v + nat (ms - now_ms v) * 1000000) ms"
proof -
  let ?a = "int (now v) + off"
  define c where "c = ?a mod 1000000"
  have "int (now v + nat (ms - now_ms v) * 1000000) + off = ms * 1000000 + c" unfolding c_def
    using assms(1,2) div_mult_mod_eq [of ?a 1000000] by (simp add: clock_ok_def algebra_simps)
  moreover have "0 \<le> c" "c < 1000000" by (simp_all add: c_def)
  ultimately show ?thesis unfolding near_def using assms(3,4) by (auto simp: in_i64_def)
qed

lemma mirrors_retime:
  assumes "mirrors off lo st m" "map_of st k = Some e" "rel_option (near off lo) ttl a"
  obtains a' where "m k = Some (data e, a')" "rel_option (near off lo) (expire_at e) a'"
    "mirrors off lo (AList.update k (e\<lparr>expire_at := ttl\<rparr>) st) (m(k \<mapsto> (data e, a)))"
  using mirrors_Some [OF assms(1,2)] mirrors_update [OF assms(1), of "e\<lparr>expire_at := ttl\<rparr>" "data e" a k] assms(3)
  by (metis (no_types, lifting) value_entry.select_convs(1,2) value_entry.surjective value_entry.update_convs(2))

lemma expire_at_logged:
  assumes lg: "logged B off T recs s" and fr: "fresh v s" and cl: "clock_ok off T v"
    and ms: "ms \<le> now_ms v \<or> T + 1 < ms" "in_i64 ms"
  shows "extends B off T recs (snd (kv_expire_at_ms v k ms s))"
proof (cases "map_of (e_store s) k")
  case None
  then have "snd (kv_expire_at_ms v k ms s) = s"
    by (simp add: kv_expire_at_ms_def wg_expire_at_def wg_drop_def wg_begin_def)
  with lg show ?thesis by (simp add: extends_refl)
next
  case (Some e)
  with fr have live: "\<not> is_expired e (now v)" by (auto simp: fresh_def)
  show ?thesis
  proof (cases "ms \<le> now_ms v")
    case True
    with Some live remove_logged [of B off T recs "wg_begin s" k] lg show ?thesis
      by (simp add: kv_expire_at_ms_def wg_expire_at_def extendsI Let_def del: wg_simps(2))
  next
    case False
    let ?dl = "now v + nat (ms - now_ms v) * 1000000"
    have "near off (T + 2) ?dl ms" using False ms by (intro near_deadline [OF cl]) auto
    then obtain a' where m: "log_steps recs (snd B) k = Some (data e, a')"
      "mirrors off (T + 2) (AList.update k (e\<lparr>expire_at := Some ?dl\<rparr>) (e_store s)) ((log_steps recs (snd B))(k \<mapsto> (data e, Some ms)))"
      using mirrors_retime [OF _ Some, of off "T + 2" _ "Some ?dl" "Some ms"] lg unfolding logged_def
      by (metis option.rel_inject(2))
    let ?g = "wg_do (\<lambda>s. ac_notify_insert k True (sieve_notify_insert k True s))
      (wg_do (\<lambda>s. s\<lparr>e_store := AList.update k (e\<lparr>expire_at := Some ?dl\<rparr>) (e_store s)\<rparr>) (wg_begin s))"
    have "says B (g_engine ?g) recs" using lg by (simp add: logged_def)
    from says_log [OF this writers(5)]
    have "logged B off T (recs @ [LExpire k ms]) (g_engine (wg_log (append_pexpireat k ms) ?g))"
      using lg m ms False logged_valid [OF lg, of k] Some cl by (auto simp: logged_def clock_ok_def)
    with Some live False show ?thesis
      by (simp add: kv_expire_at_ms_def wg_expire_at_def extendsI Let_def del: wg_simps(2))
  qed
qed

lemma persist_logged:
  assumes lg: "logged B off T recs s" and fr: "fresh v s"
  shows "extends B off T recs (snd (kv_persist v k s))"
proof (cases "\<exists>e. map_of (e_store s) k = Some e \<and> expire_at e \<noteq> None")
  case False
  then have "snd (kv_persist v k s) = s" using fr
    by (auto simp: kv_persist_def wg_persist_def wg_drop_def wg_begin_def fresh_def split: option.splits)
  with lg show ?thesis by (simp add: extends_refl)
next
  case True
  then obtain e where e: "map_of (e_store s) k = Some e" "expire_at e \<noteq> None" by blast
  with fr have live: "\<not> is_expired e (now v)" by (auto simp: fresh_def)
  obtain a' where m: "log_steps recs (snd B) k = Some (data e, a')"
    "mirrors off (T + 2) (AList.update k (e\<lparr>expire_at := None\<rparr>) (e_store s)) ((log_steps recs (snd B))(k \<mapsto> (data e, None)))"
    using mirrors_retime [OF _ e(1), of off "T + 2" _ None None] lg unfolding logged_def
    by (metis option.rel_inject(1))
  let ?g = "wg_do (\<lambda>s. ac_notify_remove k (sieve_notify_remove k s))
      (wg_do (\<lambda>s. s\<lparr>e_store := AList.update k (e\<lparr>expire_at := None\<rparr>) (e_store s)\<rparr>) (wg_begin s))"
  have "says B (g_engine ?g) recs" using lg by (simp add: logged_def)
  from says_log [OF this writers(4)]
  have "logged B off T (recs @ [LPersist k]) (g_engine (wg_log (append_persist k) ?g))"
    using lg m logged_valid [OF lg, of k] e by (auto simp: logged_def)
  with e live show ?thesis
    by (auto simp: kv_persist_def wg_persist_def extendsI Let_def del: wg_simps(2))
qed

text \<open>The deadlines a client sets have either passed already or lie after the replay.\<close>

fun op_kept :: "int \<Rightarrow> env \<Rightarrow> engine_op \<Rightarrow> bool" where
  "op_kept T v (OExpireAt k ms) \<longleftrightarrow> in_i64 ms \<and> (ms \<le> now_ms v \<or> T + 1 < ms)"
| "op_kept T v _ \<longleftrightarrow> True"

lemma run_op_logged:
  assumes "logged B off T recs s" "unlimited s" "well_keyed (e_store s)" "clock_ok off T v" "op_kept T v op"
  shows "extends B off T recs (snd (run_op v v2 op s))"
proof -
  note fr = logged_fresh [OF assms(1,4)]
  note reads = reads_logged [OF assms(1,4) fr, THEN extends_refl]
  show ?thesis
    using assms fr
    by (cases op) (simp_all add: reads set_logged set_nx_logged mset_logged incr_by_logged append_logged del_logged
      del_many_logged flushdb_logged expire_at_logged persist_logged extends_refl sweep_logged)
qed

lemma run_trace_logged:
  assumes "logged B off T recs s" "good (False, cfg) s" "max_memory cfg = 0" "trace_ok t tr s"
    and "\<forall>(v, v2, op)\<in>set tr. clock_ok off T v \<and> op_kept T v op"
  shows "extends B off T recs (snd (run_trace tr s))"
  using assms
proof (induction tr arbitrary: t s recs)
  case Nil
  then show ?case by (simp add: extends_refl)
next
  case (Cons x tr)
  obtain v v2 op where x: "x = (v, v2, op)" by (cases x)
  obtain r s1 where r: "run_op v v2 op s = (r, s1)" by (metis prod.exhaust)
  have g: "good (False, cfg) s1" using run_op_good [OF Cons.prems(2), of op v v2] Cons.prems(4) x r by simp
  have "extends B off T recs (snd (run_op v v2 op s))"
    using Cons.prems x good_wk [OF Cons.prems(2)] by (intro run_op_logged) (auto simp: unlimited_def good_def)
  then obtain rs where "logged B off T (recs @ rs) s1" using r by (auto simp: extends_def)
  from Cons.IH [OF this g Cons.prems(3), of "now v"] have "extends B off T (recs @ rs) (snd (run_trace tr s1))"
    using Cons.prems x r by auto
  then show ?case using x r by (auto simp: extends_def case_prod_unfold Let_def)
qed

lemma run_trace_good:
  assumes "good (False, cfg) s" "trace_ok t tr s"
  shows "good (False, cfg) (snd (run_trace tr s))"
  using assms
proof (induction tr arbitrary: t s)
  case (Cons x tr)
  obtain v v2 op where x: "x = (v, v2, op)" by (cases x)
  have "good (False, cfg) (snd (run_op v v2 op s))" using Cons.prems x by (intro run_op_good) auto
  from Cons.IH [OF this, of "now v"] Cons.prems x show ?case by (simp add: case_prod_unfold Let_def)
qed simp

section \<open>Replaying the log\<close>

lemma record_names [simp]:
  "upper_bytes ''SET'' = ''SET''" "upper_bytes ''DEL'' = ''DEL''" "upper_bytes ''FLUSHDB'' = ''FLUSHDB''"
  "upper_bytes ''PEXPIREAT'' = ''PEXPIREAT''" "upper_bytes ''PERSIST'' = ''PERSIST''"
  by (simp_all add: upper_bytes_def ascii_upper_def)

text \<open>The replayed commands on a store that means \<open>m\<close>.\<close>

lemma set_store:
  "unlimited s \<Longrightarrow> valid_pair k val = Ok () \<Longrightarrow>
   \<exists>r s'. kv_set v k val s = (Ok r, s') \<and> e_store s' = AList.update k (entry_new v val) (e_store s)
     \<and> e_eviction s' = e_eviction s"
  by (simp add: kv_set_def wg_insert_def valid_pair_iff wg_enforce_unlimited unlimited_def Let_def)

lemma del_store: "e_store (snd (kv_del v k s)) = AList.delete k (e_store s)" "e_eviction (snd (kv_del v k s)) = e_eviction s"
  by (simp_all add: kv_del_def wg_remove_def Let_def)

lemma expire_at_mirrors:
  assumes "mirrors off (T + 1) (e_store s) m" "clock_ok off T v" "T < ms" "in_i64 ms"
  shows "mirrors off (T + 1) (e_store (snd (kv_expire_at_ms v k ms s))) (log_step (LExpire k ms) m)"
proof (cases "map_of (e_store s) k")
  case None
  then show ?thesis using assms(1) mirrors_None [OF assms(1), of k]
    by (simp add: kv_expire_at_ms_def wg_expire_at_def)
next
  case (Some e)
  have live: "\<not> is_expired e (now v)" using mirrors_fresh [OF assms(1,2)] Some by (auto simp: fresh_def)
  let ?dl = "now v + nat (ms - now_ms v) * 1000000"
  have "now_ms v < ms" using assms(2,3) by (simp add: clock_ok_def)
  then have "near off (T + 1) ?dl ms" using assms(3,4) by (intro near_deadline [OF assms(2)]) auto
  then obtain a' where "m k = Some (data e, a')"
    "mirrors off (T + 1) (AList.update k (e\<lparr>expire_at := Some ?dl\<rparr>) (e_store s)) (m(k \<mapsto> (data e, Some ms)))"
    using mirrors_retime [OF assms(1) Some, of "Some ?dl" "Some ms"] by (metis option.rel_inject(2))
  then show ?thesis using Some live \<open>now_ms v < ms\<close>
    by (simp add: kv_expire_at_ms_def wg_expire_at_def Let_def)
qed

lemma persist_mirrors:
  assumes "mirrors off (T + 1) (e_store s) m" "clock_ok off T v"
  shows "mirrors off (T + 1) (e_store (snd (kv_persist v k s))) (log_step (LPersist k) m)"
proof (cases "map_of (e_store s) k")
  case None
  then show ?thesis using assms(1) mirrors_None [OF assms(1), of k]
    by (simp add: kv_persist_def wg_persist_def)
next
  case (Some e)
  have live: "\<not> is_expired e (now v)" using mirrors_fresh [OF assms(1,2)] Some by (auto simp: fresh_def)
  obtain a' where m: "m k = Some (data e, a')" "rel_option (near off (T + 1)) (expire_at e) a'"
    "mirrors off (T + 1) (AList.update k (e\<lparr>expire_at := None\<rparr>) (e_store s)) (m(k \<mapsto> (data e, None)))"
    using mirrors_retime [OF assms(1) Some, of None None] by (metis option.rel_inject(1))
  show ?thesis
  proof (cases "expire_at e")
    case None
    with m(2) have "m(k \<mapsto> (data e, None)) = m" using m(1) by (simp add: fun_upd_idem)
    then show ?thesis using assms(1) Some live m None by (simp add: kv_persist_def wg_persist_def)
  next
    case (Some dl)
    then show ?thesis using \<open>map_of (e_store s) k = Some e\<close> live m by (simp add: kv_persist_def wg_persist_def Let_def)
  qed
qed

lemma retime_eviction [simp]:
  "e_eviction (snd (kv_expire_at_ms v k ms s)) = e_eviction s" "e_eviction (snd (kv_persist v k s)) = e_eviction s"
  "e_eviction (kv_flushdb s) = e_eviction s"
  by (auto simp: kv_expire_at_ms_def wg_expire_at_def kv_persist_def wg_persist_def kv_flushdb_def wg_clear_def Let_def
      split: option.splits)

lemma apply_rec_mirrors:
  assumes "mirrors off (T + 1) (e_store s) m" "clock_ok off T v" "rec_ok T r" "unlimited s"
  shows "\<exists>s'. apply_record v (rec_parts r) s = (Inr (), s') \<and> mirrors off (T + 1) (e_store s') (log_step r m) \<and> unlimited s'"
proof (cases r)
  case (LSet k val)
  then obtain x s' where s': "kv_set v k val s = (Ok x, s')" "e_store s' = AList.update k (entry_new v val) (e_store s)"
    "e_eviction s' = e_eviction s" using set_store [OF assms(4), of k val v] assms(3) by auto
  then show ?thesis using LSet assms(1,4) by (simp add: apply_record_def Let_def mirrors_update unlimited_def)
next
  case (LDel k)
  then show ?thesis using assms(1,4)
    by (simp add: apply_record_def Let_def del_store mirrors_delete unlimited_def)
next
  case LFlush
  then show ?thesis using assms(4)
    by (simp add: apply_record_def Let_def unlimited_def) (simp add: kv_flushdb_def wg_clear_def track_clear_def)
next
  case (LExpire k ms)
  then show ?thesis using expire_at_mirrors [OF assms(1,2), of ms k] assms(3,4)
    by (simp add: apply_record_def Let_def unlimited_def del: log_step.simps)
next
  case (LPersist k)
  then show ?thesis using persist_mirrors [OF assms(1,2), of k] assms(4)
    by (simp add: apply_record_def Let_def unlimited_def del: log_step.simps)
qed

lemma apply_recs_mirrors:
  assumes "mirrors off (T + 1) (e_store s) m" "\<And>n. clock_ok off T (vs n)" "list_all (rec_ok T) recs" "unlimited s"
  shows "\<exists>stats' s'. apply_records vs (map rec_parts recs) stats s = (Inr stats', s') \<and> skipped stats' = skipped stats
     \<and> applied stats' = applied stats + length recs \<and> mirrors off (T + 1) (e_store s') (log_steps recs m)"
  using assms(1,3,4)
proof (induction recs arbitrary: s m stats)
  case (Cons r recs)
  then obtain s1 where s1: "apply_record (vs (applied stats + skipped stats)) (rec_parts r) s = (Inr (), s1)"
    "mirrors off (T + 1) (e_store s1) (log_step r m)" "unlimited s1"
    using apply_rec_mirrors [OF Cons.prems(1) assms(2), of r "applied stats + skipped stats"] by auto
  from Cons.IH [OF s1(2) _ s1(3), of "stats\<lparr>applied := applied stats + 1\<rparr>"] Cons.prems(2) s1(1) show ?case by simp
qed simp

lemma replay_complete_log:
  assumes "\<forall>rec\<in>set recs. record_ok rec" "apply_records vs recs replay_stats_default s = (Inr stats, s')"
  shows "replay vs (Some (log_bytes recs)) s = (Ok stats, Some (log_bytes recs), s')"
proof -
  have "\<not> truncated_tail stats"
    using apply_records_truncated [OF assms(2)] by (simp add: replay_stats_default_def)
  moreover have "replay_loop vs (length (log_bytes recs)) (log_bytes recs) 0 replay_stats_default s
      = replay_loop vs (length (log_bytes recs)) [] (length (log_bytes recs)) stats s'"
    using replay_loop_records [OF assms(1), of vs "length (log_bytes recs)" "[]" 0 replay_stats_default s] assms(2)
    by (cases recs) (simp_all add: log_bytes_def)
  ultimately show ?thesis by (simp add: replay_def replay_loop_Nil)
qed

section \<open>Restart\<close>

text \<open>Two stores that agree on keys and values, and on deadlines up to two milliseconds of the wall clock.\<close>

definition same_keyspace :: "int \<Rightarrow> store \<Rightarrow> int \<Rightarrow> store \<Rightarrow> bool" where
  "same_keyspace off st off' st' \<longleftrightarrow> (\<forall>k. rel_option (\<lambda>e e'. data e = data e' \<and>
     rel_option (\<lambda>d d'. \<bar>(int d + off) - (int d' + off')\<bar> < 2000000) (expire_at e) (expire_at e')) (map_of st k) (map_of st' k))"

lemma same_keyspace_data:
  "same_keyspace off st off' st' \<Longrightarrow> map_option data (map_of st' k) = map_option data (map_of st k)"
proof -
  assume "same_keyspace off st off' st'"
  then have "rel_option (\<lambda>e e'. data e = data e' \<and>
     rel_option (\<lambda>d d'. \<bar>(int d + off) - (int d' + off')\<bar> < 2000000) (expire_at e) (expire_at e')) (map_of st k) (map_of st' k)"
    by (simp add: same_keyspace_def)
  then show ?thesis by (cases "map_of st k"; cases "map_of st' k") simp_all
qed

lemma near_both:
  "near off lo d ms \<Longrightarrow> near off' lo' d' ms \<Longrightarrow> \<bar>(int d + off) - (int d' + off')\<bar> < 2000000"
  unfolding near_def by (simp add: algebra_simps abs_less_iff)

lemma mirrors_both:
  assumes "mirrors off lo st m" "mirrors off' lo' st' m"
  shows "same_keyspace off st off' st'"
  unfolding same_keyspace_def
proof
  fix k
  show "rel_option (\<lambda>e e'. data e = data e' \<and>
     rel_option (\<lambda>d d'. \<bar>(int d + off) - (int d' + off')\<bar> < 2000000) (expire_at e) (expire_at e')) (map_of st k) (map_of st' k)"
  proof (cases "map_of st k")
    case None
    then show ?thesis using mirrors_None [OF assms(1), of k] mirrors_None [OF assms(2), of k] by simp
  next
    case (Some e)
    then obtain a where a: "m k = Some (data e, a)" "rel_option (near off lo) (expire_at e) a" using mirrors_Some [OF assms(1)] by metis
    then obtain e' where e': "map_of st' k = Some e'" using mirrors_None [OF assms(2), of k] by (cases "map_of st' k") auto
    then obtain a' where "m k = Some (data e', a')" "rel_option (near off' lo') (expire_at e') a'" using mirrors_Some [OF assms(2)] by metis
    with a Some e' show ?thesis by (cases a) (auto simp: option_rel_Some2 near_both)
  qed
qed

lemma logged_replay:
  assumes "logged ([], Map.empty) off T recs s" "\<And>n. clock_ok off' T (vs n)" "e_store s1 = []" "unlimited s1"
  obtains w stats s' where "e_aof s = Some w" "replay vs (Some (aof_log w)) s1 = (Ok stats, Some (aof_log w), s')"
    "skipped stats = 0" "\<not> truncated_tail stats" "same_keyspace off (e_store s) off' (e_store s')"
proof -
  obtain w where w: "e_aof s = Some w" "aof_log w = log_bytes (map rec_parts recs)"
    using assms(1) by (auto simp: logged_def says_def recs_bytes_def split: if_splits elim!: jr.elims)
  obtain stats s' where a: "apply_records vs (map rec_parts recs) replay_stats_default s1 = (Inr stats, s')"
    "skipped stats = 0" "mirrors off' (T + 1) (e_store s') (log_steps recs Map.empty)"
    using apply_recs_mirrors [of off' T s1 Map.empty vs recs replay_stats_default] assms
    by (auto simp: logged_def replay_stats_default_def)
  have "\<forall>rec\<in>set (map rec_parts recs). record_ok rec"
    using assms(1) rec_ok_record by (auto simp: logged_def list_all_iff)
  from replay_complete_log [OF this a(1)] apply_records_truncated [OF a(1)] w a(2)
    mirrors_both [OF _ a(3), of off "T + 2" "e_store s"] assms(1) that show thesis
    by (auto simp: logged_def replay_stats_default_def)
qed


end
