(* ===== verification/Rewrite.thy ===== *)
theory Rewrite
  imports Recovery
begin

text \<open>
  The rewrite of the append-only file against the commands that run meanwhile: the worker's snapshot, taken some
  time after the request, followed by every append since the request, means the store at the moment of the swap
  (\<open>rewrite_logged\<close>), although appends made before the snapshot are in it twice.
\<close>

section \<open>Rewriting the log\<close>

text \<open>The records of a snapshot, and the map they mean.\<close>

definition snap_rec :: "env \<Rightarrow> bytes \<times> value_entry \<Rightarrow> lrec list" where
  "snap_rec v = (\<lambda>(k, e). LSet k (data e) #
     (case Option.bind (expire_at e) (\<lambda>d. deadline_to_epoch_ms d (now v) (now_ms v)) of
        None \<Rightarrow> [] | Some ms \<Rightarrow> [LExpire k ms]))"

definition snap_recs :: "env \<Rightarrow> store \<Rightarrow> lrec list" where
  "snap_recs v st = concat (map (snap_rec v) st)"

lemma recs_bytes_concat: "recs_bytes (concat rss) = concat (map recs_bytes rss)"
  by (induction rss) simp_all

lemma serialise_snap_rec:
  "serialise_entry (k, data e, case expire_at e of None \<Rightarrow> None | Some d \<Rightarrow> deadline_to_epoch_ms d (now v) (now_ms v))
     = recs_bytes (snap_rec v (k, e))"
  by (auto simp: serialise_entry_def snap_rec_def recs_bytes_def log_bytes_def split: option.splits)

lemma serialise_snapshot:
  assumes "\<forall>(k, e)\<in>set st. \<not> is_expired e (now v)"
  shows "serialise_compact_aof (rewrite_snapshot v st) = recs_bytes (snap_recs v st)"
proof -
  have "filter (\<lambda>(k, e). \<not> is_expired e (now v)) st = st" using assms by (auto intro: filter_True)
  moreover have "(\<lambda>p. serialise_entry (case p of (k, e) \<Rightarrow> (k, data e,
      case expire_at e of None \<Rightarrow> None | Some d \<Rightarrow> deadline_to_epoch_ms d (now v) (now_ms v)))) = (\<lambda>p. recs_bytes (snap_rec v p))"
    using serialise_snap_rec by (auto simp: fun_eq_iff)
  ultimately show ?thesis
    by (simp add: serialise_compact_aof_def rewrite_snapshot_def snap_recs_def recs_bytes_concat comp_def)
qed

lemma snap_recs_map:
  "distinct (map fst st) \<Longrightarrow> log_steps (snap_recs v st) m k =
     (case map_of st k of None \<Rightarrow> m k
      | Some e \<Rightarrow> Some (data e, Option.bind (expire_at e) (\<lambda>d. deadline_to_epoch_ms d (now v) (now_ms v))))"
proof (induction st arbitrary: m)
  case (Cons p st)
  obtain k' e where p: "p = (k', e)" by (cases p)
  let ?a = "Option.bind (expire_at e) (\<lambda>d. deadline_to_epoch_ms d (now v) (now_ms v))"
  define m' where "m' = m(k' \<mapsto> (data e, ?a))"
  have "log_steps (snap_rec v p) m = m'" by (cases ?a) (simp_all add: snap_rec_def p m'_def)
  then have "log_steps (snap_recs v (p # st)) m = log_steps (snap_recs v st) m'" by (simp add: snap_recs_def)
  moreover have "map_of st k' = None" using Cons.prems p by (simp add: map_of_eq_None_iff)
  moreover have "m' k' = Some (data e, ?a)" "k \<noteq> k' \<Longrightarrow> m' k = m k" by (simp_all add: m'_def)
  ultimately show ?case using Cons.IH [of m'] Cons.prems p by (cases "k = k'"; cases "map_of st k") simp_all
qed (simp add: snap_recs_def)

lemma snap_mirrors:
  assumes "logged B off T recs s" "clock_ok off T v" "well_keyed (e_store s)"
  shows "mirrors off (T + 2) (e_store s) (log_steps (snap_recs v (e_store s)) Map.empty)"
    "list_all (rec_ok T) (snap_recs v (e_store s))"
proof -
  let ?ep = "\<lambda>e. Option.bind (expire_at e) (\<lambda>d. deadline_to_epoch_ms d (now v) (now_ms v))"
  have ent: "rel_option (near off (T + 2)) (expire_at e) (?ep e) \<and> list_all (rec_ok T) (snap_rec v (k, e))"
    if e: "map_of (e_store s) k = Some e" for k e
  proof -
    have ok: "valid_pair k (data e) = Ok ()" using logged_valid_pair [OF assms(1) e] .
    obtain a where a: "rel_option (near off (T + 2)) (expire_at e) a"
      using assms(1) e mirrors_Some unfolding logged_def by metis
    show ?thesis
    proof (cases "expire_at e")
      case None
      then show ?thesis using ok by (simp add: snap_rec_def)
    next
      case (Some dl)
      with a obtain ms where "near off (T + 2) dl ms" by (auto simp: option_rel_Some1)
      from near_epoch [OF this assms(2)] obtain ms' where
        "deadline_to_epoch_ms dl (now v) (now_ms v) = Some ms'" "near off (T + 2) dl ms'" "in_i64 ms'" "T < ms'" .
      then show ?thesis using Some ok by (simp add: snap_rec_def valid_pair_iff)
    qed
  qed
  have dist: "distinct (map fst (e_store s))" using assms(3) by simp
  have "log_steps (snap_recs v (e_store s)) Map.empty k = map_option (\<lambda>e. (data e, ?ep e)) (map_of (e_store s) k)" for k
    using snap_recs_map [OF dist, of v Map.empty k] by (simp split: option.splits)
  then show "mirrors off (T + 2) (e_store s) (log_steps (snap_recs v (e_store s)) Map.empty)"
    using ent by (auto simp: mirrors_def option.rel_map intro!: option.rel_refl_strong)
  show "list_all (rec_ok T) (snap_recs v (e_store s))"
    using ent assms(3) by (auto simp: snap_recs_def list_all_iff)
qed

text \<open>On each key a sequence of records either fixes the outcome, or does nothing, or only sets the deadline.\<close>

lemma log_steps_cases:
  obtains (fixed) c where "\<And>m. log_steps rs m k = c"
  | (same) "\<And>m. log_steps rs m k = m k"
  | (timed) t where "\<And>m. log_steps rs m k = map_option (\<lambda>(d, _). (d, t)) (m k)"
proof -
  have "(\<exists>c. \<forall>m. log_steps rs m k = c) \<or> (\<forall>m. log_steps rs m k = m k)
      \<or> (\<exists>t. \<forall>m. log_steps rs m k = map_option (\<lambda>(d, _). (d, t)) (m k))"
  proof (induction rs rule: rev_induct)
    case (snoc r rs)
    have step: "(\<exists>c. \<forall>m. log_step r m k = c) \<or> (\<forall>m. log_step r m k = m k)
      \<or> (\<exists>t. \<forall>m. log_step r m k = map_option (\<lambda>(d, _). (d, t)) (m k))"
    proof (cases r)
      case (LExpire k' ms)
      have "log_step r m k = (if k' = k then map_option (\<lambda>(d, _). (d, Some ms)) (m k) else m k)" for m
        using LExpire by (auto split: option.splits)
      then show ?thesis by (cases "k' = k") auto
    next
      case (LPersist k')
      have "log_step r m k = (if k' = k then map_option (\<lambda>(d, _). (d, None)) (m k) else m k)" for m
        using LPersist by (auto split: option.splits)
      then show ?thesis by (cases "k' = k") auto
    next
      case (LSet k' val)
      then show ?thesis by (cases "k' = k") auto
    next
      case (LDel k')
      then show ?thesis by (cases "k' = k") auto
    qed auto
    from step snoc show ?case
      by (elim disjE exE) (simp_all add: option.map_comp comp_def case_prod_unfold, blast+)
  qed simp
  then show thesis using fixed same timed by blast
qed

lemma mirrors_again:
  assumes "mirrors off lo st (log_steps rs m0)" "mirrors off lo st m"
  shows "mirrors off lo st (log_steps rs m)"
  unfolding mirrors_def
proof
  fix k
  let ?R = "\<lambda>e (d, a). data e = d \<and> rel_option (near off lo) (expire_at e) a"
  have a: "rel_option ?R (map_of st k) (log_steps rs m0 k)" "rel_option ?R (map_of st k) (m k)"
    using assms by (simp_all add: mirrors_def)
  show "rel_option ?R (map_of st k) (log_steps rs m k)"
  proof (cases rule: log_steps_cases [of rs k])
    case (timed t)
    then show ?thesis using a by (cases "map_of st k"; cases "m k"; cases "m0 k") auto
  qed (use a in simp_all)
qed

lemma finish_rewrite_io:
  assumes "w_io w = []" "w_rewriting w"
  shows "w_io (snd (finish_rewrite snap w)) = []" "aof_log (snd (finish_rewrite snap w)) = snap @ w_delta w"
  using assms
  by (simp_all add: finish_rewrite_def finish_rename_def finish_swap_def next_io_def bw_write_all_def bw_flush_def
      sync_data_def to_file_def aof_log_def Let_def)

lemma good_aof [simp]: "good c (s\<lparr>e_aof := a\<rparr>) = good c s"
  by (simp add: good_def engine_inv_def memory_ok_def index_ok_def auth_ok_def index_covers_def)

lemma logged_begin:
  assumes "logged B off T recs s" "e_aof s = Some w"
  shows "logged B off T recs (s\<lparr>e_aof := Some (snd (try_begin_rewrite w))\<rparr>)"
  using assms by (auto simp: logged_def says_def try_begin_rewrite_def aof_log_def split: if_splits)

text \<open>The log when the worker swaps it in: the snapshot, then the appends made since the rewrite was requested,
  some of which the snapshot already contains. It means the store at that moment.\<close>

lemma rewrite_logged:
  assumes lg: "logged ([], Map.empty) off T recs s" and wr: "e_aof s = Some w" "aof_wf w" "\<not> w_rewriting w" "w_path w = None"
    and gd: "good (False, cfg) s" "max_memory cfg = 0"
    and tr1: "trace_ok t1 tr1 (s\<lparr>e_aof := Some (snd (try_begin_rewrite w))\<rparr>)"
      "\<forall>(v, v2, op)\<in>set tr1. clock_ok off T v \<and> op_kept T v op"
    and s1: "s1 = snd (run_trace tr1 (s\<lparr>e_aof := Some (snd (try_begin_rewrite w))\<rparr>))" and cl: "clock_ok off T v"
    and tr2: "trace_ok t2 tr2 s1" "\<forall>(v, v2, op)\<in>set tr2. clock_ok off T v \<and> op_kept T v op"
    and s2: "s2 = snd (run_trace tr2 s1)" "e_aof s2 = Some w2"
  shows "\<exists>recs'. logged ([], Map.empty) off T recs' (s2\<lparr>e_aof := Some (perform_aof_rewrite v True (e_store s1) w2)\<rparr>)"
proof -
  let ?s0 = "s\<lparr>e_aof := Some (snd (try_begin_rewrite w))\<rparr>"
  have g0: "good (False, cfg) ?s0" using gd by simp
  obtain d1 where l1: "logged ([], Map.empty) off T (recs @ d1) s1"
    using run_trace_logged [OF logged_begin [OF lg wr(1)] g0 gd(2) tr1] s1 by (auto simp: extends_def)
  have g1: "good (False, cfg) s1" unfolding s1 using g0 tr1(1) run_trace_good by blast
  have m0: "mirrored (recs_bytes recs) (snd (try_begin_rewrite w))"
    using lg wr by (auto simp: logged_def says_def mirrored_def try_begin_rewrite_def aof_wf_def aof_log_def split: if_splits)
  then have "pred_option (mirrored (recs_bytes recs)) (e_aof s2)"
    unfolding s2(1) s1 by (intro mir.run_trace_ok) simp
  then have m2: "w_io w2 = []" "w_rewriting w2 \<Longrightarrow> aof_log w2 = recs_bytes recs @ w_delta w2" using s2 by (simp_all add: mirrored_def)
  show ?thesis
  proof (cases "w_rewriting w2")
    case False
    have "extends ([], Map.empty) off T (recs @ d1) s2" unfolding s2(1) by (rule run_trace_logged [OF l1 g1 gd(2) tr2])
    moreover have "s2\<lparr>e_aof := Some w2\<rparr> = s2" using s2(2) by simp
    ultimately show ?thesis using False by (auto simp: perform_aof_rewrite_def extends_def)
  next
    case rw: True
    let ?snap = "snap_recs v (e_store s1)" and ?m = "log_steps d1 (log_steps (snap_recs v (e_store s1)) Map.empty)"
    note snap = snap_mirrors [OF l1 cl good_wk [OF g1]]
    have d1: "list_all (rec_ok T) d1" using l1 by (simp add: logged_def)
    have mm: "mirrors off (T + 2) (e_store s1) ?m"
      using mirrors_again [OF _ snap(1), of d1 "log_steps recs Map.empty"] l1 by (simp add: logged_def)
    have vm: "valid_map ?m" using d1 snap(2) by (intro valid_map_steps) (simp_all add: valid_map_def)
    have "logged (recs_bytes (recs @ d1), ?m) off T [] s1" using l1 mm vm by (simp add: logged_def says_def)
    from run_trace_logged [OF this g1 gd(2) tr2] obtain rs where
      l2: "logged (recs_bytes (recs @ d1), ?m) off T rs s2" by (auto simp: extends_def s2(1))
    have "w_delta w2 = recs_bytes (d1 @ rs)"
      using l2 m2 rw s2(2) by (simp add: logged_def says_def)
    moreover have "serialise_compact_aof (rewrite_snapshot v (e_store s1)) = recs_bytes ?snap"
      using logged_fresh [OF l1 cl] good_wk [OF g1] by (intro serialise_snapshot) (auto simp: fresh_def)
    ultimately have "aof_log (perform_aof_rewrite v True (e_store s1) w2) = recs_bytes (?snap @ d1 @ rs)"
      "w_io (perform_aof_rewrite v True (e_store s1) w2) = []"
      using finish_rewrite_io [OF m2(1) rw] rw by (simp_all add: perform_aof_rewrite_def)
    then have "logged ([], Map.empty) off T (?snap @ d1 @ rs) (s2\<lparr>e_aof := Some (perform_aof_rewrite v True (e_store s1) w2)\<rparr>)"
      using l2 d1 snap(2) by (simp add: logged_def says_def valid_map_def)
    then show ?thesis ..
  qed
qed

text \<open>An engine that just opened an empty log.\<close>

lemma logged_start:
  "e_store s = [] \<Longrightarrow> e_aof s = Some (aof_fresh pol [] []) \<Longrightarrow> logged ([], Map.empty) off T [] s"
  by (simp add: logged_def says_def valid_map_def aof_fresh_def aof_log_def)

lemma logged_writer: "logged B off T recs s \<Longrightarrow> \<exists>w. e_aof s = Some w"
  by (auto simp: logged_def says_def elim!: jr.elims)

end
