(* ===== verification/Startup.thy ===== *)
theory Startup
  imports Rewrite Cli Conversation
begin

text \<open>
  Models \<^verbatim>\<open>build_engine\<close> and the engine set-up of \<^verbatim>\<open>main\<close> in \<^verbatim>\<open>src/src/main.rs\<close>: the replay of the append-only
  file into a new engine, the writer opened on the same file, then the memory limit and the password. Logging,
  sockets and threads are left out. \<open>generation\<close> follows a server without a memory limit through any number of
  runs, log rewrites and restarts.
\<close>

section \<open>Building the engine\<close>

datatype exit_code = ExitSuccess | ExitFailure | ExitUsage

text \<open>What the process finds: the clock readings of the constructor and of the replay, the file at the configured
  path, and the outcomes of the calls that open the writer.\<close>

record startup =
  su_rnd :: "rat \<Rightarrow> rat"
  su_nanos :: nat
  su_replay :: "nat \<Rightarrow> env"
  su_file :: "bytes option"
  su_io :: "io_outcome list"

definition build_engine :: "startup \<Rightarrow> cli_args \<Rightarrow> exit_code + engine" where
  "build_engine su args =
     (let engine = engine_new (su_rnd su) (su_nanos su) in
      case cli_aof_config args of
        None \<Rightarrow> Inr engine
      | Some (path, fsync) \<Rightarrow>
          (case replay (su_replay su) (su_file su) engine of
             (Inl e, f, s) \<Rightarrow> Inl ExitFailure
           | (Inr stats, f, s) \<Rightarrow>
               (case aof_open fsync (case f of None \<Rightarrow> [] | Some contents \<Rightarrow> contents) (su_io su) of
                  Inl e \<Rightarrow> Inl ExitFailure
                | Inr w \<Rightarrow> Inr (with_aof w s))))"

definition main_engine :: "startup \<Rightarrow> (bytes \<Rightarrow> bytes option) \<Rightarrow> bytes list \<Rightarrow> exit_code + engine" where
  "main_engine su read_file argv =
     (case cli_parse read_file argv of
        Inl msg \<Rightarrow> Inl ExitUsage
      | Inr Help \<Rightarrow> Inl ExitSuccess
      | Inr (Run args) \<Rightarrow>
          (case build_engine su args of
             Inl code \<Rightarrow> Inl code
           | Inr s \<Rightarrow>
               let s = set_eviction_config (cli_eviction_config args) s in
               Inr (case ca_requirepass args of None \<Rightarrow> s | Some pw \<Rightarrow> set_requirepass (Some pw) s)))"

section \<open>Replay keeps the engine consistent\<close>

fun rec_bytes :: "lrec \<Rightarrow> nat" where
  "rec_bytes (LSet k val) = length k + length val + PER_ENTRY_OVERHEAD"
| "rec_bytes _ = 0"

fun rec_op :: "lrec \<Rightarrow> engine_op" where
  "rec_op (LSet k val) = OSet k val"
| "rec_op (LDel k) = ODel k"
| "rec_op LFlush = OFlushdb"
| "rec_op (LExpire k ms) = OExpireAt k ms"
| "rec_op (LPersist k) = OPersist k"

lemma op_bytes_rec [simp]: "op_bytes (rec_op r) = rec_bytes r"
  by (cases r) simp_all

lemma apply_rec_op:
  assumes "rec_ok T r"
  shows "snd (apply_record v (rec_parts r) s) = snd (run_op v v2 (rec_op r) s)"
  using assms by (cases r) (auto simp: apply_record_def Let_def split: sum.splits prod.splits)

lemma total_rec:
  assumes "engine_inv s" "unlimited s"
  shows "total entry_bytes (e_store (snd (run_op v v2 (rec_op r) s))) \<le> total entry_bytes (e_store s) + rec_bytes r"
proof -
  note wk = engine_invD(4) [OF assms(1)]
  have same: "total entry_bytes (AList.update k (e\<lparr>expire_at := t\<rparr>) (e_store s)) = total entry_bytes (e_store s)"
    if "map_of (e_store s) k = Some e" for k e t
    by (rule total_same_cost [OF wk that]) (simp add: entry_bytes_def)
  show ?thesis
  proof (cases r)
    case (LSet k val)
    show ?thesis
    proof (cases "valid_pair k val = Ok ()")
      case True
      then have "e_store (snd (run_op v v2 (rec_op r) s)) = AList.update k (entry_new v val) (e_store s)"
        using LSet set_store [OF assms(2), of k val v] by auto
      with LSet show ?thesis using total_update_delete [OF wk, of entry_bytes k "entry_new v val"]
          total_delete_le [OF wk, of entry_bytes k] by (simp add: entry_bytes_def)
    next
      case False
      then have "snd (kv_set v k val s) = s"
        by (auto simp: kv_set_def wg_insert_def valid_pair_iff wg_drop_def wg_begin_def split: sum.splits)
      with LSet show ?thesis by simp
    qed
  next
    case (LDel k)
    then show ?thesis using total_delete_le [OF wk] by (simp add: del_store)
  next
    case LFlush
    then show ?thesis by (simp add: kv_flushdb_def wg_clear_def track_clear_def)
  next
    case (LExpire k ms)
    then show ?thesis using same total_delete_le [OF wk, of entry_bytes k]
      by (auto simp: kv_expire_at_ms_def wg_expire_at_def Let_def split: option.splits)
  next
    case (LPersist k)
    then show ?thesis using same total_delete_le [OF wk, of entry_bytes k]
      by (auto simp: kv_persist_def wg_persist_def Let_def split: option.splits)
  qed
qed

lemma apply_recs_good:
  assumes "good (False, cfg) s" "max_memory cfg = 0" "list_all (rec_ok T) recs"
    and "total entry_bytes (e_store s) + sum_list (map rec_bytes recs) \<le> u64_max"
    and "apply_records vs (map rec_parts recs) stats s = (Inr stats', s')"
  shows "good (False, cfg) s'"
  using assms
proof (induction recs arbitrary: s stats)
  case (Cons r recs)
  let ?v = "vs (applied stats + skipped stats)"
  obtain x s1 where a: "apply_record ?v (rec_parts r) s = (x, s1)" by (cases "apply_record ?v (rec_parts r) s")
  have un: "unlimited s" "engine_inv s" using Cons.prems(1,2) by (simp_all add: good_def unlimited_def)
  have ok: "rec_ok T r" using Cons.prems(3) by simp
  have s1: "s1 = snd (run_op ?v ?v (rec_op r) s)" using apply_rec_op [OF ok, of ?v s ?v] a by simp
  have g1: "good (False, cfg) s1" unfolding s1
    using Cons.prems(1,4) by (intro run_op_good) (simp_all add: headroom_def)
  have "total entry_bytes (e_store s1) + sum_list (map rec_bytes recs) \<le> u64_max"
    using total_rec [OF un(2,1), of ?v ?v r] Cons.prems(4) s1 by simp
  from Cons.IH [OF g1 Cons.prems(2) _ this] Cons.prems(3,5) a show ?case
    by (auto split: sum.splits apply_error.splits)
qed simp

text \<open>The same for a file of any content: a record grows the store by no more than its bytes account for.\<close>

lemma read_part_size: "read_part r c = (Inr p, r', c') \<Longrightarrow> length p + length r' \<le> length r"
  by (auto simp: read_part_def read_exact_tracked_def
      split: prod.splits sum.splits if_splits dest!: expect_byte_length read_integer_length)

lemma read_parts_size: "read_parts n r c = (Inr ps, r', c') \<Longrightarrow> sum_list (map length ps) + length r' \<le> length r"
proof (induction n arbitrary: r c ps r' c')
  case (Suc n)
  obtain x r1 c1 where p: "read_part r c = (x, r1, c1)" by (metis prod_cases3)
  with Suc.prems obtain p ps' where "x = Inr p" "read_parts n r1 c1 = (Inr ps', r', c')" "ps = p # ps'"
    by (auto split: sum.splits prod.splits)
  then show ?case using Suc.IH [of r1 c1 ps' r' c'] read_part_size [of r c p r1 c1] p by simp
qed simp

lemma read_record_size:
  "read_record r = (Inr (Some ps), r', c) \<Longrightarrow> sum_list (map length ps) + length r' < length r"
  by (auto simp: read_record_def split: list.splits if_splits prod.splits sum.splits
      dest!: read_integer_length read_parts_size)

lemma apply_record_cases:
  obtains "snd (apply_record v parts s) = s"
  | r where "snd (apply_record v parts s) = snd (run_op v v (rec_op r) s)"
      "rec_bytes r \<le> sum_list (map length parts) + PER_ENTRY_OVERHEAD"
proof (cases "snd (apply_record v parts s) = s")
  case False
  then obtain cmd args where p: "parts = cmd # args" by (cases parts) (auto simp: apply_record_def)
  have "\<exists>r. snd (apply_record v parts s) = snd (run_op v v (rec_op r) s) \<and> rec_bytes r \<le> sum_list (map length args) + PER_ENTRY_OVERHEAD"
  proof -
    consider (set) k val where "upper_bytes cmd = ''SET''" "args = [k, val]" | (del) k where "upper_bytes cmd = ''DEL''" "args = [k]"
      | (flush) "upper_bytes cmd = ''FLUSHDB''" | (expire) k ts ms where "upper_bytes cmd = ''PEXPIREAT''" "args = [k, ts]" "parse_i64 ts = Some ms"
      | (persist) k where "upper_bytes cmd = ''PERSIST''" "args = [k]"
      using False p by (auto simp: apply_record_def Let_def split: if_splits list.splits option.splits)
    then show ?thesis
    proof cases
      case set
      then show ?thesis using p by (intro exI [of _ "LSet k val"]) (auto simp: apply_record_def Let_def split: prod.splits sum.splits)
    next
      case del
      then show ?thesis using p by (intro exI [of _ "LDel k"]) (simp add: apply_record_def Let_def)
    next
      case flush
      then show ?thesis using p False by (intro exI [of _ LFlush]) (auto simp: apply_record_def Let_def split: if_splits)
    next
      case expire
      then show ?thesis using p by (intro exI [of _ "LExpire k ms"]) (simp add: apply_record_def Let_def)
    next
      case persist
      then show ?thesis using p by (intro exI [of _ "LPersist k"]) (simp add: apply_record_def Let_def)
    qed
  qed
  then show thesis using that(2) p by fastforce
qed (use that in blast)

lemma apply_record_good:
  assumes "good (False, cfg) s" "max_memory cfg = 0"
    and "total entry_bytes (e_store s) + sum_list (map length parts) + PER_ENTRY_OVERHEAD + n \<le> u64_max"
  shows "good (False, cfg) (snd (apply_record v parts s))
     \<and> total entry_bytes (e_store (snd (apply_record v parts s))) + n \<le> u64_max"
proof (cases rule: apply_record_cases [of v parts s])
  case 1
  then show ?thesis using assms by simp
next
  case (2 r)
  have un: "unlimited s" "engine_inv s" using assms(1,2) by (simp_all add: good_def unlimited_def)
  have "good (False, cfg) (snd (run_op v v (rec_op r) s))"
    using assms(1,3) 2(2) by (intro run_op_good) (simp_all add: headroom_def)
  then show ?thesis using total_rec [OF un(2,1), of v v r] 2 assms(3) by simp
qed

lemma apply_record_admin: "admin (snd (apply_record v parts s)) = admin s"
  by (cases rule: apply_record_cases [of v parts s]) (simp_all add: run_op_admin)

lemma replay_loop_admin: "admin (snd (replay_loop vs len r lg stats s)) = admin s"
proof (induction vs len r lg stats s rule: replay_loop.induct)
  case (1 vs len r lg stats s)
  have a: "apply_record v parts s = (x, s') \<Longrightarrow> admin s' = admin s" for v parts x s'
    using apply_record_admin [of v parts s] by simp
  show ?case unfolding replay_loop.simps [of vs len r lg stats s]
    using 1 a by (auto simp: Let_def split: prod.splits sum.splits option.splits read_error.splits apply_error.splits)
qed

lemma replay_loop_good:
  assumes "good (False, cfg) s" "max_memory cfg = 0" "total entry_bytes (e_store s) + 200 * length r \<le> u64_max"
  shows "good (False, cfg) (snd (replay_loop vs len r lg stats s))"
  using assms(1,3)
proof (induction "length r" arbitrary: r lg stats s rule: less_induct)
  case less
  note step = replay_loop.simps [of vs len r lg stats s]
  obtain x r1 c where rd: "read_record r = (x, r1, c)" by (metis prod_cases3)
  have IH: "good (False, cfg) (snd (replay_loop vs len r' lg' stats' s'))"
    if "length r' < length r" "good (False, cfg) s'" "total entry_bytes (e_store s') + 200 * length r' \<le> u64_max" for r' lg' stats' s'
    by (rule less.hyps [OF that])
  consider (nil) "r = []" | (applied) ps where "r \<noteq> []" "x = Inr (Some ps)" | (malformed) n where "r \<noteq> []" "x = Inl (Malformed n)"
    | (other) "r \<noteq> []" "x = Inr None \<or> (\<exists>n. x = Inl (UnexpectedEof n))"
    by (metis option.exhaust read_error.exhaust sum.exhaust)
  then show ?case
  proof cases
    case applied
    let ?a = "apply_record (vs (applied stats + skipped stats)) ps s"
    have sz: "sum_list (map length ps) + length r1 < length r" using read_record_size rd applied(2) by blast
    then have "total entry_bytes (e_store s) + sum_list (map length ps) + PER_ENTRY_OVERHEAD + 200 * length r1 \<le> u64_max"
      using less.prems(2) by (simp add: PER_ENTRY_OVERHEAD_def)
    from apply_record_good [OF less.prems(1) assms(2) this]
    have "good (False, cfg) (snd ?a)" "total entry_bytes (e_store (snd ?a)) + 200 * length r1 \<le> u64_max" by auto
    moreover obtain y s1 where "?a = (y, s1)" by (cases ?a)
    ultimately show ?thesis using step rd applied IH [of r1] sz
      by (auto split: sum.splits apply_error.splits)
  next
    case malformed
    obtain b r2 where rs: "resync_to_next_array r1 = (b, r2)" by (cases "resync_to_next_array r1")
    have "length r2 < length r" using read_record_shorter [OF rd malformed(1)] resync_shorter [OF rs] by simp
    then show ?thesis using step rd malformed rs IH [of r2 s] less.prems by (simp add: Let_def)
  qed (use step rd less.prems in auto)
qed

text \<open>The memory a log needs is bounded by its length.\<close>

lemma rec_bytes_log: "sum_list (map rec_bytes recs) \<le> 200 * length (recs_bytes recs)"
proof (induction recs)
  case (Cons r recs)
  have "rec_bytes r \<le> 200 * length (encode_command (rec_parts r))"
    by (cases r) (simp_all add: encode_command_def encode_part_def PER_ENTRY_OVERHEAD_def)
  then show ?case using Cons recs_bytes_simps(2) [of "[r]" recs] recs_bytes_simps(3) [of r] by simp
qed simp

section \<open>The engine the server starts with\<close>

lemma default_unlimited [simp]: "max_memory eviction_config_default = 0"
  by (simp add: eviction_config_default_def)

lemma engine_new_simps [simp]:
  "e_store (engine_new rnd ns) = []" "good (False, eviction_config_default) (engine_new rnd ns)" "unlimited (engine_new rnd ns)"
  "e_auth_password (engine_new rnd ns) = None"
  using reachable_inv [OF reach_new, of rnd ns]
  by (simp_all add: good_def unlimited_def) (simp_all add: engine_new_def)

lemma aof_open_io: "aof_open fsync contents [] = Ok (aof_fresh fsync contents [])"
  by (cases fsync) (simp_all add: aof_open_def next_io_def io_failed_def aof_fresh_def)

text \<open>Under the default configuration there is no index to keep, so nothing is missing from it.\<close>

lemma good_default_covers: "good (False, eviction_config_default) s \<Longrightarrow> index_covers s"
  by (auto simp: good_def engine_inv_def index_ok_def index_covers_def eviction_config_default_def is_sieve_def is_ac_def)

lemma build_engine_good:
  assumes "build_engine su args = Inr s" "\<And>f. su_file su = Some f \<Longrightarrow> 200 * length f \<le> u64_max"
  shows "good (False, eviction_config_default) s" "e_auth_password s = None" "(e_aof s = None) = (ca_aof_path args = None)"
proof -
  let ?e = "engine_new (su_rnd su) (su_nanos su)"
  obtain r f s1 where rp: "replay (su_replay su) (su_file su) ?e = (r, f, s1)" by (metis prod_cases3)
  have loop: "s1 = (case su_file su of None \<Rightarrow> ?e | Some f \<Rightarrow> snd (replay_loop (su_replay su) (length f) f 0 replay_stats_default ?e))"
    using rp by (auto simp: replay_def split: option.splits prod.splits sum.splits)
  have g: "good (False, eviction_config_default) s1"
    using loop replay_loop_good [OF engine_new_simps(2) default_unlimited] assms(2) by (simp split: option.splits)
  have p: "e_auth_password s1 = None"
    using loop replay_loop_admin [of "su_replay su" _ _ 0 replay_stats_default ?e] by (auto simp: admin_def split: option.splits)
  have "s = ?e \<and> ca_aof_path args = None \<or> (\<exists>w. s = with_aof w s1) \<and> ca_aof_path args \<noteq> None"
    using assms(1) rp by (auto simp: build_engine_def cli_aof_config_def Let_def split: option.splits sum.splits)
  then show "good (False, eviction_config_default) s" "e_auth_password s = None" "(e_aof s = None) = (ca_aof_path args = None)"
    using g p by (auto simp: with_aof_def) (simp_all add: engine_new_def)
qed

lemma set_requirepass_simps:
  "index_covers (set_requirepass pw s) = index_covers s" "e_eviction (set_requirepass pw s) = e_eviction s"
  "e_aof (set_requirepass pw s) = e_aof s" "e_auth_password (set_requirepass pw s) = (if pw = Some [] then None else pw)"
  by (auto simp: set_requirepass_def index_covers_def Let_def split: option.splits)

lemma main_engine_consistent:
  assumes "main_engine su rf argv = Inr s" "\<And>f. su_file su = Some f \<Longrightarrow> 200 * length f \<le> u64_max"
  obtains args where "cli_parse rf argv = Ok (Run args)" "engine_inv s" "index_covers s"
    "e_eviction s = cli_eviction_config args" "e_auth_password s = (if ca_requirepass args = Some [] then None else ca_requirepass args)"
    "(e_aof s = None) = (ca_aof_path args = None)"
proof -
  obtain args s0 where a: "cli_parse rf argv = Ok (Run args)" "build_engine su args = Inr s0"
    and s: "s = (case ca_requirepass args of None \<Rightarrow> set_eviction_config (cli_eviction_config args) s0
      | Some pw \<Rightarrow> set_requirepass (Some pw) (set_eviction_config (cli_eviction_config args) s0))"
    using assms(1) by (auto simp: main_engine_def Let_def split: sum.splits invocation.splits)
  note b = build_engine_good [OF a(2) assms(2)]
  let ?c = "set_eviction_config (cli_eviction_config args) s0"
  have inv: "engine_inv ?c" "index_covers ?c" using b(1) good_default_covers [OF b(1)] set_eviction_config_covers
    by (simp_all add: good_def)
  have frame: "e_eviction ?c = cli_eviction_config args" "e_auth_password ?c = e_auth_password s0" "e_aof ?c = e_aof s0"
    by (simp_all add: set_eviction_config_def Let_def)
  show thesis
    by (rule that [OF a(1)]) (use s inv frame b in \<open>auto simp: set_requirepass_simps split: option.splits\<close>)
qed

section \<open>A server through runs, rewrites and restarts\<close>

text \<open>
  \<open>generation T off s\<close>: the engine of a server without a memory limit, on a machine whose disk works, after any
  number of runs of commands, log rewrites under load and restarts from the log. \<open>off\<close> is the distance between the
  monotonic clock of the current process and the epoch, and \<open>T\<close> a time, in epoch milliseconds, that all clock
  readings stay below and all deadlines above; a restart costs it one millisecond, the precision of the log.
\<close>

abbreviation steady :: "int \<Rightarrow> int \<Rightarrow> trace \<Rightarrow> bool" where
  "steady off T tr \<equiv> \<forall>(v, v2, op)\<in>set tr. clock_ok off T v \<and> op_kept T v op"

inductive generation :: "int \<Rightarrow> int \<Rightarrow> engine \<Rightarrow> bool" where
  gen_new: "generation T off s"
    if "cli_aof_config args = Some (path, fsync)" "build_engine \<lparr>su_rnd = rnd, su_nanos = ns, su_replay = vs, su_file = None, su_io = []\<rparr> args = Inr s"
| gen_run: "generation T off (snd (run_trace tr s))"
    if "generation T off s" "trace_ok t tr s" "steady off T tr"
| gen_rewrite: "generation T off (s2\<lparr>e_aof := Some (perform_aof_rewrite v True (e_store s1) w2)\<rparr>)"
    if "generation T off s" "kv_rewrite_aof True s = (Ok (), sb)" "trace_ok t1 tr1 sb" "steady off T tr1"
      "s1 = snd (run_trace tr1 sb)" "clock_ok off T v" "trace_ok t2 tr2 s1" "steady off T tr2"
      "s2 = snd (run_trace tr2 s1)" "e_aof s2 = Some w2"
| gen_restart: "generation (T - 1) off' s'"
    if "generation T off s" "e_aof s = Some w" "\<forall>n. clock_ok off' T (vs n)" "200 * length (aof_log w) \<le> u64_max"
      "cli_aof_config args = Some (path, fsync)"
      "build_engine \<lparr>su_rnd = rnd, su_nanos = ns, su_replay = vs, su_file = Some (aof_log w), su_io = []\<rparr> args = Inr s'"

definition gen_inv :: "int \<Rightarrow> int \<Rightarrow> engine \<Rightarrow> bool" where
  "gen_inv T off s \<longleftrightarrow> (\<exists>recs. logged ([], Map.empty) off T recs s) \<and> good (False, eviction_config_default) s
     \<and> pred_option aof_wf (e_aof s) \<and> pred_option idle (e_aof s)"

lemma aof_fresh_inv [simp]: "aof_wf (aof_fresh fsync contents [])" "idle (aof_fresh fsync contents [])"
  by (simp_all add: aof_wf_def idle_def aof_fresh_def)

text \<open>The start: a log that means the store is replayed, and the writer continues it.\<close>

lemma rec_ok_mono: "rec_ok T r \<Longrightarrow> T' \<le> T \<Longrightarrow> rec_ok T' r"
  by (cases r) auto

lemma build_engine_log:
  assumes lg: "logged ([], Map.empty) off T recs s" and w: "e_aof s = Some w"
    and cl: "\<forall>n. clock_ok off' T (vs n)" and len: "200 * length (aof_log w) \<le> u64_max"
    and args: "cli_aof_config args = Some (path, fsync)"
  obtains s' where
    "build_engine \<lparr>su_rnd = rnd, su_nanos = ns, su_replay = vs, su_file = Some (aof_log w), su_io = []\<rparr> args = Inr s'"
    "same_keyspace off (e_store s) off' (e_store s')" "e_aof s' = Some (aof_fresh fsync (aof_log w) [])"
    "gen_inv (T - 1) off' s'"
proof -
  let ?e = "engine_new rnd ns"
  have log: "aof_log w = log_bytes (map rec_parts recs)" and ok: "list_all (rec_ok T) recs"
    using lg w by (auto simp: logged_def says_def recs_bytes_def split: if_splits)
  obtain stats s1 where a: "apply_records vs (map rec_parts recs) replay_stats_default ?e = (Inr stats, s1)"
    "mirrors off' (T + 1) (e_store s1) (log_steps recs Map.empty)"
    using apply_recs_mirrors [of off' T ?e Map.empty vs recs replay_stats_default] cl ok by auto
  have rok: "\<forall>rec\<in>set (map rec_parts recs). record_ok rec" using ok rec_ok_record by (auto simp: list_all_iff)
  let ?s' = "with_aof (aof_fresh fsync (aof_log w) []) s1"
  have "build_engine \<lparr>su_rnd = rnd, su_nanos = ns, su_replay = vs, su_file = Some (aof_log w), su_io = []\<rparr> args = Inr ?s'"
    using args replay_complete_log [OF rok a(1)] log by (simp add: build_engine_def aof_open_io)
  moreover have "same_keyspace off (e_store s) off' (e_store ?s')"
    using mirrors_both [OF _ a(2), of off "T + 2" "e_store s"] lg by (simp add: logged_def with_aof_def)
  moreover have "sum_list (map rec_bytes recs) \<le> u64_max"
    using rec_bytes_log [of recs] len log by (simp add: recs_bytes_def)
  then have "good (False, eviction_config_default) s1"
    using apply_recs_good [OF engine_new_simps(2) default_unlimited ok _ a(1)] by simp
  moreover have "logged ([], Map.empty) off' (T - 1) recs ?s'"
    using a(2) ok rec_ok_mono [of T _ "T - 1"] log
    by (auto simp: logged_def says_def with_aof_def aof_fresh_def aof_log_def recs_bytes_def valid_map_def list_all_iff add.commute)
  ultimately show thesis using that [of ?s'] by (auto simp: gen_inv_def with_aof_def)
qed

text \<open>The other steps.\<close>

lemma gen_inv_new:
  assumes "cli_aof_config args = Some (path, fsync)"
    and "build_engine \<lparr>su_rnd = rnd, su_nanos = ns, su_replay = vs, su_file = None, su_io = []\<rparr> args = Inr s"
  shows "gen_inv T off s"
proof -
  have s: "s = with_aof (aof_fresh fsync [] []) (engine_new rnd ns)"
    using assms by (simp add: build_engine_def replay_def aof_open_io)
  have "logged ([], Map.empty) off T [] s" unfolding s by (intro logged_start) (simp_all add: with_aof_def)
  then show ?thesis by (auto simp: gen_inv_def s with_aof_def)
qed

lemma gen_inv_run:
  assumes "gen_inv T off s" "trace_ok t tr s" "steady off T tr"
  shows "gen_inv T off (snd (run_trace tr s))"
proof -
  obtain recs where lg: "logged ([], Map.empty) off T recs s" and g: "good (False, eviction_config_default) s"
    using assms(1) by (auto simp: gen_inv_def)
  from run_trace_logged [OF lg g default_unlimited assms(2,3)]
  have "\<exists>recs. logged ([], Map.empty) off T recs (snd (run_trace tr s))" by (auto simp: extends_def)
  then show ?thesis
    using assms(1) run_trace_good [OF g assms(2)] wf.run_trace_ok idl.run_trace_ok by (simp add: gen_inv_def)
qed

lemma perform_rewrite_wf:
  assumes "aof_wf w" "w_path w = None" "w_io w = []"
  shows "aof_wf (perform_aof_rewrite v True st w)" "idle (perform_aof_rewrite v True st w)"
  using assms
  by (auto simp: perform_aof_rewrite_def finish_rewrite_def finish_rename_def finish_swap_def next_io_def bw_write_all_def
      bw_flush_def sync_data_def to_file_def aof_wf_def idle_def Let_def)

lemma gen_inv_rewrite:
  assumes inv: "gen_inv T off s" and rw: "kv_rewrite_aof True s = (Ok (), sb)"
    and tr1: "trace_ok t1 tr1 sb" "steady off T tr1" "s1 = snd (run_trace tr1 sb)" and v: "clock_ok off T v"
    and tr2: "trace_ok t2 tr2 s1" "steady off T tr2" "s2 = snd (run_trace tr2 s1)" "e_aof s2 = Some w2"
  shows "gen_inv T off (s2\<lparr>e_aof := Some (perform_aof_rewrite v True (e_store s1) w2)\<rparr>)"
proof -
  obtain recs where lg: "logged ([], Map.empty) off T recs s" and g: "good (False, eviction_config_default) s"
    using inv by (auto simp: gen_inv_def)
  from logged_writer [OF lg] obtain w where w: "e_aof s = Some w" ..
  have wf: "aof_wf w" "\<not> w_rewriting w" "w_path w = None" using inv w by (simp_all add: gen_inv_def idle_def)
  have sb: "sb = s\<lparr>e_aof := Some (snd (try_begin_rewrite w))\<rparr>"
    using rw w wf by (simp add: kv_rewrite_aof_def try_begin_rewrite_def)
  have gb: "good (False, eviction_config_default) sb" using g sb by simp
  have "good (False, eviction_config_default) s2"
    unfolding tr2(3) by (rule run_trace_good [OF _ tr2(1)]) (use run_trace_good [OF gb tr1(1)] tr1(3) in simp)
  moreover have "\<exists>recs'. logged ([], Map.empty) off T recs' (s2\<lparr>e_aof := Some (perform_aof_rewrite v True (e_store s1) w2)\<rparr>)"
    by (rule rewrite_logged [OF lg w wf g default_unlimited _ tr1(2) _ v tr2]) (use tr1 sb in simp_all)
  moreover have "aof_wf (snd (try_begin_rewrite w))" using wf by (simp add: aof_wf_def try_begin_rewrite_def)
  then have "pred_option aof_wf (e_aof s2)" unfolding tr2(3) tr1(3) sb by (intro wf.run_trace_ok) simp
  moreover have "mirrored (aof_log w) (snd (try_begin_rewrite w))"
    using lg w wf by (auto simp: mirrored_def logged_def says_def try_begin_rewrite_def aof_wf_def aof_log_def split: if_splits)
  then have "pred_option (mirrored (aof_log w)) (e_aof s2)" unfolding tr2(3) tr1(3) sb by (intro mir.run_trace_ok) simp
  ultimately show ?thesis using tr2(4) perform_rewrite_wf [of w2] by (simp add: gen_inv_def mirrored_def)
qed

lemma generation_inv: "generation T off s \<Longrightarrow> gen_inv T off s"
proof (induction rule: generation.induct)
  case (gen_new args path fsync rnd ns vs s T off)
  then show ?case by (rule gen_inv_new)
next
  case (gen_run T off s t tr)
  then show ?case by (intro gen_inv_run)
next
  case (gen_rewrite T off s sb t1 tr1 s1 v t2 tr2 s2 w2)
  from gen_rewrite.IH gen_rewrite.hyps(2-) show ?case by (rule gen_inv_rewrite)
next
  case (gen_restart T off s w off' vs args path fsync rnd ns s')
  obtain recs where "logged ([], Map.empty) off T recs s" using gen_restart.IH by (auto simp: gen_inv_def)
  from build_engine_log [OF this gen_restart.hyps(2-5), of rnd ns] gen_restart.hyps(6) show ?case by auto
qed

end
