(* ===== verification/Lifecycle.thy ===== *)
theory Lifecycle
  imports Startup Dashboard
begin

text \<open>
  Models the threads and loops around the engine and how they stop: \<^verbatim>\<open>src/src/network/shutdown.rs\<close>, the sweeper
  thread of \<^verbatim>\<open>src/src/storage/expire.rs\<close>, the background flusher of \<^verbatim>\<open>src/src/persistence/writer.rs\<close>, the
  accept loop of \<^verbatim>\<open>src/src/network/server.rs\<close>, \<^verbatim>\<open>serve\<close> of \<^verbatim>\<open>src/src/network/dashboard/mod.rs\<close> and the end of \<^verbatim>\<open>main\<close> in \<^verbatim>\<open>src/src/main.rs\<close>.

  \<^verbatim>\<open>tokio::sync::Notify\<close> is a parameter: its three operations are a record, and \<open>notify_laws\<close> states the part of
  its documentation the code relies on. Loops that wait for a flag are partial functions: a loop that never returns
  has the value \<^const>\<open>None\<close>.
\<close>

section \<open>Shutdown\<close>

record ('n, 'w) notify =
  n_new :: 'n
  n_notified :: "'n \<Rightarrow> 'w \<times> 'n"
  n_notify_waiters :: "'n \<Rightarrow> 'n"
  n_ready :: "'w \<Rightarrow> 'n \<Rightarrow> bool"

inductive n_later :: "('n, 'w) notify \<Rightarrow> 'n \<Rightarrow> 'n \<Rightarrow> bool" for N where
  later_refl: "n_later N n n"
| later_arm: "n_later N n n' \<Longrightarrow> n_notified N n' = (w, n'') \<Longrightarrow> n_later N n n''"
| later_wake: "n_later N n n' \<Longrightarrow> n_later N n (n_notify_waiters N n')"

inductive n_quiet :: "('n, 'w) notify \<Rightarrow> 'n \<Rightarrow> bool" for N where
  quiet_new: "n_quiet N (n_new N)"
| quiet_arm: "n_quiet N n \<Longrightarrow> n_notified N n = (w, n') \<Longrightarrow> n_quiet N n'"

text \<open>A future gets the wake-up of \<^verbatim>\<open>notify_waiters\<close> from the moment it is created, it stays ready, and none is
  ready before the first \<^verbatim>\<open>notify_waiters\<close>.\<close>

definition notify_laws :: "('n, 'w) notify \<Rightarrow> bool" where
  "notify_laws N \<longleftrightarrow>
     (\<forall>n w n1 n2. n_notified N n = (w, n1) \<longrightarrow> n_later N n1 n2 \<longrightarrow> n_ready N w (n_notify_waiters N n2))
     \<and> (\<forall>w n n1. n_ready N w n \<longrightarrow> n_later N n n1 \<longrightarrow> n_ready N w n1)
     \<and> (\<forall>w n. n_quiet N n \<longrightarrow> \<not> n_ready N w n)"

text \<open>Where a task stands in \<^verbatim>\<open>Shutdown::notified\<close>, and a thread in \<^verbatim>\<open>Shutdown::trigger\<close>.\<close>

datatype 'w waiter = Probing | Arming | Rechecking 'w | Parked 'w | Released

datatype trigger = Untriggered | Stored | Notified

record ('n, 'w) shutdown =
  sd_flag :: bool
  sd_notify :: 'n
  sd_waiters :: "'w waiter list"
  sd_triggers :: "trigger list"

definition shutdown_new :: "('n, 'w) notify \<Rightarrow> nat \<Rightarrow> nat \<Rightarrow> ('n, 'w) shutdown" where
  "shutdown_new N waiters triggers = \<lparr>sd_flag = False, sd_notify = n_new N,
     sd_waiters = replicate waiters Probing, sd_triggers = replicate triggers Untriggered\<rparr>"

fun waiter_next :: "('n, 'w) notify \<Rightarrow> bool \<Rightarrow> 'n \<Rightarrow> 'w waiter \<Rightarrow> 'w waiter \<times> 'n" where
  "waiter_next N flag n Probing = (if flag then Released else Arming, n)"
| "waiter_next N flag n Arming = (let (w, n) = n_notified N n in (Rechecking w, n))"
| "waiter_next N flag n (Rechecking w) = (if flag then Released else Parked w, n)"
| "waiter_next N flag n (Parked w) = (if n_ready N w n then Released else Parked w, n)"
| "waiter_next N flag n Released = (Released, n)"

text \<open>Waiters and triggers interleave. \<^verbatim>\<open>select!\<close> drops the future when another branch is ready, and the loop around
  it starts a new one.\<close>

inductive sd_step :: "('n, 'w) notify \<Rightarrow> ('n, 'w) shutdown \<Rightarrow> ('n, 'w) shutdown \<Rightarrow> bool" for N where
  poll: "sd_step N s (s\<lparr>sd_notify := n, sd_waiters := (sd_waiters s)[i := t]\<rparr>)"
    if "i < length (sd_waiters s)" "waiter_next N (sd_flag s) (sd_notify s) (sd_waiters s ! i) = (t, n)"
| drop: "sd_step N s (s\<lparr>sd_waiters := (sd_waiters s)[i := Probing]\<rparr>)"
    if "i < length (sd_waiters s)" "sd_waiters s ! i \<noteq> Released"
| store: "sd_step N s (s\<lparr>sd_flag := True, sd_triggers := (sd_triggers s)[j := Stored]\<rparr>)"
    if "j < length (sd_triggers s)" "sd_triggers s ! j = Untriggered"
| wake: "sd_step N s (s\<lparr>sd_notify := n_notify_waiters N (sd_notify s), sd_triggers := (sd_triggers s)[j := Notified]\<rparr>)"
    if "j < length (sd_triggers s)" "sd_triggers s ! j = Stored"

inductive sd_reachable :: "('n, 'w) notify \<Rightarrow> nat \<Rightarrow> nat \<Rightarrow> ('n, 'w) shutdown \<Rightarrow> bool" for N k l where
  sd_start: "sd_reachable N k l (shutdown_new N k l)"
| sd_more: "sd_reachable N k l s \<Longrightarrow> sd_step N s s' \<Longrightarrow> sd_reachable N k l s'"

inductive_cases sd_stepE: "sd_step N s s'"

text \<open>What holds of a waiter: its future was created in the past; once a trigger has notified, a parked one is ready.\<close>

fun armed :: "'w waiter \<Rightarrow> 'w option" where
  "armed (Rechecking w) = Some w" | "armed (Parked w) = Some w" | "armed _ = None"

definition waiter_ok :: "('n, 'w) notify \<Rightarrow> ('n, 'w) shutdown \<Rightarrow> 'w waiter \<Rightarrow> bool" where
  "waiter_ok N s t \<longleftrightarrow>
     (\<forall>w. armed t = Some w \<longrightarrow> (\<exists>n n1. n_notified N n = (w, n1) \<and> n_later N n1 (sd_notify s)))
     \<and> (\<forall>w. t = Parked w \<longrightarrow> Notified \<in> set (sd_triggers s) \<longrightarrow> n_ready N w (sd_notify s))
     \<and> (t = Released \<longrightarrow> sd_flag s)"

definition sd_inv :: "('n, 'w) notify \<Rightarrow> ('n, 'w) shutdown \<Rightarrow> bool" where
  "sd_inv N s \<longleftrightarrow> (\<forall>t\<in>set (sd_waiters s). waiter_ok N s t)
     \<and> (\<not> sd_flag s \<longrightarrow> n_quiet N (sd_notify s))
     \<and> (\<forall>t\<in>set (sd_triggers s). t \<noteq> Untriggered \<longrightarrow> sd_flag s)"

lemma waiter_ok_unarmed [simp]: "waiter_ok N s Probing" "waiter_ok N s Arming"
  by (simp_all add: waiter_ok_def)

lemma waiter_ok_frame:
  assumes "notify_laws N" "waiter_ok N s t" "n_later N (sd_notify s) (sd_notify s')" "sd_flag s \<longrightarrow> sd_flag s'"
    and "Notified \<in> set (sd_triggers s') \<longrightarrow> Notified \<in> set (sd_triggers s)"
  shows "waiter_ok N s' t"
proof -
  have trans: "n_later N n (sd_notify s')" if "n_later N n (sd_notify s)" for n
    using assms(3) that by (induction rule: n_later.induct) (auto intro: n_later.intros)
  have "n_ready N w n1" if "n_ready N w n" "n_later N n n1" for w n n1
    using assms(1) that unfolding notify_laws_def by blast
  then show ?thesis using assms(2-5) trans unfolding waiter_ok_def by blast
qed

lemma waiter_next_ok:
  assumes "notify_laws N" "sd_inv N s" "t \<in> set (sd_waiters s)" "waiter_next N (sd_flag s) (sd_notify s) t = (t', n)"
  shows "waiter_ok N (s\<lparr>sd_notify := n, sd_waiters := ws\<rparr>) t' \<and> n_later N (sd_notify s) n
    \<and> (\<not> sd_flag s \<longrightarrow> n_quiet N n)"
proof -
  have ok: "waiter_ok N s t" and quiet: "\<not> sd_flag s \<longrightarrow> n_quiet N (sd_notify s)"
    and trig: "Notified \<in> set (sd_triggers s) \<longrightarrow> sd_flag s" using assms(2,3) by (auto simp: sd_inv_def)
  have silent: "\<not> n_ready N w m" if "n_quiet N m" for w m using assms(1) that by (auto simp: notify_laws_def)
  show ?thesis
  proof (cases t)
    case Arming
    obtain w m where a: "n_notified N (sd_notify s) = (w, m)" by fastforce
    then have "n = m" "t' = Rechecking w" using assms(4) Arming by simp_all
    then show ?thesis using a quiet by (auto simp: waiter_ok_def intro: n_later.intros n_quiet.intros)
  qed (use assms(4) ok quiet trig silent in \<open>force simp: waiter_ok_def later_refl split: if_splits\<close>)+
qed

lemma in_set_update: "t \<in> set (xs[i := x]) \<Longrightarrow> t = x \<or> t \<in> set xs"
  using set_update_subset_insert by fastforce

lemma sd_step_inv:
  assumes "sd_step N s s'" "notify_laws N" "sd_inv N s"
  shows "sd_inv N s'"
  using assms(1)
proof (cases rule: sd_step.cases)
  case (poll i t n)
  have t: "sd_waiters s ! i \<in> set (sd_waiters s)" using poll(2) by simp
  note next_ok = waiter_next_ok [OF assms(2,3) t poll(3)]
  have "waiter_ok N s' t'" if "t' \<in> set (sd_waiters s')" for t'
  proof -
    from that poll(1) have "t' = t \<or> t' \<in> set (sd_waiters s)" by (auto dest: in_set_update)
    then show ?thesis
      using next_ok waiter_ok_frame [OF assms(2), of s t' s'] assms(3) poll(1) by (auto simp: sd_inv_def)
  qed
  then show ?thesis using next_ok assms(3) poll(1) by (auto simp: sd_inv_def)
next
  case (drop i)
  have "waiter_ok N s' t'" if "t' \<in> set (sd_waiters s')" for t'
  proof -
    from that drop(1) have "t' = Probing \<or> t' \<in> set (sd_waiters s)" by (auto dest: in_set_update)
    then show ?thesis
      using waiter_ok_frame [OF assms(2), of s t' s'] assms(3) drop(1) by (auto simp: sd_inv_def later_refl)
  qed
  then show ?thesis using assms(3) drop(1) by (auto simp: sd_inv_def)
next
  case (store j)
  have "waiter_ok N s' t'" if "t' \<in> set (sd_waiters s')" for t'
    using that waiter_ok_frame [OF assms(2), of s t' s'] assms(3) store(1) by (auto simp: sd_inv_def later_refl dest: in_set_update)
  then show ?thesis using assms(3) store(1) by (auto simp: sd_inv_def)
next
  case (wake j)
  have "Stored \<in> set (sd_triggers s)" using wake(2,3) by (metis nth_mem)
  then have flag: "sd_flag s" using assms(3) by (auto simp: sd_inv_def)
  have wakes: "n_ready N w (n_notify_waiters N n2)" if "n_notified N n = (w, n1)" "n_later N n1 n2" for w n n1 n2
    using assms(2) that unfolding notify_laws_def by blast
  have "waiter_ok N s' t'" if "t' \<in> set (sd_waiters s')" for t'
  proof -
    have "waiter_ok N s t'" using that assms(3) wake(1) by (simp add: sd_inv_def)
    then have past: "\<exists>n n1. n_notified N n = (w, n1) \<and> n_later N n1 (sd_notify s)" if "armed t' = Some w" for w
      using that by (simp add: waiter_ok_def)
    show ?thesis unfolding waiter_ok_def
    proof (intro conjI allI impI)
      fix w assume "armed t' = Some w"
      from past [OF this] show "\<exists>n n1. n_notified N n = (w, n1) \<and> n_later N n1 (sd_notify s')"
        using wake(1) by (auto intro: later_wake)
    next
      fix w assume "t' = Parked w"
      then show "n_ready N w (sd_notify s')" using past [of w] wakes wake(1) by auto
    next
      show "sd_flag s'" using flag wake(1) by simp
    qed
  qed
  then show ?thesis using assms(3) flag wake(1) by (simp add: sd_inv_def)
qed

lemma sd_reachable_inv: "sd_reachable N k l s \<Longrightarrow> notify_laws N \<Longrightarrow> sd_inv N s"
proof (induction rule: sd_reachable.induct)
  case sd_start
  then show ?case by (auto simp: sd_inv_def shutdown_new_def waiter_ok_def intro: n_quiet.intros)
qed (rule sd_step_inv)

text \<open>How many polls a waiter needs once the flag is set and a trigger has notified.\<close>

fun polls_left :: "'w waiter \<Rightarrow> nat" where
  "polls_left Arming = 2" | "polls_left Released = 0" | "polls_left _ = 1"

lemma triggered_polls:
  assumes "sd_inv N s" "Notified \<in> set (sd_triggers s)" "t \<in> set (sd_waiters s)" "t \<noteq> Released"
  shows "polls_left (fst (waiter_next N (sd_flag s) (sd_notify s) t)) < polls_left t"
proof -
  have "sd_flag s" using assms(1,2) by (auto simp: sd_inv_def)
  moreover have "n_ready N w (sd_notify s)" if "t = Parked w" for w
    using assms(1,2,3) that by (auto simp: sd_inv_def waiter_ok_def)
  ultimately show ?thesis using assms(4) by (cases t) (simp_all add: case_prod_unfold Let_def)
qed

section \<open>Loops that poll a flag\<close>

text \<open>Before its \<open>k\<close>-th turn a thread reads the flag; it stops when it is set.\<close>

partial_function (option) poll_loop :: "(nat \<Rightarrow> bool) \<Rightarrow> (nat \<Rightarrow> 's \<Rightarrow> 's) \<Rightarrow> nat \<Rightarrow> 's \<Rightarrow> 's option" where
  "poll_loop flag turn k s = (if flag k then Some s else poll_loop flag turn (Suc k) (turn k s))"

fun rounds :: "(nat \<Rightarrow> 's \<Rightarrow> 's) \<Rightarrow> nat \<Rightarrow> nat \<Rightarrow> 's \<Rightarrow> 's" where
  "rounds turn k 0 s = s"
| "rounds turn k (Suc n) s = rounds turn (Suc k) n (turn k s)"

lemma poll_loop_stops:
  "flag (k + n) \<Longrightarrow> \<forall>i<n. \<not> flag (k + i) \<Longrightarrow> poll_loop flag turn k s = Some (rounds turn k n s)"
proof (induction n arbitrary: k s)
  case 0
  then show ?case by (simp add: poll_loop.simps)
next
  case (Suc n)
  have "\<not> flag k" using Suc.prems(2) by force
  moreover have "poll_loop flag turn (Suc k) (turn k s) = Some (rounds turn (Suc k) n (turn k s))"
    using Suc.prems by (intro Suc.IH) auto
  ultimately show ?case by (subst poll_loop.simps) simp
qed

lemma poll_loop_Some: "poll_loop flag turn k s = Some s' \<Longrightarrow> \<exists>m\<ge>k. flag m"
  by (rule poll_loop.raw_induct [of "\<lambda>flag turn k s s'. \<exists>m\<ge>k. flag m"]) (fastforce split: if_splits dest: Suc_leD)+

lemma poll_loop_returns: "(\<exists>s'. poll_loop flag turn k s = Some s') \<longleftrightarrow> (\<exists>m\<ge>k. flag m)"
proof
  assume "\<exists>m\<ge>k. flag m"
  then obtain n where n: "flag (k + n)" by (metis le_Suc_ex)
  define n0 where "n0 = (LEAST n. flag (k + n))"
  have "flag (k + n0)" unfolding n0_def using n by (rule LeastI)
  moreover have "\<forall>i<n0. \<not> flag (k + i)" unfolding n0_def using not_less_Least by blast
  ultimately have "poll_loop flag turn k s = Some (rounds turn k n0 s)" by (rule poll_loop_stops)
  then show "\<exists>s'. poll_loop flag turn k s = Some s'" by (rule exI)
qed (elim exE, erule poll_loop_Some)

section \<open>The sweeper thread\<close>

text \<open>\<open>others k\<close> is what the rest of the server does to the engine while the thread sleeps after tick \<open>k\<close>.\<close>

definition DEFAULT_SAMPLE :: nat where "DEFAULT_SAMPLE = 20"

definition run_sweeper ::
  "(nat \<Rightarrow> bool) \<Rightarrow> (nat \<Rightarrow> nat \<Rightarrow> env) \<Rightarrow> (nat \<Rightarrow> engine \<Rightarrow> engine) \<Rightarrow> nat \<Rightarrow> engine \<Rightarrow> engine option" where
  "run_sweeper triggered vs others sample s =
     poll_loop triggered (\<lambda>k s. others k (sweep_tick (vs k) sample s)) 0 s"

section \<open>The background flusher\<close>

text \<open>The thread waits, reads \<^verbatim>\<open>stop\<close>, then flushes and syncs; \<open>others k\<close> is what happens to the writer during wait
  \<open>k\<close>. Dropping the writer stops and joins the thread, then flushes and syncs once more.\<close>

definition run_flusher :: "(nat \<Rightarrow> bool) \<Rightarrow> (nat \<Rightarrow> aof_writer \<Rightarrow> aof_writer) \<Rightarrow> aof_writer \<Rightarrow> aof_writer option" where
  "run_flusher stop others w = poll_loop stop (\<lambda>k w. others (Suc k) (flusher_round w)) 0 (others 0 w)"

definition writer_drop :: "(nat \<Rightarrow> bool) \<Rightarrow> (nat \<Rightarrow> aof_writer \<Rightarrow> aof_writer) \<Rightarrow> aof_writer \<Rightarrow> aof_writer option" where
  "writer_drop stop others w =
     (case w_policy w of
        FsyncEverySec \<Rightarrow> map_option aof_drop (run_flusher stop others w)
      | _ \<Rightarrow> Some (aof_drop (others 0 w)))"

lemma bw_flush_calm: "w_io w = [] \<Longrightarrow> bw_flush w = (True, w\<lparr>w_file := w_file w @ w_buf w, w_buf := []\<rparr>)"
  by (simp add: bw_flush_def next_io_def to_file_def)

lemma aof_drop_durable:
  assumes "w_io w = []"
  shows "w_file (aof_drop w) = aof_log w" "w_buf (aof_drop w) = []" "w_durable (aof_drop w) = length (aof_log w)"
  using assms by (simp_all add: aof_drop_def bw_flush_calm sync_data_def next_io_def aof_log_def)

section \<open>The accept loop\<close>

record server_config =
  sc_client_timeout :: "nat option"
  sc_max_clients :: nat
  sc_worker_threads :: nat

definition server_config_default :: server_config where
  "server_config_default = \<lparr>sc_client_timeout = None, sc_max_clients = 10000, sc_worker_threads = 0\<rparr>"

definition server_config_of :: "cli_args \<Rightarrow> server_config" where
  "server_config_of args = \<lparr>sc_client_timeout = ca_client_timeout args,
     sc_max_clients = (case ca_max_clients args of Some n \<Rightarrow> n | None \<Rightarrow> sc_max_clients server_config_default),
     sc_worker_threads = (case ca_io_threads args of Some n \<Rightarrow> n | None \<Rightarrow> 0)\<rparr>"

text \<open>\<^verbatim>\<open>ConnCounter::try_acquire\<close> with no other acceptor: the accept loop is one task.\<close>

definition try_acquire :: "nat \<Rightarrow> nat \<Rightarrow> nat option" where
  "try_acquire mx a = (if mx = 0 then Some (a + 1) else if mx \<le> a then None else Some (a + 1))"

text \<open>What the loop meets: the shutdown future, a new connection (and whether the flag is set by then), a failed
  accept, and in between the end of a handler, which drops its guard.\<close>

datatype accept_event = ShutdownSeen | Accepted bytes bool | AcceptFailed | HandlerDone

datatype accept_out = Spawned bytes | Refused bytes bytes

definition refusal :: bytes where
  "refusal = encode_error ''ERR max number of clients reached''"

text \<open>The result: what was done, the value of the counter, and whether the loop has ended.\<close>

fun accept_loop :: "nat \<Rightarrow> accept_event list \<Rightarrow> nat \<Rightarrow> accept_out list \<times> nat \<times> bool" where
  "accept_loop mx [] a = ([], a, False)"
| "accept_loop mx (ShutdownSeen # es) a = ([], a, True)"
| "accept_loop mx (Accepted peer triggered # es) a =
     (if triggered then ([], a, True)
      else case try_acquire mx a of
        None \<Rightarrow> (let (outs, r) = accept_loop mx es a in (Refused peer refusal # outs, r))
      | Some a \<Rightarrow> (let (outs, r) = accept_loop mx es a in (Spawned peer # outs, r)))"
| "accept_loop mx (AcceptFailed # es) a = accept_loop mx es a"
| "accept_loop mx (HandlerDone # es) a = accept_loop mx es (a - 1)"

lemma accept_loop_append:
  "accept_loop mx (es @ fs) a =
     (case accept_loop mx es a of (outs, b, ended) \<Rightarrow>
        if ended then (outs, b, True) else (case accept_loop mx fs b of (outs', r) \<Rightarrow> (outs @ outs', r)))"
  by (induction mx es a rule: accept_loop.induct) (auto simp: Let_def case_prod_unfold split: option.splits)

text \<open>The counter of the loop is one the racing acceptors could have reached.\<close>

definition settled :: "nat \<Rightarrow> nat \<Rightarrow> bool" where
  "settled mx a \<longleftrightarrow> (\<exists>c. counter_reachable mx c \<and> active c = a \<and> pending c = (\<lambda>_. None))"

lemma settledI: "counter_reachable mx c \<Longrightarrow> active c = a \<Longrightarrow> pending c = (\<lambda>_. None) \<Longrightarrow> settled mx a"
  by (auto simp: settled_def)

lemma settled_acquire:
  assumes "settled mx a" "try_acquire mx a = Some b"
  shows "settled mx b"
proof -
  obtain c where c: "counter_reachable mx c" "active c = a" "pending c = (\<lambda>_. None)" using assms(1) by (auto simp: settled_def)
  show ?thesis
  proof (cases "mx = 0")
    case True
    have "counter_reachable mx (c\<lparr>active := active c + 1, held := held c + 1\<rparr>)"
      by (rule counter_reachable.step [OF c(1) counter_step.unlimited [OF True]])
    moreover have "b = a + 1" using True assms(2) by (simp add: try_acquire_def)
    ultimately show ?thesis using c(2,3) by (auto intro: settledI)
  next
    case False
    then have lim: "a < mx" "b = a + 1" using assms(2) by (auto simp: try_acquire_def split: if_splits)
    let ?c = "c\<lparr>pending := (pending c)(0 := Some (active c))\<rparr>"
    have "counter_reachable mx ?c" by (rule counter_reachable.step [OF c(1) counter_step.load]) (simp_all add: False c(3))
    moreover have "counter_step mx ?c (?c\<lparr>active := a + 1, held := held ?c + 1, pending := (pending ?c)(0 := None)\<rparr>)"
      by (rule counter_step.exchange) (simp_all add: c(2) lim)
    ultimately have "counter_reachable mx (?c\<lparr>active := a + 1, held := held ?c + 1, pending := (pending ?c)(0 := None)\<rparr>)"
      by (rule counter_reachable.step)
    then show ?thesis by (rule settledI) (simp_all add: c(3) lim(2) fun_eq_iff)
  qed
qed

lemma settled_drop:
  assumes "settled mx a"
  shows "settled mx (a - 1)"
proof -
  obtain c where c: "counter_reachable mx c" "active c = a" "pending c = (\<lambda>_. None)" using assms by (auto simp: settled_def)
  show ?thesis
  proof (cases "a = 0")
    case False
    then have "0 < held c" using counter_inv [OF c(1)] c(2) by simp
    then have "counter_reachable mx (c\<lparr>active := active c - 1, held := held c - 1\<rparr>)"
      by (intro counter_reachable.step [OF c(1) counter_step.dropped])
    then show ?thesis by (rule settledI) (simp_all add: c(2,3))
  qed (use assms in simp)
qed

lemma settled_loop: "settled mx a \<Longrightarrow> settled mx (fst (snd (accept_loop mx es a)))"
proof (induction mx es a rule: accept_loop.induct)
  case (3 mx peer triggered es a)
  then show ?case using settled_acquire [of mx a]
    by (auto simp: Let_def case_prod_unfold split: option.splits)
next
  case (5 mx es a)
  then show ?case using settled_drop [of mx a] by simp
qed simp_all

lemma settled_0: "settled mx 0"
  by (rule settledI [OF counter_reachable.start]) (simp_all add: counter_new_def)

section \<open>The dashboard server\<close>

text \<open>Connections are served in the order in which their requests are routed.\<close>

datatype 'f serve_event = ServeStop | ServeFailed | Serve "'f dash_env" "bytes list" read_end

fun serve_loop :: "bytes option \<Rightarrow> 'f serve_event list \<Rightarrow> engine \<Rightarrow> response option list \<times> engine" where
  "serve_loop token [] s = ([], s)"
| "serve_loop token (ServeStop # es) s = ([], s)"
| "serve_loop token (ServeFailed # es) s = serve_loop token es s"
| "serve_loop token (Serve d chunks fin # es) s =
     (let (resp, s) = handle_conn d token chunks fin s; (resps, s) = serve_loop token es s in (resp # resps, s))"

text \<open>\<open>resolved\<close> is what the address resolves to, \<open>runtime\<close> and \<open>bound\<close> say whether the runtime and the listener
  could be set up.\<close>

definition dashboard_serve ::
  "bytes \<Rightarrow> bytes + (bytes \<times> bool) list \<Rightarrow> bool \<Rightarrow> bool \<Rightarrow> bytes option \<Rightarrow> 'f serve_event list \<Rightarrow> engine
   \<Rightarrow> unit result \<times> response option list \<times> engine" where
  "dashboard_serve addr resolved runtime bound token es s =
     (case check_bind_policy resolved token addr of
        Inl e \<Rightarrow> (Err e, [], s)
      | Inr u \<Rightarrow>
          if \<not> runtime then (Err (Internal ''failed to build dashboard runtime''), [], s)
          else if \<not> bound then (Err IoError, [], s)
          else (Ok (), serve_loop token es s))"

lemma serve_loop_token:
  assumes "\<forall>d chunks fin req. Serve d chunks fin \<in> set es \<longrightarrow> receive chunks fin = Inr req \<longrightarrow> provided_token req \<noteq> Some t"
  shows "\<exists>resps. \<forall>s. serve_loop (Some t) es s = (resps, s)"
  using assms
proof (induction es)
  case (Cons e es)
  then obtain resps where rest: "\<forall>s. serve_loop (Some t) es s = (resps, s)" by auto
  show ?case
  proof (cases e)
    case (Serve d chunks fin)
    then have "\<And>req. receive chunks fin = Inr req \<Longrightarrow> provided_token req \<noteq> Some t" using Cons.prems by auto
    from handle_conn_token [OF this] obtain resp where "\<forall>s. handle_conn d (Some t) chunks fin s = (resp, s)" by blast
    then show ?thesis using rest Serve by auto
  qed (use rest in auto)
qed simp

section \<open>The end of main\<close>

text \<open>Which of the calls after the engine is built succeed.\<close>

record main_io =
  mi_bind :: bool
  mi_local_addr :: bool
  mi_signals :: bool
  mi_sweeper :: bool
  mi_nonblocking :: bool
  mi_runtime :: bool
  mi_from_std :: bool

text \<open>\<^verbatim>\<open>run_listener\<close>, up to the events seen so far; \<^const>\<open>None\<close> while it still runs.\<close>

definition run_listener :: "main_io \<Rightarrow> server_config \<Rightarrow> accept_event list \<Rightarrow> unit result option" where
  "run_listener io cfg es =
     (if \<not> mi_nonblocking io then Some (Err IoError)
      else if \<not> mi_runtime io then Some (Err (Internal ''failed to build tokio runtime''))
      else if \<not> mi_from_std io then Some (Err (Internal ''TcpListener::from_std failed''))
      else case accept_loop (sc_max_clients cfg) es 0 of (outs, a, ended) \<Rightarrow> if ended then Some (Ok ()) else None)"

text \<open>\<^verbatim>\<open>handle.shutdown()\<close> joins the sweeper: it returns when the thread does. The dashboard runs on a thread of its own that
  is not joined.\<close>

definition main_serve :: "main_io \<Rightarrow> cli_args \<Rightarrow> accept_event list \<Rightarrow> engine option \<Rightarrow> exit_code option" where
  "main_serve io args es sweeper =
     (if \<not> mi_bind io \<or> \<not> mi_local_addr io \<or> \<not> mi_signals io then Some ExitFailure
      else case run_listener io (server_config_of args) es of
        None \<Rightarrow> None
      | Some res \<Rightarrow>
          if mi_sweeper io \<and> sweeper = None then None
          else case res of Inl e \<Rightarrow> Some ExitFailure | Inr u \<Rightarrow> Some ExitSuccess)"

end
