(* ===== verification/Admin_Claims.thy ===== *)
theory Admin_Claims
  imports Samples Cli Dashboard Lifecycle
begin

text \<open>
  The properties of what an operator meets: the configuration file and the command line, the web dashboard and
  its codecs, and glob patterns.
\<close>

section \<open>Configuration\<close>

text \<open>Byte sizes are read the same way from the configuration file and from the command line (the file's error
  message names the directive), and a number with a unit, in either case, is the product, or an error when that
  does not fit 64 bits; no unit wraps around.\<close>

theorem byte_sizes:
  assumes "(to_ascii_lowercase unit_name, factor) \<in> set size_units" "plain unit_name" "n \<le> u64_max"
  shows "parse_bytes (show_nat n @ unit_name) name =
      (if n * factor \<le> u64_max then Ok (n * factor)
       else Err (''invalid '' @ name @ '': '' @ quoted (show_nat n @ unit_name) @ '' overflows u64''))
    \<and> parse_bytes raw name = map_sum (\<lambda>e. ''invalid '' @ name @ '': '' @ e) id (cli_parse_bytes raw)"
  using parse_bytes_unit [OF assms] cli_parse_bytes_agrees by simp

theorem byte_sizes_witness: "parse_bytes (''16'' @ ''Mb'') ''maxmemory'' = Ok 16777216"
proof -
  have "show_nat 16 = ''16''" by (simp add: show_nat.simps digit_char_def char_of_def bit_0)
  moreover have "to_ascii_lowercase ''Mb'' = ''mb''"
    by (simp add: to_ascii_lowercase_def ascii_lower_def char_of_def bit_0)
  ultimately show ?thesis using byte_sizes [of "''Mb''" "1024 * 1024" 16 "''maxmemory''" "[]"]
    by (simp add: size_units_def)
qed

text \<open>The configuration file is rejected exactly when some line is wrong, and the error names the first such
  line by its number and says what is wrong with it given the lines before.\<close>

theorem config_error_names_first_bad_line:
  "parse_lines src no ls cfg = Err e \<longleftrightarrow>
     (\<exists>good bad rest cfg' msg. ls = good @ bad # rest \<and> parse_lines src no good cfg = Ok cfg'
        \<and> parse_line cfg' bad = Err msg \<and> e = FileParse src (no + length good) msg)"
  by (rule parse_lines_error)

text \<open>A configuration the server starts with is consistent: a durability policy is only accepted together with
  an append-only file to apply it to, from whichever sources the two come.\<close>

theorem appendfsync_needs_aof:
  assumes "cli_parse read args = Ok (Run a)" "ca_appendfsync a \<noteq> None"
  shows "\<exists>path. cli_aof_config a = Some (path, the (ca_appendfsync a))"
proof -
  obtain raw f where "merge raw f = Ok a" using cli_parse_merge [OF assms(1)] by blast
  from merge_aof_enabled [OF this assms(2)] assms(2) show ?thesis by (auto simp: cli_aof_config_def)
qed

theorem appendfsync_needs_aof_witness:
  "\<exists>a. cli_parse (\<lambda>_. None) [''--aof-path'', ''x'', ''--appendfsync'', ''always''] = Ok (Run a)
     \<and> cli_aof_config a = Some (''x'', FsyncAlways)"
proof -
  obtain a where a: "cli_parse (\<lambda>_. None) [''--aof-path'', ''x'', ''--appendfsync'', ''always''] = Ok (Run a)"
    "ca_appendfsync a = Some FsyncAlways" "ca_aof_path a = Some ''x''"
    by (simp add: cli_parse_def cli_flags_def set_flag_def fsync_parse_def raw_flags_default_def merge_def or_else_def
        from_file_def to_ascii_lowercase_def ascii_lower_def Let_def)
  with appendfsync_needs_aof [OF a(1)] show ?thesis by (auto simp: cli_aof_config_def)
qed

section \<open>The dashboard\<close>

text \<open>C22: With a dashboard token configured, requests that do not carry it neither change the engine nor learn
  anything about it, however many connections bring them: the server's responses are the same for every engine
  state, and the state is left as it was.\<close>

theorem dashboard_token_protects_engine:
  assumes "\<forall>d chunks fin req. Serve d chunks fin \<in> set es \<longrightarrow> receive chunks fin = Inr req \<longrightarrow> provided_token req \<noteq> Some t"
  shows "\<exists>resps. \<forall>s. snd (dashboard_serve addr resolved True True (Some t) es s) = (resps, s)"
  using serve_loop_token [OF assms] by (simp add: dashboard_serve_def check_bind_policy_def)

definition sample_dash :: "int dash_env" where
  "sample_dash = \<lparr>d_env = env_at, d_call = x_calls sample_conn 0, d_platform = sample_platform,
     d_ratio4 = (\<lambda>_ _. ''0''), d_uptime = 0, d_html = ''page''\<rparr>"

definition get_info :: bytes where
  "get_info = ''GET /api/info HTTP/1.1'' @ CRLF @ CRLF"

lemma get_info_received: "\<exists>req. receive [get_info] fin = Inr req \<and> rq_headers req = []"
proof -
  have h: "header_end get_info = Some 22" by (simp add: get_info_def)
  have b: "take 22 get_info = ''GET /api/info HTTP/1.1''" by (simp add: get_info_def)
  have l: "split_on LF ''GET /api/info HTTP/1.1'' = [''GET /api/info HTTP/1.1'']"
    "split_on (CHR '' '') ''GET /api/info HTTP/1.1'' = [''GET'', ''/api/info'', ''HTTP/1.1'']" by simp_all
  have n: "content_length ''GET /api/info HTTP/1.1'' = 0"
    by (simp add: content_length_def header_value_def l strip_prefix_byte_def)
  have "\<exists>req. parse_request get_info = Some req \<and> rq_headers req = []"
    by (simp add: parse_request_def h b l Let_def split: prod.split)
  then show ?thesis
    using receive_segments [of "[get_info]" 22 fin] h b n by (auto simp: MAX_HEADER_BYTES_def MAX_BODY_BYTES_def get_info_def)
qed

theorem dashboard_token_protects_engine_witness:
  "\<exists>resps. \<forall>s. snd (dashboard_serve ''0.0.0.0:6381'' (Inr [(''0.0.0.0:6381'', False)]) True True (Some ''secret'')
       [Serve sample_dash [get_info] Closed, ServeFailed, Serve sample_dash [get_info] Quiet] s) = (resps, s)"
proof (rule dashboard_token_protects_engine, intro allI impI)
  fix d :: "int dash_env" and chunks fin req
  assume "Serve d chunks fin \<in> set [Serve sample_dash [get_info] Closed, ServeFailed, Serve sample_dash [get_info] Quiet]"
    and "receive chunks fin = Inr req"
  then show "provided_token req \<noteq> Some ''secret''"
    using get_info_received [of fin] by (auto simp: provided_token_def)
qed


text \<open>How a dashboard request is cut into reads does not matter: once its header block and its declared body
  have arrived within the limits, the response and the effect are those of the whole request read at once.\<close>

theorem dashboard_reads_can_be_cut_anywhere:
  assumes "header_end (concat chunks) = Some p" "p + 3 \<le> MAX_HEADER_BYTES"
    and "content_length (take p (concat chunks)) \<le> MAX_BODY_BYTES"
    and "p + 4 + content_length (take p (concat chunks)) \<le> length (concat chunks)"
  shows "handle_conn d token chunks fin s = handle_conn d token [concat chunks] Closed s"
  using receive_segments [OF assms, of fin] receive_segments [of "[concat chunks]" p Closed] assms
  by (simp add: handle_conn_receive)

theorem dashboard_reads_can_be_cut_anywhere_witness:
  "handle_conn sample_dash None [''GET /a'', ''pi/info HTTP/1.1'' @ CRLF @ CRLF] Quiet engine0 =
   handle_conn sample_dash None [concat [''GET /a'', ''pi/info HTTP/1.1'' @ CRLF @ CRLF]] Closed engine0"
proof (rule dashboard_reads_can_be_cut_anywhere [of _ 22])
  have b: "take 22 (concat [''GET /a'', ''pi/info HTTP/1.1'' @ CRLF @ CRLF]) = ''GET /api/info HTTP/1.1''" by simp
  have n: "content_length (take 22 (concat [''GET /a'', ''pi/info HTTP/1.1'' @ CRLF @ CRLF])) = 0"
    unfolding b by (simp add: content_length_def header_value_def strip_prefix_byte_def)
  show "content_length (take 22 (concat [''GET /a'', ''pi/info HTTP/1.1'' @ CRLF @ CRLF])) \<le> MAX_BODY_BYTES"
    "22 + 4 + content_length (take 22 (concat [''GET /a'', ''pi/info HTTP/1.1'' @ CRLF @ CRLF]))
       \<le> length (concat [''GET /a'', ''pi/info HTTP/1.1'' @ CRLF @ CRLF])" unfolding n by simp_all
qed (simp_all add: MAX_HEADER_BYTES_def)



section \<open>Codecs and patterns\<close>

text \<open>Keys and values that are not text survive the dashboard: decoding what base64 encoding produced gives the
  original bytes, for every length and every byte.\<close>

theorem base64_roundtrip: "base64_decode (base64_encode bs) = Some bs"
  by (rule base64_decode_encode)

text \<open>What the dashboard prints as a JSON string literal is read back, by the JSON grammar, as the original
  text, and the reader stops exactly at its closing quote: no value can break out of its literal.\<close>

theorem json_literal_roundtrip:
  "\<exists>cs. json_string t @ rest = CHR 0x22 # cs \<and> json_read cs = Some (t, rest)"
  by (rule json_read_string)

text \<open>Glob patterns: a pattern in which every special character is escaped matches its own text and nothing
  else; a literal prefix followed by a star matches exactly the texts with that prefix.\<close>

theorem glob_literals:
  assumes "\<forall>c\<in>set lit. literal c"
  shows "glob_match (glob_escape any_text) t = (t = any_text)
    \<and> glob_match (lit @ ''*'') t = (\<exists>ts. t = lit @ ts)"
  using glob_match_escape glob_match_literal_append [OF assms, of "''*''" t] by simp

theorem glob_literals_witness: "glob_match (''user:'' @ ''*'') ''user:7''"
  using glob_literals [of "''user:''" "[]" "''user:7''"] by (simp add: literal_def)

end
