(* ===== verification/Durability_Claims.thy ===== *)
theory Durability_Claims
  imports Samples Startup
begin

text \<open>
  The properties of the append-only file as a whole: what restarts make of it, after any runs of commands and
  rewrites that overlapped with commands.
\<close>

section \<open>A sample engine with a log\<close>








section \<open>Restart\<close>



text \<open>C5: Whatever the log file holds, complete, torn or garbage, a server that starts is consistent: the invariant of
  the engine holds, the eviction index knows every evictable key, the configured limit, policy and password are in
  force before the first connection, and writes are logged exactly when a log was configured. (An empty password
  switches authentication off.)\<close>

theorem startup_is_consistent:
  assumes "main_engine su rf argv = Inr s" "\<forall>f. su_file su = Some f \<longrightarrow> 200 * length f \<le> u64_max"
  shows "\<exists>args. cli_parse rf argv = Ok (Run args) \<and> engine_inv s \<and> index_covers s
     \<and> e_eviction s = cli_eviction_config args
     \<and> e_auth_password s = (if ca_requirepass args = Some [] then None else ca_requirepass args)
     \<and> e_auth_required s = (e_auth_password s \<noteq> None) \<and> (e_aof s = None) = (ca_aof_path args = None)"
proof -
  obtain args where a: "cli_parse rf argv = Ok (Run args)" "engine_inv s" "index_covers s"
    "e_eviction s = cli_eviction_config args" "e_auth_password s = (if ca_requirepass args = Some [] then None else ca_requirepass args)"
    "(e_aof s = None) = (ca_aof_path args = None)"
    using main_engine_consistent [OF assms(1)] assms(2) by metis
  have "e_auth_required s = (e_auth_password s \<noteq> None)" using a(2) by (simp add: engine_inv_def auth_ok_def)
  with a show ?thesis by (intro exI [of _ args] conjI) simp_all
qed

theorem startup_is_consistent_witness:
  "\<exists>s. main_engine \<lparr>su_rnd = id, su_nanos = 7, su_replay = env_at, su_file = Some ''garbage'', su_io = []\<rparr> (\<lambda>_. None)
       [''--aof-path'', ''f'', ''--requirepass'', ''pw''] = Inr s \<and> engine_inv s \<and> e_auth_password s = Some ''pw'' \<and> e_aof s \<noteq> None"
proof -
  let ?su = "\<lparr>su_rnd = id, su_nanos = 7, su_replay = env_at, su_file = Some ''garbage'', su_io = []\<rparr>"
    and ?argv = "[''--aof-path'', ''f'', ''--requirepass'', ''pw'']"
  obtain args where args: "cli_parse (\<lambda>_. None) ?argv = Ok (Run args)" "ca_requirepass args = Some ''pw''"
    "ca_aof_path args = Some ''f''"
    by (simp add: cli_parse_def cli_flags_def set_flag_def fsync_parse_def raw_flags_default_def merge_def or_else_def
        from_file_def to_ascii_lowercase_def ascii_lower_def Let_def)
  have garbage: "replay_loop vs n ''garbage'' 0 st e = (Inr (st\<lparr>skipped := skipped st + 1, truncated_tail := True\<rparr>, 0), e)" for vs n st e
    by (subst replay_loop.simps) (simp add: read_record_def resync_to_next_array_def Let_def)
  obtain s where s: "main_engine ?su (\<lambda>_. None) ?argv = Inr s"
    using args garbage by (simp add: main_engine_def build_engine_def cli_aof_config_def replay_def aof_open_io Let_def)
  have "\<forall>f. su_file ?su = Some f \<longrightarrow> 200 * length f \<le> u64_max" by simp
  from startup_is_consistent [OF s this] s args show ?thesis by auto
qed

end
