(* ===== verification/Group_Commit.thy ===== *)
theory Group_Commit
  imports Prelude
begin

text \<open>
  Models \<^verbatim>\<open>write_bytes\<close> and \<^verbatim>\<open>sync_if_needed\<close> of \<^verbatim>\<open>src/src/persistence/writer.rs\<close> once more, now as threads that
  interleave: several writers under \<^verbatim>\<open>appendfsync always\<close> append, publish a sequence number and share fsyncs. Every
  access to an atomic, every lock acquisition and every system call is a step of its own. The file is represented by
  its length and the \<^verbatim>\<open>BufWriter\<close> by the number of bytes it still holds (a failed write leaves some); an fsync that returns has made durable at least what was in the file when it started. \<open>gc_upto\<close> is a
  ghost: the length of the file when a sequence number was published.

  With the flag of \<open>gc_step\<close> set, the handle swap of \<^verbatim>\<open>finish_rewrite\<close> may happen in between as well.
\<close>

section \<open>The threads\<close>

text \<open>The program counter of a writer. \<open>e\<close> is the length of the file after its append, \<open>q\<close> the number it published,
  \<open>t\<close> its \<^verbatim>\<open>target\<close> and \<open>c\<close> its \<^verbatim>\<open>covered\<close>.\<close>

datatype pc =
    Appending nat
  | Flushed nat
  | Published nat nat
  | Probed nat nat nat
  | Queued nat nat nat
  | Gated nat nat nat
  | Covering nat nat nat nat
  | Ready nat nat nat nat
  | Syncing nat nat nat nat nat
  | Synced nat nat nat nat
  | Acked nat nat
  | Failed

record gc =
  gc_flen :: nat
  gc_buf :: nat
  gc_durable :: nat
  gc_seq :: nat
  gc_synced :: nat
  gc_fsyncs :: nat
  gc_append :: "nat option"
  gc_gate :: "nat option"
  gc_upto :: "nat \<Rightarrow> nat"
  gc_pcs :: "pc list"

definition gc_init :: "nat list \<Rightarrow> gc" where
  "gc_init sizes = \<lparr>gc_flen = 0, gc_buf = 0, gc_durable = 0, gc_seq = 0, gc_synced = 0, gc_fsyncs = 0, gc_append = None,
     gc_gate = None, gc_upto = (\<lambda>_. 0), gc_pcs = map Appending sizes\<rparr>"

abbreviation goto :: "nat \<Rightarrow> pc \<Rightarrow> gc \<Rightarrow> gc" where
  "goto i p s \<equiv> s\<lparr>gc_pcs := (gc_pcs s)[i := p]\<rparr>"

inductive gc_step :: "bool \<Rightarrow> gc \<Rightarrow> gc \<Rightarrow> bool" for rw where
  append_ok: "gc_step rw s (goto i (Flushed (gc_flen s + gc_buf s + n))
      (s\<lparr>gc_flen := gc_flen s + gc_buf s + n, gc_buf := 0, gc_append := Some i\<rparr>))"
    if "i < length (gc_pcs s)" "gc_pcs s ! i = Appending n" "gc_append s = None"
| append_failed: "gc_step rw s (goto i Failed (s\<lparr>gc_flen := gc_flen s + m, gc_buf := k\<rparr>))"
    if "i < length (gc_pcs s)" "gc_pcs s ! i = Appending n" "gc_append s = None" "m + k \<le> gc_buf s + n"
| publish: "gc_step rw s (goto i (Published (gc_seq s + 1) e)
      (s\<lparr>gc_seq := gc_seq s + 1, gc_upto := (gc_upto s)(gc_seq s + 1 := e), gc_append := None\<rparr>))"
    if "i < length (gc_pcs s)" "gc_pcs s ! i = Flushed e" "gc_append s = Some i"
| probe: "gc_step rw s (goto i (Probed q e (gc_seq s)) s)"
    if "i < length (gc_pcs s)" "gc_pcs s ! i = Published q e"
| already: "gc_step rw s (goto i (Acked q e) s)"
    if "i < length (gc_pcs s)" "gc_pcs s ! i = Probed q e t" "gc_synced s \<ge> t"
| queue: "gc_step rw s (goto i (Queued q e t) s)"
    if "i < length (gc_pcs s)" "gc_pcs s ! i = Probed q e t" "gc_synced s < t"
| enter: "gc_step rw s (goto i (Gated q e t) (s\<lparr>gc_gate := Some i\<rparr>))"
    if "i < length (gc_pcs s)" "gc_pcs s ! i = Queued q e t" "gc_gate s = None"
| cover: "gc_step rw s (goto i (Covering q e t (gc_seq s)) s)"
    if "i < length (gc_pcs s)" "gc_pcs s ! i = Gated q e t"
| skip: "gc_step rw s (goto i (Acked q e) (s\<lparr>gc_gate := None\<rparr>))"
    if "i < length (gc_pcs s)" "gc_pcs s ! i = Covering q e t c" "gc_synced s \<ge> c"
| flush: "gc_step rw s (goto i (Ready q e t c) (s\<lparr>gc_flen := gc_flen s + gc_buf s, gc_buf := 0\<rparr>))"
    if "i < length (gc_pcs s)" "gc_pcs s ! i = Covering q e t c" "gc_synced s < c" "gc_append s = None"
| flush_failed: "gc_step rw s (goto i Failed (s\<lparr>gc_flen := gc_flen s + m, gc_buf := k, gc_gate := None\<rparr>))"
    if "i < length (gc_pcs s)" "gc_pcs s ! i = Covering q e t c" "gc_synced s < c" "gc_append s = None" "m + k \<le> gc_buf s"
| sync_start: "gc_step rw s (goto i (Syncing q e t c (gc_flen s)) s)"
    if "i < length (gc_pcs s)" "gc_pcs s ! i = Ready q e t c"
| sync_done: "gc_step rw s (goto i (Synced q e t c) (s\<lparr>gc_durable := max (gc_durable s) l\<rparr>))"
    if "i < length (gc_pcs s)" "gc_pcs s ! i = Syncing q e t c start" "start \<le> l" "l \<le> gc_flen s"
| sync_failed: "gc_step rw s (goto i Failed (s\<lparr>gc_gate := None\<rparr>))"
    if "i < length (gc_pcs s)" "gc_pcs s ! i = Syncing q e t c start"
| ack: "gc_step rw s (goto i (Acked q e)
      (s\<lparr>gc_synced := max (gc_synced s) c, gc_fsyncs := gc_fsyncs s + 1, gc_gate := None\<rparr>))"
    if "i < length (gc_pcs s)" "gc_pcs s ! i = Synced q e t c"
| swap: "gc_step rw s (s\<lparr>gc_flen := l, gc_buf := 0, gc_durable := l, gc_seq := 0, gc_synced := 0\<rparr>)"
    if rw "gc_append s = None" "\<forall>q e t c start. Syncing q e t c start \<notin> set (gc_pcs s)"

text \<open>Runs, with the number of their steps.\<close>

inductive gc_run :: "bool \<Rightarrow> gc \<Rightarrow> nat \<Rightarrow> gc \<Rightarrow> bool" for rw s0 where
  run_0: "gc_run rw s0 0 s0"
| run_Suc: "gc_run rw s0 n s \<Longrightarrow> gc_step rw s s' \<Longrightarrow> gc_run rw s0 (Suc n) s'"

inductive_cases gc_stepE: "gc_step rw s s'"

section \<open>The invariant\<close>

fun holds_gate :: "pc \<Rightarrow> bool" where
  "holds_gate (Gated _ _ _) = True" | "holds_gate (Covering _ _ _ _) = True" | "holds_gate (Ready _ _ _ _) = True"
| "holds_gate (Syncing _ _ _ _ _) = True" | "holds_gate (Synced _ _ _ _) = True" | "holds_gate _ = False"

fun holds_append :: "pc \<Rightarrow> bool" where
  "holds_append (Flushed _) = True" | "holds_append _ = False"

text \<open>What a writer knows at each point.\<close>

definition known :: "gc \<Rightarrow> nat \<Rightarrow> nat \<Rightarrow> bool" where
  "known s q e \<longleftrightarrow> q \<le> gc_seq s \<and> gc_upto s q = e"

fun pc_ok :: "gc \<Rightarrow> pc \<Rightarrow> bool" where
  "pc_ok s (Appending n) \<longleftrightarrow> True"
| "pc_ok s (Flushed e) \<longleftrightarrow> e = gc_flen s"
| "pc_ok s (Published q e) \<longleftrightarrow> known s q e"
| "pc_ok s (Probed q e t) \<longleftrightarrow> known s q e \<and> q \<le> t \<and> t \<le> gc_seq s"
| "pc_ok s (Queued q e t) \<longleftrightarrow> known s q e \<and> q \<le> t \<and> t \<le> gc_seq s"
| "pc_ok s (Gated q e t) \<longleftrightarrow> known s q e \<and> q \<le> t \<and> t \<le> gc_seq s"
| "pc_ok s (Covering q e t c) \<longleftrightarrow> known s q e \<and> q \<le> c \<and> c \<le> gc_seq s"
| "pc_ok s (Ready q e t c) \<longleftrightarrow> known s q e \<and> q \<le> c \<and> c \<le> gc_seq s"
| "pc_ok s (Syncing q e t c start) \<longleftrightarrow> known s q e \<and> q \<le> c \<and> c \<le> gc_seq s \<and> gc_upto s c \<le> start"
| "pc_ok s (Synced q e t c) \<longleftrightarrow> known s q e \<and> q \<le> c \<and> c \<le> gc_seq s \<and> gc_upto s c \<le> gc_durable s"
| "pc_ok s (Acked q e) \<longleftrightarrow> e \<le> gc_durable s"
| "pc_ok s Failed \<longleftrightarrow> True"

definition gc_shared :: "gc \<Rightarrow> bool" where
  "gc_shared s \<longleftrightarrow> gc_synced s \<le> gc_seq s \<and> gc_upto s (gc_synced s) \<le> gc_durable s \<and> gc_durable s \<le> gc_flen s
     \<and> (\<forall>i j. i \<le> j \<longrightarrow> j \<le> gc_seq s \<longrightarrow> gc_upto s i \<le> gc_upto s j) \<and> (\<forall>i\<le>gc_seq s. gc_upto s i \<le> gc_flen s)"

definition locks_ok :: "gc \<Rightarrow> bool" where
  "locks_ok s \<longleftrightarrow> (\<forall>i < length (gc_pcs s). (gc_append s = Some i) = holds_append (gc_pcs s ! i)
       \<and> (gc_gate s = Some i) = holds_gate (gc_pcs s ! i))
     \<and> (\<forall>i. gc_append s = Some i \<or> gc_gate s = Some i \<longrightarrow> i < length (gc_pcs s))"

definition gc_inv :: "gc \<Rightarrow> bool" where
  "gc_inv s \<longleftrightarrow> gc_shared s \<and> locks_ok s \<and> (\<forall>p\<in>set (gc_pcs s). pc_ok s p)"

text \<open>What other threads know survives a step: numbers, published lengths and durability only grow.\<close>

definition grows :: "gc \<Rightarrow> gc \<Rightarrow> bool" where
  "grows s s' \<longleftrightarrow> gc_seq s \<le> gc_seq s' \<and> (\<forall>q\<le>gc_seq s. gc_upto s' q = gc_upto s q) \<and> gc_durable s \<le> gc_durable s'"

lemma pc_ok_grows:
  assumes "grows s s'" "pc_ok s p" "holds_append p \<longrightarrow> gc_flen s' = gc_flen s"
  shows "pc_ok s' p"
  using assms by (cases p) (auto simp: grows_def known_def)

lemma locks_okD:
  "locks_ok s \<Longrightarrow> i < length (gc_pcs s) \<Longrightarrow> (gc_append s = Some i) = holds_append (gc_pcs s ! i)"
  "locks_ok s \<Longrightarrow> i < length (gc_pcs s) \<Longrightarrow> (gc_gate s = Some i) = holds_gate (gc_pcs s ! i)"
  "locks_ok s \<Longrightarrow> gc_append s = Some i \<Longrightarrow> i < length (gc_pcs s)" "locks_ok s \<Longrightarrow> gc_gate s = Some i \<Longrightarrow> i < length (gc_pcs s)"
  unfolding locks_ok_def by blast+

lemma set_goto: "p \<in> set (xs[i := x]) \<Longrightarrow> p = x \<or> (\<exists>j<length xs. j \<noteq> i \<and> p = xs ! j)"
  by (metis in_set_conv_nth length_list_update nth_list_update_eq nth_list_update_neq)

lemma locks_goto:
  assumes "locks_ok s" "i < length (gc_pcs s)" "gc_pcs s1 = gc_pcs s"
    and "gc_append s1 = (if holds_append p then Some i else if holds_append (gc_pcs s ! i) then None else gc_append s)"
    and "gc_gate s1 = (if holds_gate p then Some i else if holds_gate (gc_pcs s ! i) then None else gc_gate s)"
    and "holds_append p \<longrightarrow> gc_append s = None \<or> gc_append s = Some i" "holds_gate p \<longrightarrow> gc_gate s = None \<or> gc_gate s = Some i"
  shows "locks_ok (goto i p s1)"
proof -
  have own: "(gc_append s = Some j) = holds_append (gc_pcs s ! j)" "(gc_gate s = Some j) = holds_gate (gc_pcs s ! j)"
    if "j < length (gc_pcs s)" for j using locks_okD(1,2) [OF assms(1) that] by blast+
  have a: "(gc_append s1 = Some j) = holds_append ((gc_pcs s)[i := p] ! j) \<and> (gc_gate s1 = Some j) = holds_gate ((gc_pcs s)[i := p] ! j)"
    if "j < length (gc_pcs s)" for j
  proof (cases "j = i")
    case True
    then show ?thesis using own [OF assms(2)] assms(2,4,5) by simp
  next
    case False
    then have "(gc_append s1 = Some j) = (gc_append s = Some j)" "(gc_gate s1 = Some j) = (gc_gate s = Some j)"
      using own [OF assms(2)] assms(4-7) by (metis option.distinct(1) option.inject)+
    then show ?thesis using own [OF that] False by simp
  qed
  have b: "gc_append s1 = Some j \<or> gc_gate s1 = Some j \<Longrightarrow> j < length (gc_pcs s)" for j
    using locks_okD(3,4) [OF assms(1), of j] assms(2,4,5) by (auto split: if_splits)
  show ?thesis unfolding locks_ok_def
  proof (intro conjI allI impI)
    fix j assume "j < length (gc_pcs (goto i p s1))"
    then have "j < length (gc_pcs s)" using assms(3) by simp
    from a [OF this] show "(gc_append (goto i p s1) = Some j) = holds_append (gc_pcs (goto i p s1) ! j)"
      "(gc_gate (goto i p s1) = Some j) = holds_gate (gc_pcs (goto i p s1) ! j)" using assms(3) by simp_all
  next
    fix j assume "gc_append (goto i p s1) = Some j \<or> gc_gate (goto i p s1) = Some j"
    then show "j < length (gc_pcs (goto i p s1))" using b [of j] assms(3) by simp
  qed
qed

lemma gc_inv_step:
  assumes "gc_inv s" "i < length (gc_pcs s)" "gc_pcs s1 = gc_pcs s" "grows s s1"
    and "gc_shared s1" "pc_ok s1 p" "gc_flen s1 = gc_flen s \<or> gc_append s = None"
    and "gc_append s1 = (if holds_append p then Some i else if holds_append (gc_pcs s ! i) then None else gc_append s)"
    and "gc_gate s1 = (if holds_gate p then Some i else if holds_gate (gc_pcs s ! i) then None else gc_gate s)"
    and "holds_append p \<longrightarrow> gc_append s = None \<or> gc_append s = Some i" "holds_gate p \<longrightarrow> gc_gate s = None \<or> gc_gate s = Some i"
  shows "gc_inv (goto i p s1)"
proof -
  have lk: "locks_ok s" and ok: "\<forall>p\<in>set (gc_pcs s). pc_ok s p" using assms(1) by (simp_all add: gc_inv_def)
  have frame: "pc_ok (goto i p s1) p' = pc_ok s1 p'" for p' by (cases p') (simp_all add: known_def)
  have "pc_ok s1 p'" if p': "p' \<in> set ((gc_pcs s)[i := p])" for p'
  proof -
    consider "p' = p" | j where "j < length (gc_pcs s)" "j \<noteq> i" "p' = gc_pcs s ! j" using set_goto [OF p'] by blast
    then show ?thesis
    proof cases
      case 2
      have "(gc_append s = Some j) = holds_append p'" using 2 locks_okD(1) [OF lk 2(1)] by simp
      then have "holds_append p' \<longrightarrow> gc_flen s1 = gc_flen s" using assms(7) by force
      then show ?thesis using pc_ok_grows [OF assms(4)] ok 2 by simp
    qed (simp add: assms(6))
  qed
  moreover have "gc_shared (goto i p s1)" using assms(5) by (simp add: gc_shared_def)
  moreover have "locks_ok (goto i p s1)"
    by (rule locks_goto [OF lk assms(2,3,8-11)])
  ultimately show ?thesis using assms(3) frame by (simp add: gc_inv_def)
qed

lemma gc_step_inv:
  assumes "gc_step False s s'" "gc_inv s"
  shows "gc_inv s'"
proof -
  have sh: "gc_shared s" and lk: "locks_ok s" using assms(2) by (simp_all add: gc_inv_def)
  have ok: "pc_ok s (gc_pcs s ! i)" if "i < length (gc_pcs s)" for i using assms(2) that by (simp add: gc_inv_def)
  have own: "(gc_append s = Some i) = holds_append (gc_pcs s ! i)" "(gc_gate s = Some i) = holds_gate (gc_pcs s ! i)"
    if "i < length (gc_pcs s)" for i using locks_okD(1,2) [OF lk that] by blast+
  note step = gc_inv_step [OF assms(2)]
  from assms(1) show ?thesis
  proof (cases rule: gc_step.cases)
    case (append_ok i n)
    show ?thesis unfolding append_ok(1)
      by (rule step) (use append_ok sh own [of i] in \<open>auto simp: grows_def gc_shared_def trans_le_add1\<close>)
  next
    case (append_failed i n m k)
    show ?thesis unfolding append_failed(1)
      by (rule step) (use append_failed sh own [of i] in \<open>auto simp: grows_def gc_shared_def trans_le_add1\<close>)
  next
    case (publish i e)
    show ?thesis unfolding publish(1)
      by (rule step) (use publish sh own [of i] ok [of i] in \<open>auto simp: grows_def gc_shared_def known_def le_Suc_eq\<close>)
  next
    case (probe i q e)
    show ?thesis unfolding probe(1)
      by (rule step) (use probe sh own [of i] ok [of i] in \<open>auto simp: grows_def known_def\<close>)
  next
    case (already i q e t)
    show ?thesis unfolding already(1)
      by (rule step) (use already sh own [of i] ok [of i] in \<open>auto simp: grows_def known_def gc_shared_def intro: order_trans\<close>)
  next
    case (queue i q e t)
    show ?thesis unfolding queue(1)
      by (rule step) (use queue sh own [of i] ok [of i] in \<open>auto simp: grows_def known_def\<close>)
  next
    case (enter i q e t)
    show ?thesis unfolding enter(1)
      by (rule step) (use enter sh own [of i] ok [of i] in \<open>auto simp: grows_def known_def gc_shared_def\<close>)
  next
    case (cover i q e t)
    show ?thesis unfolding cover(1)
      by (rule step) (use cover sh own [of i] ok [of i] in \<open>auto simp: grows_def known_def\<close>)
  next
    case (skip i q e t c)
    show ?thesis unfolding skip(1)
      by (rule step) (use skip sh own [of i] ok [of i] in \<open>auto simp: grows_def known_def gc_shared_def intro: order_trans\<close>)
  next
    case (flush i q e t c)
    show ?thesis unfolding flush(1)
      by (rule step) (use flush sh own [of i] ok [of i] in \<open>auto simp: grows_def known_def gc_shared_def trans_le_add1\<close>)
  next
    case (flush_failed i q e t c m k)
    show ?thesis unfolding flush_failed(1)
      by (rule step) (use flush_failed sh own [of i] in \<open>auto simp: grows_def gc_shared_def trans_le_add1\<close>)
  next
    case (sync_start i q e t c)
    show ?thesis unfolding sync_start(1)
      by (rule step) (use sync_start sh own [of i] ok [of i] in \<open>auto simp: grows_def known_def gc_shared_def\<close>)
  next
    case (sync_done i q e t c start l)
    show ?thesis unfolding sync_done(1)
      by (rule step) (use sync_done sh own [of i] ok [of i] in \<open>auto simp: grows_def known_def gc_shared_def\<close>)
  next
    case (sync_failed i q e t c start)
    show ?thesis unfolding sync_failed(1)
      by (rule step) (use sync_failed sh own [of i] in \<open>auto simp: grows_def gc_shared_def\<close>)
  next
    case (ack i q e t c)
    show ?thesis unfolding ack(1)
      by (rule step) (use ack sh own [of i] ok [of i] in \<open>auto simp: grows_def known_def gc_shared_def max_def intro: order_trans\<close>)
  qed simp
qed

lemma gc_init_inv: "gc_inv (gc_init sizes)"
  by (auto simp: gc_inv_def gc_init_def gc_shared_def locks_ok_def)

lemma gc_run_inv: "gc_run False (gc_init sizes) n s \<Longrightarrow> gc_inv s"
  by (induction rule: gc_run.induct) (auto intro: gc_init_inv gc_step_inv)

section \<open>One fsync per batch\<close>

text \<open>A writer that is going to fsync covers more than has been synced, and nobody else moves \<open>gc_synced\<close> meanwhile.\<close>

fun ahead :: "nat \<Rightarrow> pc \<Rightarrow> bool" where
  "ahead k (Ready q e t c) \<longleftrightarrow> k < c"
| "ahead k (Syncing q e t c start) \<longleftrightarrow> k < c"
| "ahead k (Synced q e t c) \<longleftrightarrow> k < c"
| "ahead k _ \<longleftrightarrow> True"

definition fsyncs_counted :: "gc \<Rightarrow> bool" where
  "fsyncs_counted s \<longleftrightarrow> gc_fsyncs s \<le> gc_synced s \<and> (\<forall>p\<in>set (gc_pcs s). ahead (gc_synced s) p)"

lemma ahead_free: "\<not> holds_gate p \<Longrightarrow> ahead k p"
  by (cases p) simp_all

lemma fsyncs_counted_goto:
  assumes "fsyncs_counted s" "gc_fsyncs s1 = gc_fsyncs s" "gc_synced s1 = gc_synced s" "gc_pcs s1 = gc_pcs s" "ahead (gc_synced s) p"
  shows "fsyncs_counted (goto i p s1)"
  using assms by (auto simp: fsyncs_counted_def dest: set_update_subset_insert [THEN subsetD])

lemma gc_step_counted:
  assumes "gc_step False s s'" "gc_inv s" "fsyncs_counted s"
  shows "fsyncs_counted s'"
proof -
  have ah: "ahead (gc_synced s) (gc_pcs s ! i)" if "i < length (gc_pcs s)" for i using assms(3) that by (simp add: fsyncs_counted_def)
  from assms(1) show ?thesis
  proof (cases rule: gc_step.cases)
    case (ack i q e t c)
    have lk: "locks_ok s" using assms(2) by (simp add: gc_inv_def)
    have g: "gc_gate s = Some i" using locks_okD(2) [OF lk ack(2)] ack(3) by simp
    have c: "gc_synced s < c" using ah [OF ack(2)] ack(3) by simp
    have "ahead (max (gc_synced s) c) p" if p: "p \<in> set ((gc_pcs s)[i := Acked q e])" for p
    proof -
      consider "p = Acked q e" | j where "j < length (gc_pcs s)" "j \<noteq> i" "p = gc_pcs s ! j" using set_goto [OF p] by blast
      then show ?thesis
      proof cases
        case 2
        then have "\<not> holds_gate p" using locks_okD(2) [OF lk 2(1)] g by simp
        then show ?thesis by (rule ahead_free)
      qed simp
    qed
    moreover have "gc_fsyncs s + 1 \<le> max (gc_synced s) c" using c assms(3) by (simp add: fsyncs_counted_def)
    ultimately show ?thesis unfolding ack(1) by (simp add: fsyncs_counted_def)
  qed (use ah in \<open>fastforce intro!: fsyncs_counted_goto [OF assms(3)]\<close>)+
qed

lemma gc_init_counted: "fsyncs_counted (gc_init sizes)"
  by (auto simp: fsyncs_counted_def gc_init_def)

lemma gc_run_counted: "gc_run False (gc_init sizes) n s \<Longrightarrow> fsyncs_counted s"
  by (induction rule: gc_run.induct) (auto intro: gc_init_counted gc_step_counted gc_run_inv)

section \<open>Every run ends\<close>

text \<open>How far a writer is from its acknowledgement.\<close>

fun rank :: "pc \<Rightarrow> nat" where
  "rank (Appending _) = 10" | "rank (Flushed _) = 9" | "rank (Published _ _) = 8" | "rank (Probed _ _ _) = 7"
| "rank (Queued _ _ _) = 6" | "rank (Gated _ _ _) = 5" | "rank (Covering _ _ _ _) = 4" | "rank (Ready _ _ _ _) = 3"
| "rank (Syncing _ _ _ _ _) = 2" | "rank (Synced _ _ _ _) = 1" | "rank (Acked _ _) = 0" | "rank Failed = 0"

definition work :: "gc \<Rightarrow> nat" where
  "work s = sum_list (map rank (gc_pcs s))"

lemma work_zero: "\<forall>p\<in>set (gc_pcs s). rank p = 0 \<Longrightarrow> work s = 0"
  by (simp add: work_def)

lemma rank_update:
  "i < length ps \<Longrightarrow> rank p < rank (ps ! i) \<Longrightarrow> sum_list (map rank (ps[i := p])) < sum_list (map rank ps)"
  by (induction ps arbitrary: i) (auto split: nat.splits)

lemma gc_step_work: "gc_step False s s' \<Longrightarrow> work s' < work s"
  by (erule gc_step.cases) (simp_all add: work_def rank_update)

lemma gc_run_length: "gc_run False s0 n s \<Longrightarrow> n + work s \<le> work s0"
  by (induction rule: gc_run.induct) (auto dest: gc_step_work)

lemma gc_progress:
  assumes "gc_inv s" "p \<in> set (gc_pcs s)" "rank p > 0"
  shows "\<exists>s'. gc_step False s s'"
proof -
  have lk: "locks_ok s" using assms(1) by (simp add: gc_inv_def)
  consider (app) i where "gc_append s = Some i" | (gate) i where "gc_append s = None" "gc_gate s = Some i"
    | (free) "gc_append s = None" "gc_gate s = None" by (metis option.exhaust)
  then show ?thesis
  proof cases
    case (app i)
    then have "i < length (gc_pcs s)" "holds_append (gc_pcs s ! i)" using locks_okD(1,3) [OF lk] by blast+
    then show ?thesis using app by (cases "gc_pcs s ! i") (auto intro: gc_step.publish)
  next
    case (gate i)
    then have i: "i < length (gc_pcs s)" "holds_gate (gc_pcs s ! i)" using locks_okD(2,4) [OF lk] by blast+
    show ?thesis
    proof (cases "gc_pcs s ! i")
      case (Covering q e t c)
      then show ?thesis using i gate by (cases "c \<le> gc_synced s") (auto simp: not_le intro: gc_step.skip gc_step.flush)
    qed (use i in \<open>auto intro: gc_step.cover gc_step.sync_start gc_step.sync_failed gc_step.ack\<close>)
  next
    case free
    obtain i where i: "i < length (gc_pcs s)" "gc_pcs s ! i = p" using assms(2) by (auto simp: in_set_conv_nth)
    have "\<not> holds_append p" "\<not> holds_gate p" using locks_okD(1,2) [OF lk i(1)] i(2) free by auto
    then show ?thesis using assms(3) i free
    proof (cases p)
      case (Probed q e t)
      then show ?thesis using i by (cases "t \<le> gc_synced s") (auto simp: not_le intro: gc_step.already gc_step.queue)
    qed (auto intro: gc_step.append_ok gc_step.probe gc_step.enter)
  qed
qed

section \<open>Running a schedule\<close>

text \<open>The step of thread \<open>i\<close>; \<open>ok\<close> says whether a system call succeeds, \<open>l\<close> how far a write or an fsync got.\<close>

definition gc_next :: "nat \<Rightarrow> bool \<Rightarrow> nat \<Rightarrow> gc \<Rightarrow> gc option" where
  "gc_next i ok l s =
     (if i \<ge> length (gc_pcs s) then None
      else case gc_pcs s ! i of
        Appending n \<Rightarrow>
          if gc_append s \<noteq> None then None
          else if ok then Some (goto i (Flushed (gc_flen s + gc_buf s + n))
            (s\<lparr>gc_flen := gc_flen s + gc_buf s + n, gc_buf := 0, gc_append := Some i\<rparr>))
          else if l \<le> gc_buf s + n then Some (goto i Failed (s\<lparr>gc_flen := gc_flen s + l, gc_buf := gc_buf s + n - l\<rparr>))
          else None
      | Flushed e \<Rightarrow>
          if gc_append s \<noteq> Some i then None
          else Some (goto i (Published (gc_seq s + 1) e)
            (s\<lparr>gc_seq := gc_seq s + 1, gc_upto := (gc_upto s)(gc_seq s + 1 := e), gc_append := None\<rparr>))
      | Published q e \<Rightarrow> Some (goto i (Probed q e (gc_seq s)) s)
      | Probed q e t \<Rightarrow> if gc_synced s \<ge> t then Some (goto i (Acked q e) s) else Some (goto i (Queued q e t) s)
      | Queued q e t \<Rightarrow> if gc_gate s \<noteq> None then None else Some (goto i (Gated q e t) (s\<lparr>gc_gate := Some i\<rparr>))
      | Gated q e t \<Rightarrow> Some (goto i (Covering q e t (gc_seq s)) s)
      | Covering q e t c \<Rightarrow>
          if gc_synced s \<ge> c then Some (goto i (Acked q e) (s\<lparr>gc_gate := None\<rparr>))
          else if gc_append s \<noteq> None then None
          else if ok then Some (goto i (Ready q e t c) (s\<lparr>gc_flen := gc_flen s + gc_buf s, gc_buf := 0\<rparr>))
          else if l \<le> gc_buf s
          then Some (goto i Failed (s\<lparr>gc_flen := gc_flen s + l, gc_buf := gc_buf s - l, gc_gate := None\<rparr>)) else None
      | Ready q e t c \<Rightarrow> Some (goto i (Syncing q e t c (gc_flen s)) s)
      | Syncing q e t c start \<Rightarrow>
          if \<not> ok then Some (goto i Failed (s\<lparr>gc_gate := None\<rparr>))
          else if start \<le> l \<and> l \<le> gc_flen s then Some (goto i (Synced q e t c) (s\<lparr>gc_durable := max (gc_durable s) l\<rparr>))
          else None
      | Synced q e t c \<Rightarrow> Some (goto i (Acked q e)
          (s\<lparr>gc_synced := max (gc_synced s) c, gc_fsyncs := gc_fsyncs s + 1, gc_gate := None\<rparr>))
      | Acked q e \<Rightarrow> None
      | Failed \<Rightarrow> None)"

lemma gc_next_step:
  assumes "gc_next i ok l s = Some s'"
  shows "gc_step rw s s'"
proof -
  have i: "i < length (gc_pcs s)" using assms by (auto simp: gc_next_def split: if_splits)
  note defn = gc_next_def not_le
  show ?thesis
  proof (cases "gc_pcs s ! i")
    case (Appending n)
    then show ?thesis
      using assms gc_step.append_ok [OF i, of n rw] gc_step.append_failed [OF i, of n l "gc_buf s + n - l" rw] i
      by (cases ok) (auto simp: defn split: if_splits)
  next
    case (Flushed e)
    then show ?thesis using assms gc_step.publish [OF i, of e rw] i by (auto simp: defn split: if_splits)
  next
    case (Published q e)
    then show ?thesis using assms gc_step.probe [OF i, of q e rw] i by (auto simp: defn)
  next
    case (Probed q e t)
    then show ?thesis using assms gc_step.already [OF i, of q e t rw] gc_step.queue [OF i, of q e t rw] i
      by (cases "t \<le> gc_synced s") (auto simp: defn)
  next
    case (Queued q e t)
    then show ?thesis using assms gc_step.enter [OF i, of q e t rw] i by (auto simp: defn split: if_splits)
  next
    case (Gated q e t)
    then show ?thesis using assms gc_step.cover [OF i, of q e t rw] i by (auto simp: defn)
  next
    case (Covering q e t c)
    then show ?thesis
      using assms gc_step.skip [OF i, of q e t c rw] gc_step.flush [OF i, of q e t c rw]
        gc_step.flush_failed [OF i, of q e t c l "gc_buf s - l" rw] i
      by (cases "c \<le> gc_synced s"; cases ok) (auto simp: defn split: if_splits)
  next
    case (Ready q e t c)
    then show ?thesis using assms gc_step.sync_start [OF i, of q e t c rw] i by (auto simp: defn)
  next
    case (Syncing q e t c start)
    then show ?thesis
      using assms gc_step.sync_done [OF i, of q e t c start l rw] gc_step.sync_failed [OF i, of q e t c start rw] i
      by (cases ok) (auto simp: defn split: if_splits)
  next
    case (Synced q e t c)
    then show ?thesis using assms gc_step.ack [OF i, of q e t c rw] i by (auto simp: defn)
  qed (use assms in \<open>auto simp: defn split: if_splits\<close>)
qed

fun gc_schedule :: "(nat \<times> bool \<times> nat) list \<Rightarrow> gc \<Rightarrow> gc option" where
  "gc_schedule [] s = Some s"
| "gc_schedule ((i, ok, l) # cs) s = Option.bind (gc_next i ok l s) (gc_schedule cs)"

lemma gc_schedule_run:
  "gc_run rw s0 n s \<Longrightarrow> gc_schedule cs s = Some s' \<Longrightarrow> gc_run rw s0 (n + length cs) s'"
proof (induction cs arbitrary: n s)
  case (Cons c cs)
  obtain i ok l where c: "c = (i, ok, l)" by (cases c)
  with Cons.prems(2) obtain s1 where "gc_next i ok l s = Some s1" "gc_schedule cs s1 = Some s'"
    by (auto simp: bind_eq_Some_conv)
  then show ?case using Cons.IH [OF run_Suc [OF Cons.prems(1) gc_next_step]] by simp
qed simp

end
