(* ===== verification/Concurrency_Claims.thy ===== *)
theory Concurrency_Claims
  imports Group_Commit Lifecycle Samples
begin

text \<open>
  Properties of the threads: the group commit under every interleaving of its writers, the shutdown of the tasks and
  background threads, the accept loop and the end of the process, with the runs that witness them.
\<close>

section \<open>Schedules\<close>

lemmas schedule_eval = gc_init_def gc_next_def

text \<open>Two writers: both append before the first fsync starts, so one barrier serves both.\<close>

definition shared_barrier :: "(nat \<times> bool \<times> nat) list" where
  "shared_barrier =
     [(0, True, 0), (0, True, 0), (1, True, 0), (1, True, 0), (0, True, 0), (0, True, 0), (1, True, 0), (0, True, 0),
      (0, True, 0), (0, True, 0), (0, True, 0), (0, True, 8), (0, True, 0), (1, True, 0)]"

lemma shared_barrier_run:
  "\<exists>s. gc_run False (gc_init [5, 3]) 14 s \<and> gc_pcs s = [Acked 1 5, Acked 2 8] \<and> gc_fsyncs s = 1"
proof -
  obtain s where s: "gc_schedule shared_barrier (gc_init [5, 3]) = Some s" "gc_pcs s = [Acked 1 5, Acked 2 8]" "gc_fsyncs s = 1"
    by (simp add: shared_barrier_def schedule_eval)
  have "gc_run False (gc_init [5, 3]) (0 + length shared_barrier) s" by (rule gc_schedule_run [OF run_0 s(1)])
  moreover have "0 + length shared_barrier = 14" by (simp add: shared_barrier_def)
  ultimately show ?thesis using s by auto
qed

section \<open>Durability\<close>



section \<open>Termination\<close>

text \<open>C11: The group commit ends: a run of any number of writers has at most ten steps for each, and it stops only when
  every writer has been acknowledged or has failed, so no writer waits for ever on the append lock or on the gate.\<close>

theorem group_commit_ends:
  assumes "gc_run False (gc_init sizes) n s"
  shows "n \<le> 10 * length sizes
    \<and> ((\<nexists>s'. gc_step False s s') \<longleftrightarrow> (\<forall>p\<in>set (gc_pcs s). (\<exists>q e. p = Acked q e) \<or> p = Failed))"
proof
  have "work (gc_init sizes) = 10 * length sizes" by (induction sizes) (simp_all add: work_def gc_init_def)
  then show "n \<le> 10 * length sizes" using gc_run_length [OF assms] by simp
  have rank0: "rank p = 0 \<longleftrightarrow> (\<exists>q e. p = Acked q e) \<or> p = Failed" for p by (cases p) simp_all
  have "\<not> gc_step False s s'" if "\<forall>p\<in>set (gc_pcs s). rank p = 0" for s'
    using gc_step_work [of s s'] that by (metis work_zero not_less_zero)
  then show "(\<nexists>s'. gc_step False s s') \<longleftrightarrow> (\<forall>p\<in>set (gc_pcs s). (\<exists>q e. p = Acked q e) \<or> p = Failed)"
    using gc_progress [OF gc_run_inv [OF assms]] rank0 by (metis gr0I)
qed

theorem group_commit_ends_witness:
  "\<exists>s. gc_run False (gc_init [5, 3]) 14 s \<and> (\<nexists>s'. gc_step False s s')"
proof -
  obtain s where s: "gc_run False (gc_init [5, 3]) 14 s" "gc_pcs s = [Acked 1 5, Acked 2 8]"
    using shared_barrier_run by blast
  show ?thesis using group_commit_ends [OF s(1)] s by (intro exI [of _ s]) simp
qed

section \<open>The handle swap\<close>

text \<open>The barrier of thread 0 returns from its fsync, the rewrite swaps the file and resets both counters, and only then
  does thread 0 raise \<^verbatim>\<open>synced\<close>; the next writer finds its number already covered.\<close>

definition race_before :: "(nat \<times> bool \<times> nat) list" where
  "race_before = [(0, True, 0), (0, True, 0), (0, True, 0), (0, True, 0), (0, True, 0), (0, True, 0), (0, True, 0),
     (0, True, 0), (0, True, 5)]"

definition race_after :: "(nat \<times> bool \<times> nat) list" where
  "race_after = [(0, True, 0), (1, True, 0), (1, True, 0), (1, True, 0), (1, True, 0)]"

lemma race_runs:
  "\<exists>s. gc_schedule race_before (gc_init [5, 3]) = Some s \<and> gc_pcs s = [Synced 1 5 1 1, Appending 3] \<and> gc_append s = None
     \<and> (\<exists>s'. gc_schedule race_after (s\<lparr>gc_flen := 4, gc_buf := 0, gc_durable := 4, gc_seq := 0, gc_synced := 0\<rparr>) = Some s'
         \<and> gc_pcs s' = [Acked 1 5, Acked 1 7] \<and> gc_durable s' = 4 \<and> gc_gate s' = None)"
  by (simp add: race_before_def race_after_def schedule_eval)

text \<open>C31: A rewrite that completes between another writer's fsync and its update of synced breaks the promise
  of appendfsync always: a later writer is acknowledged while its bytes are not on disk and no fsync is
  under way.\<close>

theorem rewrite_race_acks_early:
  "\<exists>n s q e. gc_run True (gc_init [5, 3]) n s \<and> gc_pcs s ! 1 = Acked q e \<and> gc_durable s < e \<and> gc_gate s = None"
proof -
  obtain s s' where s: "gc_schedule race_before (gc_init [5, 3]) = Some s" "gc_pcs s = [Synced 1 5 1 1, Appending 3]" "gc_append s = None"
    and s': "gc_schedule race_after (s\<lparr>gc_flen := 4, gc_buf := 0, gc_durable := 4, gc_seq := 0, gc_synced := 0\<rparr>) = Some s'"
      "gc_pcs s' = [Acked 1 5, Acked 1 7]" "gc_durable s' = 4" "gc_gate s' = None"
    using race_runs by blast
  have swap: "gc_step True s (s\<lparr>gc_flen := 4, gc_buf := 0, gc_durable := 4, gc_seq := 0, gc_synced := 0\<rparr>)"
    by (rule gc_step.swap) (use s in simp_all)
  have "gc_run True (gc_init [5, 3]) (Suc (0 + length race_before) + length race_after) s'"
    by (rule gc_schedule_run [OF run_Suc [OF gc_schedule_run [OF run_0 s(1)] swap] s'(1)])
  then show ?thesis using s'(2-4)
    by (intro exI [of _ "Suc (0 + length race_before) + length race_after"] exI [of _ s'] exI [of _ 1] exI [of _ 7] conjI)
      simp_all
qed

section \<open>Shutdown\<close>

text \<open>A counter of notifications behaves as documented: a future remembers the count it was created at.\<close>

definition counting_notify :: "(nat, nat) notify" where
  "counting_notify = \<lparr>n_new = 0, n_notified = (\<lambda>n. (n, n)), n_notify_waiters = Suc, n_ready = (<)\<rparr>"

lemma counting_notify_laws: "notify_laws counting_notify"
proof -
  have later: "n \<le> n'" if "n_later counting_notify n n'" for n n' :: nat
    using that by (induction rule: n_later.induct) (auto simp: counting_notify_def)
  have quiet: "n = 0" if "n_quiet counting_notify n" for n :: nat
    using that by (induction rule: n_quiet.induct) (auto simp: counting_notify_def)
  have "n_ready counting_notify w (n_notify_waiters counting_notify n2)"
    if "n_notified counting_notify n = (w, n1)" "n_later counting_notify n1 n2" for n w n1 n2
    using later [OF that(2)] that(1) by (simp add: counting_notify_def)
  moreover have "n_ready counting_notify w n1" if "n_ready counting_notify w n" "n_later counting_notify n n1" for w n n1
    using later [OF that(2)] that(1) by (simp add: counting_notify_def)
  moreover have "\<not> n_ready counting_notify w n" if "n_quiet counting_notify n" for w n
    using quiet [OF that] by (simp add: counting_notify_def)
  ultimately show ?thesis unfolding notify_laws_def by blast
qed

text \<open>C17: A shutdown reaches everybody: however the accept loop, the connections and the triggers interleave, and
  however often select! drops and restarts a future, no task passes the shutdown point before the flag is set,
  and once a trigger has completed every poll of a task brings it nearer to passing it, in two polls at most. In
  particular no task stays parked on a wake-up that has already happened.\<close>

theorem shutdown_wakes_everyone:
  assumes "notify_laws N" "sd_reachable N waiters triggers s"
  shows "(Released \<in> set (sd_waiters s) \<longrightarrow> sd_flag s) \<and>
    (Notified \<in> set (sd_triggers s) \<longrightarrow> (\<forall>t\<in>set (sd_waiters s). t \<noteq> Released \<longrightarrow>
       polls_left (fst (waiter_next N (sd_flag s) (sd_notify s) t)) < polls_left t))"
proof -
  have inv: "sd_inv N s" using assms(2,1) by (rule sd_reachable_inv)
  then have "Released \<in> set (sd_waiters s) \<longrightarrow> sd_flag s" by (auto simp: sd_inv_def waiter_ok_def)
  then show ?thesis using triggered_polls [OF inv] by blast
qed

theorem shutdown_wakes_everyone_witness:
  "\<exists>s. sd_reachable counting_notify 1 1 s \<and> sd_waiters s = [Parked 0] \<and> Notified \<in> set (sd_triggers s)
     \<and> polls_left (fst (waiter_next counting_notify (sd_flag s) (sd_notify s) (Parked 0))) = 0"
proof -
  let ?N = counting_notify
  let ?st = "\<lambda>flag n t tr. \<lparr>sd_flag = flag, sd_notify = n, sd_waiters = [t], sd_triggers = [tr]\<rparr> :: (nat, nat) shutdown"
  have r0: "sd_reachable ?N 1 1 (?st False 0 Probing Untriggered)"
    using sd_start [of ?N 1 1] by (simp add: shutdown_new_def counting_notify_def)
  have s1: "sd_step ?N (?st False 0 Probing Untriggered) (?st False 0 Arming Untriggered)"
    using sd_step.poll [of 0 "?st False 0 Probing Untriggered" ?N] by (simp add: counting_notify_def)
  have s2: "sd_step ?N (?st False 0 Arming Untriggered) (?st False 0 (Rechecking 0) Untriggered)"
    using sd_step.poll [of 0 "?st False 0 Arming Untriggered" ?N] by (simp add: counting_notify_def)
  have s3: "sd_step ?N (?st False 0 (Rechecking 0) Untriggered) (?st False 0 (Parked 0) Untriggered)"
    using sd_step.poll [of 0 "?st False 0 (Rechecking 0) Untriggered" ?N] by (simp add: counting_notify_def)
  have s4: "sd_step ?N (?st False 0 (Parked 0) Untriggered) (?st True 0 (Parked 0) Stored)"
    using sd_step.store [of 0 "?st False 0 (Parked 0) Untriggered" ?N] by simp
  have s5: "sd_step ?N (?st True 0 (Parked 0) Stored) (?st True 1 (Parked 0) Notified)"
    using sd_step.wake [of 0 "?st True 0 (Parked 0) Stored" ?N] by (simp add: counting_notify_def)
  have r: "sd_reachable ?N 1 1 (?st True 1 (Parked 0) Notified)"
    by (rule sd_more [OF sd_more [OF sd_more [OF sd_more [OF sd_more [OF r0 s1] s2] s3] s4] s5])
  from shutdown_wakes_everyone [OF counting_notify_laws r] show ?thesis
    by (intro exI [of _ "?st True 1 (Parked 0) Notified"] conjI r) simp_all
qed

definition server_args :: cli_args where
  "server_args = \<lparr>ca_addr = ''127.0.0.1:6380'', ca_aof_path = None, ca_appendfsync = None, ca_client_timeout = None,
     ca_max_clients = None, ca_loglevel = None, ca_max_memory = None, ca_max_memory_policy = None,
     ca_max_memory_samples = None, ca_requirepass = None, ca_io_threads = None, ca_dashboard_addr = None,
     ca_dashboard_token = None\<rparr>"

text \<open>C18: main returns exactly when the server stops and, if a sweeper was started, the shutdown flag is set at one of
  the sweeper's checks. A listener that fails to start does not set the flag, so without a signal the process waits
  for its sweeper for ever instead of reporting the error through its exit code.\<close>

theorem main_returns_iff:
  assumes "mi_bind io" "mi_local_addr io" "mi_signals io"
  shows "(\<exists>code. main_serve io args es (run_sweeper triggered vs others sample s) = Some code) \<longleftrightarrow>
     run_listener io (server_config_of args) es \<noteq> None \<and> (mi_sweeper io \<longrightarrow> (\<exists>k. triggered k))"
proof -
  have "run_sweeper triggered vs others sample s = None \<longleftrightarrow> (\<nexists>k. triggered k)"
    using poll_loop_returns [of triggered "\<lambda>k s. others k (sweep_tick (vs k) sample s)" 0 s]
    by (auto simp: run_sweeper_def)
  then show ?thesis using assms by (auto simp: main_serve_def split: option.splits sum.splits)
qed

theorem main_returns_iff_witness:
  "let io = \<lparr>mi_bind = True, mi_local_addr = True, mi_signals = True, mi_sweeper = True, mi_nonblocking = True,
        mi_runtime = False, mi_from_std = True\<rparr>
   in run_listener io (server_config_of server_args) [] = Some (Err (Internal ''failed to build tokio runtime''))
      \<and> main_serve io server_args [] (run_sweeper (\<lambda>_. False) (\<lambda>_. env_at) (\<lambda>_ s. s) DEFAULT_SAMPLE engine0) = None
      \<and> (\<exists>code. main_serve io server_args [] (run_sweeper (\<lambda>k. k = 3) (\<lambda>_. env_at) (\<lambda>_ s. s) DEFAULT_SAMPLE engine0) = Some code)"
proof -
  let ?io = "\<lparr>mi_bind = True, mi_local_addr = True, mi_signals = True, mi_sweeper = True, mi_nonblocking = True,
        mi_runtime = False, mi_from_std = True\<rparr>"
  have l: "run_listener ?io (server_config_of server_args) [] = Some (Err (Internal ''failed to build tokio runtime''))"
    by (simp add: run_listener_def)
  have "main_serve ?io server_args [] (run_sweeper (\<lambda>_. False) (\<lambda>_. env_at) (\<lambda>_ s. s) DEFAULT_SAMPLE engine0) = None"
    using main_returns_iff [of ?io server_args "[]" "\<lambda>_. False" "\<lambda>_. env_at" "\<lambda>_ s. s" DEFAULT_SAMPLE engine0] by simp
  moreover have "\<exists>code. main_serve ?io server_args [] (run_sweeper (\<lambda>k. k = 3) (\<lambda>_. env_at) (\<lambda>_ s. s) DEFAULT_SAMPLE engine0) = Some code"
    using main_returns_iff [of ?io server_args "[]" "\<lambda>k. k = 3" "\<lambda>_. env_at" "\<lambda>_ s. s" DEFAULT_SAMPLE engine0] l by simp
  ultimately show ?thesis using l by (simp add: Let_def)
qed





end
