(* ===== verification/Client_Link.thy ===== *)
theory Client_Link
  imports Conversation
begin

text \<open>
  A blocking client at the other end of a connection, the way the client programs of \<^verbatim>\<open>src/examples\<close> use it: a
  request is written in one \<^verbatim>\<open>write_all\<close>, the server serves it before the client reads, and the bytes it has
  sent wait in the socket until the client takes them. A server that has closed the connection fails every later
  write; a read that finds too few bytes fails (end of file or the read time-out). The reply to one data
  command is found whole in the socket, and what the command did to the engine is the abstract step.
\<close>

section \<open>The socket of a client\<close>

record link =
  l_conn :: conn
  l_open :: bool
  l_unread :: bytes

definition link_new :: link where
  "link_new = \<lparr>l_conn = conn_new, l_open = True, l_unread = []\<rparr>"

definition link_send :: "'f conn_env \<Rightarrow> bytes \<Rightarrow> link \<Rightarrow> engine \<Rightarrow> (link \<times> engine) option" where
  "link_send x frame l s =
     (if l_open l then
        (case on_read x frame (l_conn l) s of
           (r, c, s') \<Rightarrow>
             Some (\<lparr>l_conn = c, l_open = (r = None),
                    l_unread = l_unread l @ drop (length (c_sent (l_conn l))) (c_sent c)\<rparr>, s'))
      else None)"

text \<open>\<^verbatim>\<open>Read::read_exact\<close>: all the bytes asked for, or an error.\<close>

definition read_exact :: "nat \<Rightarrow> bytes \<Rightarrow> (bytes \<times> bytes) option" where
  "read_exact n bs = (if n \<le> length bs then Some (take n bs, drop n bs) else None)"

lemma read_exact_append [simp]: "length b = n \<Longrightarrow> read_exact n (b @ rest) = Some (b, rest)"
  by (simp add: read_exact_def)

lemma read_exact_Cons [simp]: "read_exact (Suc 0) (b # rest) = Some ([b], rest)" "read_exact (Suc n) [] = None"
  by (simp_all add: read_exact_def)

section \<open>One round trip\<close>

text \<open>A connection between two requests of a client that waits for every reply.\<close>

definition link_idle :: "link \<Rightarrow> bool" where
  "link_idle l \<longleftrightarrow> l_open l \<and> l_unread l = [] \<and> c_inbuf (l_conn l) = [] \<and> c_outbuf (l_conn l) = []
     \<and> c_version (l_conn l) = Resp2"

lemma link_idle_new [simp]: "link_idle link_new"
  by (simp add: link_idle_def link_new_def conn_new_def)

lemma drain_one:
  assumes "conn_frame x c s = Next c1 s1" "c_inbuf c1 = []"
  shows "drain x c s = (None, c1, s1)"
proof -
  have "conn_frame x c1 s1 = Done None c1 s1" using assms(2) by (simp add: conn_frame_def parse_frame_def)
  then show ?thesis using assms(1) by (simp add: drain.simps [of x c s] drain.simps [of x c1 s1])
qed

text \<open>The frame of a command that is neither \<^verbatim>\<open>AUTH\<close>, \<^verbatim>\<open>HELLO\<close> nor \<^verbatim>\<open>MONITOR\<close> on a connection that may execute it.\<close>

lemma link_round_trip:
  assumes ok: "\<forall>i. x_write_ok x i" and l: "link_idle l"
    and p: "parse_frame (f_parse (pf_f64 (x_platform x))) frame = Ok (Complete cmd (length frame))"
    and plain: "\<And>pw. cmd \<noteq> Auth pw" "\<And>v. cmd \<noteq> Hello v" "cmd \<noteq> Monitor"
    and auth: "c_authed (l_conn l) \<or> \<not> e_auth_required s"
    and ex: "execute_command (x_platform x) (x_calls x (c_frames (l_conn l))) (Some (x_peer x)) Resp2 cmd s
      = ((out, msg), s1)"
  shows "\<exists>l'. link_send x frame l s = Some (l', s1) \<and> link_idle (l'\<lparr>l_unread := []\<rparr>) \<and> l_unread l' = out
    \<and> c_frames (l_conn l') = c_frames (l_conn l) + 1 \<and> c_authed (l_conn l') = c_authed (l_conn l)"
proof -
  let ?c = "l_conn l"
  have c: "l_open l" "l_unread l = []" "c_inbuf ?c = []" "c_outbuf ?c = []" "c_version ?c = Resp2"
    using l by (simp_all add: link_idle_def)
  let ?d = "?c\<lparr>c_inbuf := c_inbuf ?c @ frame\<rparr>"
  have h: "handle_command x cmd ?d s =
      (put_out out (?d\<lparr>c_broadcast := c_broadcast ?c @ (case msg of None \<Rightarrow> [] | Some m \<Rightarrow> [m])\<rparr>), s1)"
    using ex auth c plain by (cases cmd) (auto simp: handle_command_def)
  have "\<exists>c1. conn_frame x ?d s = Next c1 s1 \<and> c_inbuf c1 = [] \<and> c_sent c1 @ c_outbuf c1 = c_sent ?c @ out
      \<and> c_version c1 = Resp2 \<and> c_frames c1 = c_frames ?c + 1 \<and> c_authed c1 = c_authed ?c"
    using p h plain(3) ok c by (simp add: conn_frame_def after_frame_def write_all_def put_out_def Let_def)
  then obtain c1 where c1: "conn_frame x ?d s = Next c1 s1" "c_inbuf c1 = []"
    "c_sent c1 @ c_outbuf c1 = c_sent ?c @ out" "c_version c1 = Resp2" "c_frames c1 = c_frames ?c + 1"
    "c_authed c1 = c_authed ?c" by blast
  note d = drain_one [OF c1(1,2)]
  obtain c2 where c2: "on_read x frame ?c s = (None, c2, s1)" "c_outbuf c2 = []" "c_sent c2 = c_sent ?c @ out"
    "c_inbuf c2 = []" "c_version c2 = Resp2" "c_frames c2 = c_frames ?c + 1" "c_authed c2 = c_authed ?c"
    using c1 d ok by (cases "c_outbuf c1 = []") (auto simp: on_read_def write_all_def)
  show ?thesis using c c2 by (simp add: link_send_def link_idle_def)
qed

text \<open>A data command is one operation of the engine; only the slow log changes besides.\<close>

lemma op_round_trip:
  assumes ok: "\<forall>i. x_write_ok x i" and l: "link_idle l" and auth: "\<not> e_auth_required s"
    and p: "parse_frame (f_parse (pf_f64 (x_platform x))) frame = Ok (Complete cmd (length frame))"
    and d: "data_command cmd" and g: "good (False, cfg) s"
    and o: "command_op (x_calls x (c_frames (l_conn l))) cmd = Some (v, v2, op)" and h: "headroom s (op_bytes op)"
    and run: "run_op v v2 op (counted_call s) = (r, s1)"
  shows "\<exists>l' sl sq. link_send x frame l s = Some (l', s1\<lparr>e_slowlog := sl, e_slowlog_seq := sq\<rparr>)
    \<and> link_idle (l'\<lparr>l_unread := []\<rparr>) \<and> l_unread l' = reply_bytes Resp2 cmd r
    \<and> c_frames (l_conn l') = c_frames (l_conn l) + 1 \<and> good (False, cfg) s1 \<and> \<not> e_auth_required s1"
proof -
  let ?ex = "execute_command (x_platform x) (x_calls x (c_frames (l_conn l))) (Some (x_peer x)) Resp2 cmd s"
  obtain out msg s2 where ex: "?ex = ((out, msg), s2)" by (metis prod_cases3 prod.collapse)
  obtain sl sq where s2: "s2 = s1\<lparr>e_slowlog := sl, e_slowlog_seq := sq\<rparr>"
    using execute_data(2) [OF o, of "x_platform x" "Some (x_peer x)" Resp2 s] run ex by auto
  have "headroom (counted_call s) (op_bytes op)" "good (False, cfg) (counted_call s)"
    using h g by (simp_all add: headroom_def)
  from run_op_good [OF this(2,1), of v v2] have gd: "good (False, cfg) s1" using run by simp
  have out: "out = reply_bytes Resp2 cmd r"
    using execute_data(1) [OF o, of "x_platform x" "Some (x_peer x)" Resp2 s] run ex by simp
  have "\<not> e_auth_required s2" using execute_data_auth [OF d, of "x_platform x" _ "Some (x_peer x)" Resp2 s] ex auth
    by (metis snd_conv)
  then have "\<not> e_auth_required s1" using s2 by simp
  moreover have "\<exists>l'. link_send x frame l s = Some (l', s2) \<and> link_idle (l'\<lparr>l_unread := []\<rparr>) \<and> l_unread l' = out
    \<and> c_frames (l_conn l') = c_frames (l_conn l) + 1 \<and> c_authed (l_conn l') = c_authed (l_conn l)"
    using data_command_not [OF d] by (intro link_round_trip [OF ok l p _ _ _ _ ex]) (use auth in auto)
  ultimately show ?thesis using gd out s2 by blast
qed

text \<open>Without a memory limit its reply and the new keyspace are those of the abstract step.\<close>

lemma data_round_trip:
  assumes ok: "\<forall>i. x_write_ok x i" and l: "link_idle l" and auth: "\<not> e_auth_required s"
    and p: "parse_frame (f_parse (pf_f64 (x_platform x))) frame = Ok (Complete cmd (length frame))"
    and d: "data_command cmd" and g: "good (False, cfg) s" "max_memory cfg = 0"
    and o: "command_op (x_calls x (c_frames (l_conn l))) cmd = Some (v, v2, op)"
    and t: "env_ok v" "t \<le> now v" "now v \<le> now v2" "headroom s (op_bytes op)"
    and spec: "spec_step v op (expire_to (now v) (view t s)) = (r, m)"
  shows "\<exists>l' s1. link_send x frame l s = Some (l', s1) \<and> link_idle (l'\<lparr>l_unread := []\<rparr>)
    \<and> l_unread l' = reply_bytes Resp2 cmd r \<and> c_frames (l_conn l') = c_frames (l_conn l) + 1
    \<and> good (False, cfg) s1 \<and> \<not> e_auth_required s1 \<and> view (now v) s1 = m
    \<and> e_store s1 = e_store (snd (run_op v v2 op (counted_call s)))"
proof -
  obtain r' s1 where run: "run_op v v2 op (counted_call s) = (r', s1)" by (metis prod.exhaust)
  have gc: "good (False, cfg) (counted_call s)" using g(1) by simp
  have "map_prod id (view (now v)) (run_op v v2 op (counted_call s)) = spec_step v op (view (now v) s)"
    using run_op_refines_spec [of "counted_call s" v v2 op] gc g(2) t by (simp add: good_def unlimited_def)
  then have "r' = r" "view (now v) s1 = m" using run spec expire_to_vw [OF t(2)] by auto
  then show ?thesis using op_round_trip [OF ok l auth p d g(1) o t(4) run] run by auto
qed

end
