(* ===== verification/Load_Gen.thy ===== *)
theory Load_Gen
  imports Client_Link
begin

text \<open>
  Models \<^verbatim>\<open>src/examples/load_gen.rs\<close>, the load generator: its command line, the requests it builds, the reader of
  replies, the worker threads of a phase and \<^verbatim>\<open>main\<close>. The workers run against the server of the model: a phase is
  a schedule, a list of the worker that performs its next round trip. Whether a connection is established is an
  input of the phase. Timing, the printed report and the memory of the receive buffer are left out.
\<close>

section \<open>The command line\<close>

record load_config =
  lg_addr :: bytes
  lg_clients :: nat
  lg_requests :: nat
  lg_value_size :: nat

definition load_config_default :: load_config where
  "load_config_default = \<lparr>lg_addr = ''127.0.0.1:6399'', lg_clients = 50, lg_requests = 100000, lg_value_size = 64\<rparr>"

text \<open>\<^verbatim>\<open>str::parse\<close> for \<^verbatim>\<open>usize\<close>, with the text of its error.\<close>

fun usize_digits :: "nat \<Rightarrow> bytes \<Rightarrow> string + nat" where
  "usize_digits acc [] = Ok acc"
| "usize_digits acc (c # cs) =
     (if \<not> is_digit c then Err ''invalid digit found in string''
      else if acc * 10 + digit_val c > u64_max then Err ''number too large to fit in target type''
      else usize_digits (acc * 10 + digit_val c) cs)"

definition lg_parse_usize :: "bytes \<Rightarrow> string + nat" where
  "lg_parse_usize s =
     (if s = [] then Err ''cannot parse integer from empty string''
      else if s = ''+'' \<or> s = ''-'' then Err ''invalid digit found in string''
      else usize_digits 0 (if hd s = CHR ''+'' then tl s else s))"

text \<open>The arm of a flag that takes a value.\<close>

definition lg_set_flag :: "bytes \<Rightarrow> bytes \<Rightarrow> load_config \<Rightarrow> string + load_config" where
  "lg_set_flag flag val cfg =
     (if flag = ''--addr'' then Ok (cfg\<lparr>lg_addr := val\<rparr>)
      else if flag = ''--clients'' then
        map_sum (\<lambda>e. ''--clients: '' @ e) (\<lambda>n. cfg\<lparr>lg_clients := n\<rparr>) (lg_parse_usize val)
      else if flag = ''--requests'' then
        map_sum (\<lambda>e. ''--requests: '' @ e) (\<lambda>n. cfg\<lparr>lg_requests := n\<rparr>) (lg_parse_usize val)
      else map_sum (\<lambda>e. ''--value-size: '' @ e) (\<lambda>n. cfg\<lparr>lg_value_size := n\<rparr>) (lg_parse_usize val))"

text \<open>The result \<open>Ok None\<close> stands for \<^verbatim>\<open>--help\<close>: the usage is printed and the process exits with code 0.\<close>

fun lg_scan :: "bytes list \<Rightarrow> load_config \<Rightarrow> string + load_config option" where
  "lg_scan [] cfg =
     (if lg_clients cfg = 0 then Err ''--clients must be > 0''
      else if lg_requests cfg = 0 then Err ''--requests must be > 0''
      else Ok (Some cfg))"
| "lg_scan (flag # rest) cfg =
     (if flag \<in> {''--addr'', ''--clients'', ''--requests'', ''--value-size''} then
        (case rest of
           [] \<Rightarrow> Err (flag @ '' requires a value'')
         | val # rest' \<Rightarrow> (case lg_set_flag flag val cfg of Inl e \<Rightarrow> Err e | Inr cfg' \<Rightarrow> lg_scan rest' cfg'))
      else if flag = ''-h'' \<or> flag = ''--help'' then Ok None
      else Err (''unknown flag: '' @ flag))"

definition lg_parse_args :: "bytes list \<Rightarrow> string + load_config option" where
  "lg_parse_args args = lg_scan args load_config_default"

section \<open>Requests\<close>

definition append_bulk :: "bytes \<Rightarrow> bytes \<Rightarrow> bytes" where
  "append_bulk out payload = out @ (CHR ''$'' # show_nat (length payload) @ CRLF) @ payload @ CRLF"

definition build_set :: "bytes \<Rightarrow> bytes \<Rightarrow> bytes" where
  "build_set key val = append_bulk (append_bulk (append_bulk (''*3'' @ CRLF) ''SET'') key) val"

definition build_get :: "bytes \<Rightarrow> bytes" where
  "build_get key = append_bulk (append_bulk (''*2'' @ CRLF) ''GET'') key"

definition build_incr :: "bytes \<Rightarrow> bytes" where
  "build_incr key = append_bulk (append_bulk (''*2'' @ CRLF) ''INCR'') key"

text \<open>The three closures \<^verbatim>\<open>main\<close> passes to \<^verbatim>\<open>run_phase\<close>.\<close>

definition phase_key :: "nat \<Rightarrow> nat \<Rightarrow> bytes" where
  "phase_key cid op = ''c'' @ show_nat cid @ '':k'' @ show_nat op"

definition set_request :: "nat \<Rightarrow> nat \<Rightarrow> nat \<Rightarrow> bytes" where
  "set_request value_size cid op = build_set (phase_key cid op) (replicate value_size (CHR ''x''))"

definition get_request :: "nat \<Rightarrow> nat \<Rightarrow> bytes" where
  "get_request cid op = build_get (phase_key cid op)"

definition incr_request :: "nat \<Rightarrow> nat \<Rightarrow> bytes" where
  "incr_request cid op = build_incr ''counter''"

section \<open>Reading a reply\<close>

datatype client_error = ReadFailed | InvalidData | UnexpectedPrefix byte

text \<open>The loop that reads a header byte by byte, up to and including its CRLF.\<close>

fun read_header :: "bytes \<Rightarrow> bytes \<Rightarrow> (bytes \<times> bytes) option" where
  "read_header header [] = None"
| "read_header header (b # bs) =
     (let header = header @ [b] in
      if 2 \<le> length header \<and> drop (length header - 2) header = CRLF then Some (header, bs)
      else read_header header bs)"

text \<open>The outcome and the bytes left in the socket.\<close>

definition read_reply_kind :: "bytes \<Rightarrow> (client_error + byte) \<times> bytes" where
  "read_reply_kind stream =
     (case read_header [] stream of
        None \<Rightarrow> (Err ReadFailed, [])
      | Some (header, rest) \<Rightarrow>
          let kind = hd header in
          if kind = CHR ''+'' \<or> kind = CHR ''-'' \<or> kind = CHR '':'' then (Ok kind, rest)
          else if kind = CHR ''$'' then
            (case parse_i64 (take (length header - 3) (tl header)) of
               None \<Rightarrow> (Err InvalidData, rest)
             | Some len \<Rightarrow>
                 if len \<ge> 0 then
                   (case read_exact (nat len + 2) rest of
                      None \<Rightarrow> (Err ReadFailed, [])
                    | Some (body, rest') \<Rightarrow> (Ok (CHR ''$''), rest'))
                 else (Ok (CHR ''$''), rest))
          else (Err (UnexpectedPrefix kind), rest))"

section \<open>A phase\<close>

record totals =
  tot_set :: nat
  tot_get :: nat
  tot_incr :: nat
  tot_errors :: nat

definition totals_new :: totals where
  "totals_new = \<lparr>tot_set = 0, tot_get = 0, tot_incr = 0, tot_errors = 0\<rparr>"

definition add_errors :: "nat \<Rightarrow> totals \<Rightarrow> totals" where
  "add_errors n tt = tt\<lparr>tot_errors := wrap_u64 (tot_errors tt + n)\<rparr>"

definition add_done :: "string \<Rightarrow> totals \<Rightarrow> totals" where
  "add_done label tt =
     (if label = ''SET'' then tt\<lparr>tot_set := wrap_u64 (tot_set tt + 1)\<rparr>
      else if label = ''GET'' then tt\<lparr>tot_get := wrap_u64 (tot_get tt + 1)\<rparr>
      else if label = ''INCR'' then tt\<lparr>tot_incr := wrap_u64 (tot_incr tt + 1)\<rparr>
      else tt)"

definition done_of :: "string \<Rightarrow> totals \<Rightarrow> nat" where
  "done_of label tt =
     (if label = ''SET'' then tot_set tt else if label = ''GET'' then tot_get tt
      else if label = ''INCR'' then tot_incr tt else 0)"

text \<open>\<^verbatim>\<open>count\<close>, the number of requests of worker \<open>cid\<close>.\<close>

definition client_share :: "load_config \<Rightarrow> nat \<Rightarrow> nat" where
  "client_share cfg cid =
     (let per_client = lg_requests cfg div lg_clients cfg;
          remainder = lg_requests cfg - per_client * lg_clients cfg
      in per_client + (if cid < remainder then 1 else 0))"

record worker =
  wk_op :: nat
  wk_count :: nat
  wk_live :: bool
  wk_link :: link

record phase =
  ph_totals :: totals
  ph_workers :: "worker list"
  ph_engine :: engine

text \<open>Spawning the workers: one whose connection fails counts all its requests as errors and returns.\<close>

definition start_phase :: "load_config \<Rightarrow> (nat \<Rightarrow> bool) \<Rightarrow> totals \<Rightarrow> engine \<Rightarrow> phase" where
  "start_phase cfg joined tt s =
     \<lparr>ph_totals = fold (\<lambda>cid tt. if joined cid then tt else add_errors (client_share cfg cid) tt)
        [0..<lg_clients cfg] tt,
      ph_workers = map (\<lambda>cid. \<lparr>wk_op = 0, wk_count = client_share cfg cid, wk_live = joined cid,
        wk_link = link_new\<rparr>) [0..<lg_clients cfg],
      ph_engine = s\<rparr>"

definition runnable :: "nat \<Rightarrow> phase \<Rightarrow> bool" where
  "runnable cid ph \<longleftrightarrow> cid < length (ph_workers ph) \<and> wk_live (ph_workers ph ! cid)
     \<and> wk_op (ph_workers ph ! cid) < wk_count (ph_workers ph ! cid)"

text \<open>One turn of a worker's loop.\<close>

definition worker_op ::
  "(nat \<Rightarrow> 'f conn_env) \<Rightarrow> string \<Rightarrow> (nat \<Rightarrow> nat \<Rightarrow> bytes) \<Rightarrow> nat \<Rightarrow> phase \<Rightarrow> phase" where
  "worker_op x label build cid ph =
     (if runnable cid ph then
        let w = ph_workers ph ! cid in
        (case link_send (x cid) (build cid (wk_op w)) (wk_link w) (ph_engine ph) of
           None \<Rightarrow> ph\<lparr>ph_totals := add_errors 1 (ph_totals ph),
                      ph_workers := (ph_workers ph)[cid := w\<lparr>wk_live := False\<rparr>]\<rparr>
         | Some (l, s) \<Rightarrow>
             (case read_reply_kind (l_unread l) of
                (Inl e, rest) \<Rightarrow>
                  ph\<lparr>ph_totals := add_errors 1 (ph_totals ph), ph_engine := s,
                     ph_workers := (ph_workers ph)[cid :=
                       w\<lparr>wk_live := False, wk_link := l\<lparr>l_unread := rest\<rparr>\<rparr>]\<rparr>
              | (Inr k, rest) \<Rightarrow>
                  ph\<lparr>ph_totals := (if k = CHR ''-'' then add_errors 1 else add_done label) (ph_totals ph),
                     ph_engine := s,
                     ph_workers := (ph_workers ph)[cid :=
                       w\<lparr>wk_op := wk_op w + 1, wk_link := l\<lparr>l_unread := rest\<rparr>\<rparr>]\<rparr>))
      else ph)"

definition run_workers ::
  "(nat \<Rightarrow> 'f conn_env) \<Rightarrow> string \<Rightarrow> (nat \<Rightarrow> nat \<Rightarrow> bytes) \<Rightarrow> nat list \<Rightarrow> phase \<Rightarrow> phase" where
  "run_workers x label build sched ph = fold (worker_op x label build) sched ph"

text \<open>The environment of a phase: the connections, which of them are established, and the schedule.\<close>

record 'f phase_env =
  pe_conn :: "nat \<Rightarrow> 'f conn_env"
  pe_connected :: "nat \<Rightarrow> bool"
  pe_sched :: "nat list"

definition run_phase ::
  "'f phase_env \<Rightarrow> string \<Rightarrow> load_config \<Rightarrow> (nat \<Rightarrow> nat \<Rightarrow> bytes) \<Rightarrow> totals \<times> engine \<Rightarrow> totals \<times> engine" where
  "run_phase pe label cfg build st =
     (let ph = run_workers (pe_conn pe) label build (pe_sched pe) (start_phase cfg (pe_connected pe) (fst st) (snd st))
      in (ph_totals ph, ph_engine ph))"

text \<open>\<^verbatim>\<open>main\<close>: the exit code, the totals and the engine afterwards. The three phases run one after the other.\<close>

definition load_gen_main ::
  "'f phase_env \<Rightarrow> 'f phase_env \<Rightarrow> 'f phase_env \<Rightarrow> bytes list \<Rightarrow> engine \<Rightarrow> nat \<times> totals \<times> engine" where
  "load_gen_main pe1 pe2 pe3 args s =
     (case lg_parse_args args of
        Inl e \<Rightarrow> (2, totals_new, s)
      | Inr None \<Rightarrow> (0, totals_new, s)
      | Inr (Some cfg) \<Rightarrow>
          let st = run_phase pe1 ''SET'' cfg (set_request (lg_value_size cfg)) (totals_new, s);
              st = run_phase pe2 ''GET'' cfg get_request st;
              st = run_phase pe3 ''INCR'' cfg incr_request st
          in (if tot_errors (fst st) > 0 then 1 else 0, fst st, snd st))"

section \<open>Requests, replies and shares\<close>

lemma build_requests [simp]:
  "build_set k val = encode_command [''SET'', k, val]" "build_get k = encode_command [''GET'', k]"
  "build_incr k = encode_command [''INCR'', k]"
  by (simp_all add: build_set_def build_get_def build_incr_def append_bulk_def encode_command_def encode_part_def
      show_nat.simps digit_char_def char_of_def bit_0)

text \<open>The number a flag takes is the one \<open>parse_unsigned\<close> gives.\<close>

lemma digits_val_mono: "digits_val a ds = Some n \<Longrightarrow> a \<le> n"
  by (induction a ds rule: digits_val.induct) (auto split: if_splits)

lemma usize_digits_val:
  "acc \<le> u64_max \<Longrightarrow> (usize_digits acc s = Ok n) = (digits_val acc s = Some n \<and> n \<le> u64_max)"
proof (induction acc s rule: usize_digits.induct)
  case (2 acc c cs)
  then show ?case using digits_val_mono [of "acc * 10 + digit_val c" cs n]
    by (cases "is_digit c \<and> acc * 10 + digit_val c \<le> u64_max") auto
qed auto

lemma lg_parse_usize_unsigned: "(lg_parse_usize s = Ok n) = (parse_unsigned u64_max s = Some n)"
proof (cases s)
  case (Cons c cs)
  have m: "digits_val 0 ''-'' = None" by (simp add: is_digit_def)
  have u: "(usize_digits 0 ds = Ok n) = (digits_val 0 ds = Some n \<and> n \<le> u64_max)" for ds
    by (rule usize_digits_val) simp
  show ?thesis
  proof (cases "c = CHR ''+''")
    case True
    then show ?thesis using Cons u [of cs]
      by (auto simp: lg_parse_usize_def parse_unsigned_def parse_digits_def simp del: usize_digits.simps split: option.splits)
  next
    case False
    then show ?thesis using Cons m u [of s]
      by (cases "s = ''-''") (auto simp: lg_parse_usize_def parse_unsigned_def parse_digits_def
          simp del: digits_val.simps usize_digits.simps split: option.splits)
  qed
qed (simp add: lg_parse_usize_def parse_unsigned_def parse_digits_def)

lemma lg_scan_ok:
  "lg_scan args cfg = Ok (Some cfg') \<Longrightarrow> lg_clients cfg \<le> u64_max \<Longrightarrow> lg_requests cfg \<le> u64_max \<Longrightarrow>
   0 < lg_clients cfg' \<and> 0 < lg_requests cfg' \<and> lg_clients cfg' \<le> u64_max \<and> lg_requests cfg' \<le> u64_max"
proof (induction args cfg rule: lg_scan.induct)
  case (2 flag rest cfg)
  have n: "n \<le> u64_max" if "lg_parse_usize v = Ok n" for v n
    using that by (auto simp: lg_parse_usize_unsigned parse_unsigned_def split: option.splits if_splits)
  show ?case
  proof (cases "flag \<in> {''--addr'', ''--clients'', ''--requests'', ''--value-size''}")
    case True
    then obtain val rest' cfg1 where r: "rest = val # rest'" "lg_set_flag flag val cfg = Ok cfg1"
      "lg_scan rest' cfg1 = Ok (Some cfg')"
      using 2(2) by (auto split: list.splits sum.splits)
    have "lg_clients cfg1 \<le> u64_max \<and> lg_requests cfg1 \<le> u64_max"
      using r(2) 2(3,4) n by (auto simp: lg_set_flag_def map_sum_def split: if_splits sum.splits)
    then show ?thesis using 2(1) [OF True r(1) r(2)] r(3) by simp
  qed (use 2(2) in \<open>auto split: if_splits\<close>)
qed (auto split: if_splits)

lemma lg_parse_args_ok:
  "lg_parse_args args = Ok (Some cfg) \<Longrightarrow>
   0 < lg_clients cfg \<and> 0 < lg_requests cfg \<and> lg_clients cfg \<le> u64_max \<and> lg_requests cfg \<le> u64_max"
  unfolding lg_parse_args_def by (drule lg_scan_ok) (simp_all add: load_config_default_def)

lemma read_header_line:
  "one_line h \<Longrightarrow> one_line t \<Longrightarrow> h @ t \<noteq> [] \<Longrightarrow> read_header h (t @ CR # LF # rest) = Some (h @ t @ CRLF, rest)"
proof (induction t arbitrary: h)
  case Nil
  then show ?case by (cases h rule: rev_cases) (auto simp: Let_def)
next
  case (Cons c t)
  have "drop (length (h @ [c]) - 2) (h @ [c]) \<noteq> CRLF"
    using Cons.prems(2) by (cases h rule: rev_cases) auto
  then show ?case using Cons.IH [of "h @ [c]"] Cons.prems by (simp add: Let_def)
qed

lemma read_kind_line:
  assumes "one_line t" "k = CHR ''+'' \<or> k = CHR ''-'' \<or> k = CHR '':''"
  shows "read_reply_kind (k # t @ CR # LF # rest) = (Ok k, rest)"
proof -
  have "one_line (k # t)" using assms by auto
  from read_header_line [of "[]" "k # t" rest] this have "read_header [] (k # t @ CR # LF # rest) = Some (k # t @ CRLF, rest)"
    by simp
  then show ?thesis using assms(2) by (simp add: read_reply_kind_def)
qed

lemma read_kind_bulk_line:
  assumes "one_line t" "parse_i64 t = Some len"
  shows "read_reply_kind (CHR ''$'' # t @ CR # LF # rest) =
    (if len < 0 then (Ok (CHR ''$''), rest)
     else case read_exact (nat len + 2) rest of
       None \<Rightarrow> (Err ReadFailed, []) | Some (body, rest') \<Rightarrow> (Ok (CHR ''$''), rest'))"
proof -
  from read_header_line [of "[]" "CHR ''$'' # t" rest] assms(1)
  have "read_header [] (CHR ''$'' # t @ CR # LF # rest) = Some (CHR ''$'' # t @ CRLF, rest)" by simp
  then show ?thesis using assms(2) by (simp add: read_reply_kind_def)
qed

text \<open>The reader takes exactly one reply of the kinds the generator asks for.\<close>

lemma read_kind_replies [simp]:
  "read_reply_kind (OK_reply @ rest) = (Ok (CHR ''+''), rest)"
  "read_reply_kind (encode_integer n @ rest) = (Ok (CHR '':''), rest)"
  "one_line t \<Longrightarrow> read_reply_kind (encode_error t @ rest) = (Ok (CHR ''-''), rest)"
  "read_reply_kind (encode_null_bulk @ rest) = (Ok (CHR ''$''), rest)"
  using read_kind_line [of "''OK''" "CHR ''+''" rest] read_kind_line [of "show_int n" "CHR '':''" rest]
    read_kind_line [of t "CHR ''-''" rest] read_kind_bulk_line [of "''-1''" "- 1" rest]
  by (simp_all add: OK_reply_def encode_simple_string_def encode_integer_def encode_error_def encode_null_bulk_def
      parse_i64_def parse_digits_def is_digit_def digit_val_def checked_i64_def in_i64_def)

lemma read_kind_bulk [simp]:
  assumes "length b \<le> nat i64_max"
  shows "read_reply_kind (encode_bulk_string b @ rest) = (Ok (CHR ''$''), rest)"
proof -
  have i: "in_i64 (int (length b))" using assms by (simp add: in_i64_def)
  have "read_exact (length b + 2) (b @ CR # LF # rest) = Some (b @ CRLF, rest)"
    using read_exact_append [of "b @ CRLF" "length b + 2" rest] by simp
  then show ?thesis using read_kind_bulk_line [of "show_nat (length b)" "int (length b)" "b @ CR # LF # rest"] i
    by (simp add: encode_bulk_string_def)
qed

text \<open>The workers' shares make up the requests.\<close>

lemma sum_below: "(\<Sum>i<n. if i < r then 1 else 0) = (r::nat)" if "r \<le> n"
proof -
  have "{i. i < n \<and> i < r} = {..<r}" using that by auto
  then show ?thesis by (simp add: sum.If_cases Int_def)
qed

lemma shares_sum:
  assumes "0 < lg_clients cfg"
  shows "(\<Sum>cid<lg_clients cfg. client_share cfg cid) = lg_requests cfg"
proof -
  let ?q = "lg_requests cfg div lg_clients cfg" and ?r = "lg_requests cfg mod lg_clients cfg"
  have r: "lg_requests cfg - ?q * lg_clients cfg = ?r" by (simp add: minus_div_mult_eq_mod)
  have "(\<Sum>cid<lg_clients cfg. client_share cfg cid) = lg_clients cfg * ?q + (\<Sum>cid<lg_clients cfg. if cid < ?r then 1 else 0)"
    unfolding client_share_def Let_def r by (simp add: sum.distrib)
  also have "\<dots> = lg_requests cfg" using sum_below [of ?r "lg_clients cfg"] assms by simp
  finally show ?thesis .
qed

section \<open>The accounting of a phase\<close>

text \<open>What a worker has used up of its requests; a worker that gave up has used all of them.\<close>

definition used :: "worker \<Rightarrow> nat" where
  "used w = (if wk_live w then wk_op w else wk_count w)"

definition labels :: "string list" where
  "labels = [''SET'', ''GET'', ''INCR'']"

text \<open>Whatever the server does, the totals of a phase with label \<open>label\<close> that started from \<open>t0\<close>: no error goes
  unnoticed, and without errors every request made has been counted.\<close>

definition accounted :: "string \<Rightarrow> totals \<Rightarrow> phase \<Rightarrow> bool" where
  "accounted label t0 ph \<longleftrightarrow>
     (\<forall>w\<in>set (ph_workers ph). wk_op w \<le> wk_count w)
     \<and> done_of label (ph_totals ph) + tot_errors (ph_totals ph)
         \<le> done_of label t0 + tot_errors t0 + sum_list (map used (ph_workers ph))
     \<and> (tot_errors (ph_totals ph) = 0 \<longrightarrow>
          tot_errors t0 = 0 \<and> (\<forall>w\<in>set (ph_workers ph). wk_live w \<or> wk_op w = wk_count w)
          \<and> done_of label (ph_totals ph) = done_of label t0 + sum_list (map wk_op (ph_workers ph)))
     \<and> (\<forall>l. l \<noteq> label \<longrightarrow> done_of l (ph_totals ph) = done_of l t0)"

lemma totals_simps [simp]:
  "done_of l (add_errors n tt) = done_of l tt"
  "tot_errors (add_errors n tt) = wrap_u64 (tot_errors tt + n)"
  "tot_errors (add_done l tt) = tot_errors tt"
  "l \<in> set labels \<Longrightarrow> done_of l (add_done l tt) = wrap_u64 (done_of l tt + 1)"
  "l \<noteq> l' \<Longrightarrow> done_of l (add_done l' tt) = done_of l tt"
  by (auto simp: done_of_def add_errors_def add_done_def labels_def)

lemma sum_list_put:
  fixes f :: "'a \<Rightarrow> nat"
  assumes "i < length ws"
  shows "sum_list (map f (ws[i := w])) + f (ws ! i) = sum_list (map f ws) + f w"
  using assms
proof (induction ws arbitrary: i)
  case (Cons v ws)
  then show ?case by (cases i) (auto simp: add.assoc add.left_commute)
qed simp

lemma used_le_count:
  assumes "\<forall>w\<in>set ws. wk_op w \<le> wk_count w"
  shows "sum_list (map used ws) \<le> sum_list (map wk_count ws)"
  using assms by (intro sum_list_mono) (simp add: used_def)

lemma used_lt_count:
  assumes "\<forall>w\<in>set ws. wk_op w \<le> wk_count w" "i < length ws" "wk_live (ws ! i)" "wk_op (ws ! i) < wk_count (ws ! i)"
  shows "sum_list (map used ws) < sum_list (map wk_count ws)"
proof -
  let ?w = "ws ! i"
  have "sum_list (map used (ws[i := ?w\<lparr>wk_op := wk_count ?w\<rparr>])) \<le> sum_list (map wk_count (ws[i := ?w\<lparr>wk_op := wk_count ?w\<rparr>]))"
    using assms(1) by (intro used_le_count) (auto dest!: set_update_subset_insert [THEN subsetD])
  moreover have "map wk_count (ws[i := ?w\<lparr>wk_op := wk_count ?w\<rparr>]) = map wk_count ws"
    using assms(2) by (simp add: map_update list_update_same_conv)
  ultimately show ?thesis using sum_list_put [OF assms(2), of used "?w\<lparr>wk_op := wk_count ?w\<rparr>"] assms(3,4)
    by (simp add: used_def)
qed

text \<open>The three outcomes of a turn.\<close>

lemma worker_op_cases [consumes 1, case_names gave_up refused served]:
  assumes "runnable cid ph"
  obtains (gave_up) w' s where "worker_op x label build cid ph =
      ph\<lparr>ph_totals := add_errors 1 (ph_totals ph), ph_engine := s, ph_workers := (ph_workers ph)[cid := w']\<rparr>"
      "wk_count w' = wk_count (ph_workers ph ! cid)" "wk_op w' = wk_op (ph_workers ph ! cid)" "\<not> wk_live w'"
  | (refused) w' s where "worker_op x label build cid ph =
      ph\<lparr>ph_totals := add_errors 1 (ph_totals ph), ph_engine := s, ph_workers := (ph_workers ph)[cid := w']\<rparr>"
      "wk_count w' = wk_count (ph_workers ph ! cid)" "wk_op w' = wk_op (ph_workers ph ! cid) + 1" "wk_live w'"
  | (served) w' s where "worker_op x label build cid ph =
      ph\<lparr>ph_totals := add_done label (ph_totals ph), ph_engine := s, ph_workers := (ph_workers ph)[cid := w']\<rparr>"
      "wk_count w' = wk_count (ph_workers ph ! cid)" "wk_op w' = wk_op (ph_workers ph ! cid) + 1" "wk_live w'"
proof -
  let ?w = "ph_workers ph ! cid"
  have live: "wk_live ?w" using assms by (simp add: runnable_def)
  show thesis
  proof (cases "link_send (x cid) (build cid (wk_op ?w)) (wk_link ?w) (ph_engine ph)")
    case None
    then show thesis using assms by (intro gave_up [where s = "ph_engine ph" and w' = "?w\<lparr>wk_live := False\<rparr>"]) (simp_all add: worker_op_def Let_def)
  next
    case (Some ls)
    obtain l s where ls: "ls = (l, s)" by (cases ls)
    obtain r rest where r: "read_reply_kind (l_unread l) = (r, rest)" by (metis prod.exhaust)
    show thesis
    proof (cases r)
      case (Inl e)
      show thesis
        by (rule gave_up [where s = s and w' = "?w\<lparr>wk_live := False, wk_link := l\<lparr>l_unread := rest\<rparr>\<rparr>"])
          (use assms Some ls r Inl in \<open>simp_all add: worker_op_def Let_def\<close>)
    next
      case (Inr k)
      show thesis
      proof (cases "k = CHR ''-''")
        case True
        show thesis
          by (rule refused [where s = s and w' = "?w\<lparr>wk_op := wk_op ?w + 1, wk_link := l\<lparr>l_unread := rest\<rparr>\<rparr>"])
            (use assms Some ls r Inr live True in \<open>simp_all add: worker_op_def Let_def\<close>)
      next
        case False
        show thesis
          by (rule served [where s = s and w' = "?w\<lparr>wk_op := wk_op ?w + 1, wk_link := l\<lparr>l_unread := rest\<rparr>\<rparr>"])
            (use assms Some ls r Inr live False in \<open>simp_all add: worker_op_def Let_def\<close>)
      qed
    qed
  qed
qed

lemma worker_op_counts: "map wk_count (ph_workers (worker_op x label build cid ph)) = map wk_count (ph_workers ph)"
proof (cases "runnable cid ph")
  case True
  then have "cid < length (ph_workers ph)" by (simp add: runnable_def)
  with True show ?thesis
    by (cases rule: worker_op_cases [of cid ph x label build]) (simp_all add: map_update list_update_same_conv)
qed (simp add: worker_op_def)

lemma accounted_step:
  assumes "accounted label t0 ph" "label \<in> set labels"
    and lim: "done_of label t0 + tot_errors t0 + sum_list (map wk_count (ph_workers ph)) \<le> u64_max"
  shows "accounted label t0 (worker_op x label build cid ph)"
proof (cases "runnable cid ph")
  case True
  let ?ws = "ph_workers ph" and ?T = "ph_totals ph"
  have r: "cid < length ?ws" "wk_live (?ws ! cid)" "wk_op (?ws ! cid) < wk_count (?ws ! cid)"
    using True by (simp_all add: runnable_def)
  have a: "\<forall>w\<in>set ?ws. wk_op w \<le> wk_count w"
    "done_of label ?T + tot_errors ?T \<le> done_of label t0 + tot_errors t0 + sum_list (map used ?ws)"
    using assms(1) by (simp_all add: accounted_def)
  have small: "done_of label ?T + tot_errors ?T + 1 \<le> u64_max"
    using used_lt_count [OF a(1) r] a(2) lim by linarith
  have u: "used (?ws ! cid) = wk_op (?ws ! cid)" using r by (simp add: used_def)
  note put = sum_list_put [OF r(1), of used] sum_list_put [OF r(1), of wk_op]
  have ops: "\<forall>w\<in>set (?ws[cid := w']). wk_op w \<le> wk_count w"
    if "wk_op w' \<le> wk_op (?ws ! cid) + 1" "wk_count w' = wk_count (?ws ! cid)" for w'
    using a(1) that r(3) by (auto dest!: set_update_subset_insert [THEN subsetD])
  from True show ?thesis
  proof (cases rule: worker_op_cases [of cid ph x label build])
    case (gave_up w' s)
    then show ?thesis using assms(1) small put(1) [of w'] u r ops [of w']
      by (simp add: accounted_def used_def)
  next
    case (refused w' s)
    then show ?thesis using assms(1) small put(1) [of w'] u r ops [of w']
      by (simp add: accounted_def used_def)
  next
    case (served w' s)
  have "\<forall>w\<in>set (?ws[cid := w']). wk_live w \<or> wk_op w = wk_count w"
      if "\<forall>w\<in>set ?ws. wk_live w \<or> wk_op w = wk_count w"
      using that served(4) by (auto dest!: set_update_subset_insert [THEN subsetD])
    moreover have "done_of label (add_done label ?T) = done_of label ?T + 1" using assms(2) small by simp
    ultimately show ?thesis using served assms(1) put(1,2) [of w'] u r ops [of w']
      by (simp add: accounted_def used_def del: totals_simps(4))
  qed
qed (use assms(1) in \<open>simp add: worker_op_def\<close>)

lemma accounted_run:
  assumes "accounted label t0 ph" "label \<in> set labels"
    and lim: "done_of label t0 + tot_errors t0 + sum_list (map wk_count (ph_workers ph)) \<le> u64_max"
  shows "accounted label t0 (run_workers x label build sched ph)
    \<and> map wk_count (ph_workers (run_workers x label build sched ph)) = map wk_count (ph_workers ph)"
  using assms(1,3) unfolding run_workers_def
  by (induction sched arbitrary: ph) (simp_all add: accounted_step [OF _ assms(2)] worker_op_counts)

lemma fold_errors:
  fixes tt :: totals
  assumes "tot_errors tt + (\<Sum>cid\<leftarrow>cs. if joined cid then 0 else f cid) \<le> u64_max"
  shows "tot_errors (fold (\<lambda>cid tt. if joined cid then tt else add_errors (f cid) tt) cs tt)
      = tot_errors tt + (\<Sum>cid\<leftarrow>cs. if joined cid then 0 else f cid)"
    and "done_of l (fold (\<lambda>cid tt. if joined cid then tt else add_errors (f cid) tt) cs tt) = done_of l tt"
  using assms by (induction cs arbitrary: tt) auto

lemma counts_sum:
  "0 < lg_clients cfg \<Longrightarrow> sum_list (map wk_count (ph_workers (start_phase cfg joined tt s))) = lg_requests cfg"
  using shares_sum [of cfg]
  by (simp add: start_phase_def o_def interv_sum_list_conv_sum_set_nat atLeast0LessThan)

lemma accounted_start:
  assumes "0 < lg_clients cfg" "done_of label tt + tot_errors tt + lg_requests cfg \<le> u64_max"
  shows "accounted label tt (start_phase cfg joined tt s)"
proof -
  let ?cs = "[0..<lg_clients cfg]" and ?f = "\<lambda>cid. if joined cid then 0 else client_share cfg cid"
  have "sum_list (map ?f ?cs) \<le> sum_list (map (client_share cfg) ?cs)" by (rule sum_list_mono) simp
  also have "\<dots> = lg_requests cfg"
    using shares_sum [OF assms(1)] by (simp add: interv_sum_list_conv_sum_set_nat atLeast0LessThan)
  finally have le: "tot_errors tt + sum_list (map ?f ?cs) \<le> u64_max" using assms(2) by linarith
  have u: "map used (ph_workers (start_phase cfg joined tt s)) = map ?f ?cs"
    by (simp add: start_phase_def used_def o_def)
  have z: "joined cid \<or> client_share cfg cid = 0" if "cid < lg_clients cfg" "sum_list (map ?f ?cs) = 0" for cid
  proof -
    have "\<forall>n\<in>set (map ?f ?cs). n = 0" using that(2) by (simp only: sum_list_eq_0_iff)
    then have "?f cid = 0" using that(1) by (metis (mono_tags, lifting) atLeast0LessThan image_eqI lessThan_iff list.set_map set_upt)
    then show ?thesis by (auto split: if_splits)
  qed
  let ?ph = "start_phase cfg joined tt s"
  have e: "tot_errors (ph_totals ?ph) = tot_errors tt + sum_list (map ?f ?cs)" "done_of l (ph_totals ?ph) = done_of l tt" for l
    using fold_errors [OF le] by (simp_all only: start_phase_def phase.simps)
  have w: "\<forall>w\<in>set (ph_workers ?ph). wk_op w = 0"
    "\<forall>w\<in>set (ph_workers ?ph). \<exists>cid<lg_clients cfg. wk_live w = joined cid \<and> wk_count w = client_share cfg cid"
    by (auto simp: start_phase_def)
  have ops: "sum_list (map wk_op (ph_workers ?ph)) = 0" using w(1) by (simp add: sum_list_eq_0_iff)
  have live: "\<forall>w\<in>set (ph_workers ?ph). wk_live w \<or> wk_op w = wk_count w" if "sum_list (map ?f ?cs) = 0"
    using w z [OF _ that] by metis
  define q where "q = sum_list (map ?f ?cs)"
  show ?thesis
    unfolding accounted_def u e ops using live w(1) unfolding q_def [symmetric] by (intro conjI impI allI) simp_all
qed

text \<open>A schedule that lets every worker come to the end of its loop.\<close>

definition complete :: "load_config \<Rightarrow> nat list \<Rightarrow> bool" where
  "complete cfg sched \<longleftrightarrow> (\<forall>cid<lg_clients cfg. client_share cfg cid \<le> count_list sched cid)"

definition turns_left :: "nat \<Rightarrow> phase \<Rightarrow> nat" where
  "turns_left cid ph =
     (if runnable cid ph then wk_count (ph_workers ph ! cid) - wk_op (ph_workers ph ! cid) else 0)"

lemma turns_left_step:
  "turns_left cid (worker_op x label build c ph) \<le> turns_left cid ph - (if c = cid then 1 else 0)"
proof (cases "runnable c ph")
  case True
  then have c: "c < length (ph_workers ph)" by (simp add: runnable_def)
  from True show ?thesis
    by (cases rule: worker_op_cases [of c ph x label build])
      (use c True in \<open>auto simp: turns_left_def runnable_def nth_list_update\<close>)
qed (auto simp: worker_op_def turns_left_def)

lemma turns_left_run:
  "turns_left cid (run_workers x label build sched ph) \<le> turns_left cid ph - count_list sched cid"
  unfolding run_workers_def
proof (induction sched arbitrary: ph)
  case (Cons c sched)
  show ?case using Cons [of "worker_op x label build c ph"] turns_left_step [of cid x label build c ph] by auto
qed simp

lemma turns_left_start: "cid < lg_clients cfg \<Longrightarrow> turns_left cid (start_phase cfg joined tt s) \<le> client_share cfg cid"
  by (simp add: turns_left_def start_phase_def runnable_def)

lemma complete_run:
  assumes "complete cfg sched" "ph = run_workers x label build sched (start_phase cfg joined tt s)"
    "cid < lg_clients cfg"
  shows "\<not> runnable cid ph"
  using turns_left_run [of cid x label build sched "start_phase cfg joined tt s"] assms
    turns_left_start [of cid cfg joined tt s]
  by (fastforce simp: complete_def turns_left_def runnable_def split: if_splits)

lemma accountedD:
  assumes "accounted label t0 ph" "w \<in> set (ph_workers ph)"
  shows "wk_op w \<le> wk_count w" "tot_errors (ph_totals ph) = 0 \<Longrightarrow> wk_live w \<or> wk_op w = wk_count w"
  using assms by (simp_all add: accounted_def)

text \<open>The outcome of a phase, whatever the server does.\<close>

lemma run_phase_accounts:
  assumes cfg: "0 < lg_clients cfg" and lab: "label \<in> set labels" and c: "complete cfg (pe_sched pe)"
    and lim: "done_of label tt + tot_errors tt + lg_requests cfg \<le> u64_max"
    and run: "run_phase pe label cfg build (tt, s) = (tt', s')"
  shows "tot_errors tt' = 0 \<Longrightarrow> tot_errors tt = 0 \<and> done_of label tt' = done_of label tt + lg_requests cfg"
    and "tot_errors tt' \<le> done_of label tt + tot_errors tt + lg_requests cfg"
    and "l \<noteq> label \<Longrightarrow> done_of l tt' = done_of l tt"
proof -
  let ?ph0 = "start_phase cfg (pe_connected pe) tt s"
  define ph where "ph = run_workers (pe_conn pe) label build (pe_sched pe) ?ph0"
  have tt': "tt' = ph_totals ph" using run by (simp add: run_phase_def ph_def Let_def)
  note cs = counts_sum [OF cfg, of "pe_connected pe" tt s]
  from accounted_run [OF accounted_start [OF cfg lim] lab, of "pe_connected pe" s "pe_conn pe" build "pe_sched pe"]
  have a: "accounted label tt ph" and counts: "map wk_count (ph_workers ph) = map wk_count (ph_workers ?ph0)"
    using lim cs by (simp_all add: ph_def)
  have len: "length (ph_workers ph) = lg_clients cfg"
    using arg_cong [OF counts, of length] by (simp add: start_phase_def)
  show "l \<noteq> label \<Longrightarrow> done_of l tt' = done_of l tt" using a tt' by (simp add: accounted_def)
  have "sum_list (map used (ph_workers ph)) \<le> lg_requests cfg"
    using used_le_count [of "ph_workers ph"] a counts cs by (simp add: accounted_def)
  then show "tot_errors tt' \<le> done_of label tt + tot_errors tt + lg_requests cfg"
    using a tt' by (auto simp: accounted_def)
  assume z: "tot_errors tt' = 0"
  have "\<forall>w\<in>set (ph_workers ph). wk_op w = wk_count w"
  proof
    fix w assume "w \<in> set (ph_workers ph)"
    then obtain i where i: "i < length (ph_workers ph)" "w = ph_workers ph ! i" by (metis in_set_conv_nth)
    then have "\<not> runnable i ph" using complete_run [OF c ph_def] len by simp
    then have "\<not> wk_live w \<or> wk_count w \<le> wk_op w" using i by (auto simp: runnable_def)
    moreover have "wk_op w \<le> wk_count w" "wk_live w \<or> wk_op w = wk_count w"
      using accountedD [OF a] z tt' i by simp_all
    ultimately show "wk_op w = wk_count w" by linarith
  qed
  then have "map wk_op (ph_workers ph) = map wk_count (ph_workers ph)" by simp
  then show "tot_errors tt = 0 \<and> done_of label tt' = done_of label tt + lg_requests cfg"
    using a z counts cs tt' by (simp add: accounted_def)
qed

lemma done_of_new [simp]: "done_of l totals_new = 0" "tot_errors totals_new = 0"
  by (simp_all add: done_of_def totals_new_def)

lemma totals_eqI:
  "tot_set tt = a \<Longrightarrow> tot_get tt = b \<Longrightarrow> tot_incr tt = c \<Longrightarrow> tot_errors tt = d \<Longrightarrow>
   tt = \<lparr>tot_set = a, tot_get = b, tot_incr = c, tot_errors = d\<rparr>"
  by (cases tt) simp

lemma load_gen_accounts:
  assumes args: "lg_parse_args args = Ok (Some cfg)" and lim: "3 * lg_requests cfg \<le> u64_max"
    and c: "complete cfg (pe_sched pe1)" "complete cfg (pe_sched pe2)" "complete cfg (pe_sched pe3)"
    and run: "load_gen_main pe1 pe2 pe3 args s = (0, tt, s')"
  shows "tt = \<lparr>tot_set = lg_requests cfg, tot_get = lg_requests cfg, tot_incr = lg_requests cfg, tot_errors = 0\<rparr>"
proof -
  obtain t1 s1 where r1: "run_phase pe1 ''SET'' cfg (set_request (lg_value_size cfg)) (totals_new, s) = (t1, s1)"
    by (metis prod.exhaust)
  obtain t2 s2 where r2: "run_phase pe2 ''GET'' cfg get_request (t1, s1) = (t2, s2)" by (metis prod.exhaust)
  obtain t3 s3 where r3: "run_phase pe3 ''INCR'' cfg incr_request (t2, s2) = (t3, s3)" by (metis prod.exhaust)
  have z: "tot_errors t3 = 0" "tt = t3"
    using run args r1 r2 r3 by (auto simp: load_gen_main_def Let_def split: if_splits)
  have cl: "0 < lg_clients cfg" using lg_parse_args_ok [OF args] by simp
  have lab: "''SET'' \<in> set labels" "''GET'' \<in> set labels" "''INCR'' \<in> set labels" by (simp_all add: labels_def)
  have l1: "done_of ''SET'' totals_new + tot_errors totals_new + lg_requests cfg \<le> u64_max" using lim by simp
  note p1 = run_phase_accounts [OF cl lab(1) c(1) l1 r1]
  have l2: "done_of ''GET'' t1 + tot_errors t1 + lg_requests cfg \<le> u64_max" using p1(2) p1(3) [of "''GET''"] lim by simp
  note p2 = run_phase_accounts [OF cl lab(2) c(2) l2 r2]
  have l3: "done_of ''INCR'' t2 + tot_errors t2 + lg_requests cfg \<le> u64_max"
    using p1(2) p2(2) p1(3) [of "''GET''"] p1(3) [of "''INCR''"] p2(3) [of "''INCR''"] lim by simp
  note p3 = run_phase_accounts [OF cl lab(3) c(3) l3 r3]
  have e: "tot_errors t2 = 0" "tot_errors t1 = 0" using p3(1) [OF z(1)] p2(1) by simp_all
  have "done_of ''SET'' t3 = lg_requests cfg" "done_of ''GET'' t3 = lg_requests cfg" "done_of ''INCR'' t3 = lg_requests cfg"
    using p3(1) [OF z(1)] p2(1) [OF e(1)] p1(1) [OF e(2)] p1(3) p2(3) p3(3) by simp_all
  then show ?thesis unfolding z(2) by (intro totals_eqI z(1)) (simp_all add: done_of_def)
qed

end
