(* ===== verification/Load_Run.thy ===== *)
theory Load_Run
  imports Load_Gen
begin

text \<open>
  The load generator against a server that is left alone: no memory limit, no password, no failing socket. The
  locale \<open>quiet_phase\<close> states what a phase relies on: every request is a data command whose abstract step keeps an
  invariant of the keyspace (indexed by how many requests each worker has done) and answers with something
  other than an error. Then no schedule of the workers produces an error. Its three interpretations are the phases
  of \<^verbatim>\<open>main\<close>.
\<close>

section \<open>How much a command can add\<close>

lemma total_put_le:
  "well_keyed m \<Longrightarrow> total entry_bytes (AList.update k e m) \<le> total entry_bytes m + entry_bytes k e"
  using total_update_delete [of m entry_bytes k e] total_delete_le [of m entry_bytes k] by simp

lemma total_touch [simp]:
  assumes "well_keyed (e_store s)"
  shows "total entry_bytes (e_store (touch_access v k s)) = total entry_bytes (e_store s)"
proof (cases "map_of (e_store s) k")
  case (Some e)
  then show ?thesis using total_update [OF assms, of entry_bytes k "touch v (fst (next_rand01 s)) e"]
    by (simp add: touch_access_store entry_bytes_def touch_def case_prod_unfold Let_def)
qed (simp add: touch_access_store)

lemma set_growth:
  assumes "good (False, cfg) s" "max_memory cfg = 0"
  shows "total entry_bytes (e_store (snd (run_op v v2 (OSet k val) s))) \<le> total entry_bytes (e_store s) + op_bytes (OSet k val)"
  using assms total_put_le [OF good_wk [OF assms(1)], of k "entry_new v val"]
  by (simp add: kv_set_def wg_insert_def wg_enforce_unlimited good_def Let_def split: sum.splits)

lemma get_growth:
  assumes "good (False, cfg) s"
  shows "total entry_bytes (e_store (snd (run_op v v2 (OGet k) s))) \<le> total entry_bytes (e_store s)"
  using total_delete_le [OF good_wk [OF assms], of entry_bytes k] good_wk [OF assms]
  by (auto simp: kv_get_def wg_fetch_live_def split: probe.splits option.splits)

lemma incr_growth:
  assumes "good (False, cfg) s" "max_memory cfg = 0"
  shows "total entry_bytes (e_store (snd (run_op v v2 (OIncrBy k d) s))) \<le> total entry_bytes (e_store s) + op_bytes (OIncrBy k d)"
proof -
  obtain st g where rs: "wg_read_state v k (wg_begin s) = (st, g)" by (metis prod.exhaust)
  note g = good_read_state [OF assms(1) rs]
  have wk: "well_keyed (e_store s)" "well_keyed (e_store (g_engine g))" using good_wk assms(1) g(1) by blast+
  have le: "total entry_bytes (e_store (g_engine g)) \<le> total entry_bytes (e_store s)"
    using rs total_delete_le [OF wk(1), of entry_bytes k] by (auto simp: wg_read_state_def split: option.splits if_splits)
  have put: "total entry_bytes (e_store (g_engine (snd (wg_insert_keep_ttl v k (show_int n) ttl g))))
      \<le> total entry_bytes (e_store s) + (length k + 20 + PER_ENTRY_OVERHEAD)" if "in_i64 n" for n ttl
  proof -
    have "e_store (g_engine (snd (wg_insert_keep_ttl v k (show_int n) ttl g)))
        = AList.update k (entry_new_with v (show_int n) ttl) (e_store (g_engine g))"
      using g(1) assms(2)
      by (simp add: wg_insert_keep_ttl_def wg_enforce_unlimited good_def Let_def split: option.splits)
    then show ?thesis
      using total_put_le [OF wk(2), of k "entry_new_with v (show_int n) ttl"] length_show_int [OF that] le by simp
  qed
  show ?thesis using rs put le
    by (simp add: kv_incr_by_def case_prod_unfold Let_def checked_i64_def split: sum.splits option.splits)
qed


section \<open>A phase without errors\<close>

text \<open>The requests of a worker, none beyond the last one.\<close>

definition quota :: "load_config \<Rightarrow> nat \<Rightarrow> nat" where
  "quota cfg cid = (if cid < lg_clients cfg then client_share cfg cid else 0)"

text \<open>The clock readings along a schedule do not run backwards; the last one, or \<open>None\<close>.\<close>

fun phase_clock ::
  "(nat \<Rightarrow> 'f conn_env) \<Rightarrow> (nat \<Rightarrow> nat) \<Rightarrow> (nat \<Rightarrow> nat) \<Rightarrow> instant \<Rightarrow> nat list \<Rightarrow> instant option" where
  "phase_clock x share d t [] = Some t"
| "phase_clock x share d t (cid # sched) =
     (if d cid < share cid then
        let ce = x_calls (x cid) (d cid) in
        if env_ok (ce_env ce) \<and> t \<le> now (ce_env ce) \<and> now (ce_env ce) \<le> now (ce_env2 ce)
        then phase_clock x share (d(cid := d cid + 1)) (now (ce_env ce)) sched
        else None
      else phase_clock x share d t sched)"

text \<open>All workers alive and between two requests, worker \<open>i\<close> after \<open>d i\<close> of them.\<close>

definition in_step :: "(nat \<Rightarrow> nat) \<Rightarrow> (nat \<Rightarrow> nat) \<Rightarrow> phase \<Rightarrow> bool" where
  "in_step share d ph \<longleftrightarrow>
     (\<forall>i<length (ph_workers ph). wk_live (ph_workers ph ! i) \<and> wk_op (ph_workers ph ! i) = d i
        \<and> wk_count (ph_workers ph ! i) = share i \<and> link_idle (wk_link (ph_workers ph ! i))
        \<and> c_frames (l_conn (wk_link (ph_workers ph ! i))) = d i)"

definition calm :: "eviction_config \<Rightarrow> engine \<Rightarrow> bool" where
  "calm cfg s \<longleftrightarrow> good (False, cfg) s \<and> max_memory cfg = 0 \<and> \<not> e_auth_required s"

definition todo :: "nat \<Rightarrow> (nat \<Rightarrow> nat) \<Rightarrow> (nat \<Rightarrow> nat) \<Rightarrow> nat" where
  "todo n share d = (\<Sum>i<n. share i - d i)"

lemma todo_step:
  assumes "cid < n" "d cid < share cid"
  shows "todo n share d = Suc (todo n share (d(cid := d cid + 1)))"
proof -
  have "todo n share f = (share cid - f cid) + (\<Sum>i\<in>{..<n} - {cid}. share i - f i)" for f
    unfolding todo_def using assms(1) by (simp add: sum.remove)
  moreover have "(\<Sum>i\<in>{..<n} - {cid}. share i - (d(cid := d cid + 1)) i) = (\<Sum>i\<in>{..<n} - {cid}. share i - d i)"
    by (rule sum.cong) auto
  ultimately show ?thesis using assms(2) by (simp add: Suc_diff_Suc)
qed

lemma fold_workers: "length (ph_workers (fold (worker_op x label build) sched ph)) = length (ph_workers ph)"
proof (induction sched arbitrary: ph)
  case (Cons c sched)
  then show ?case using arg_cong [OF worker_op_counts [of x label build c ph], of length] by simp
qed simp

locale quiet_phase =
  fixes label :: string
    and request :: "nat \<Rightarrow> nat \<Rightarrow> bytes"
    and cmdf :: "nat \<Rightarrow> nat \<Rightarrow> 'f command"
    and fits :: "(nat \<Rightarrow> nat) \<Rightarrow> nat \<Rightarrow> bool"
    and keeps :: "(nat \<Rightarrow> nat) \<Rightarrow> kmap \<Rightarrow> bool"
    and cost :: nat
  assumes parses: "fits d cid \<Longrightarrow> parse_frame fp (request cid (d cid)) =
      Ok (Complete (cmdf cid (d cid)) (length (request cid (d cid))))"
    and is_data: "data_command (cmdf cid i)"
    and ages: "keeps d m \<Longrightarrow> keeps d (expire_to t m)"
    and clocks: "command_op ce (cmdf cid i) = Some (v, v2, op) \<Longrightarrow> v = ce_env ce \<and> v2 = ce_env2 ce"
    and serves: "fits d cid \<Longrightarrow> keeps d m \<Longrightarrow> command_op ce (cmdf cid (d cid)) = Some (v, v2, op) \<Longrightarrow>
      \<exists>r m' k. spec_step v op m = (r, m') \<and> keeps (d(cid := d cid + 1)) m' \<and> k \<noteq> CHR ''-''
        \<and> read_reply_kind (reply_bytes Resp2 (cmdf cid (d cid)) r) = (Ok k, [])"
    and grows: "good (False, cfg) s \<Longrightarrow> max_memory cfg = 0 \<Longrightarrow> fits d cid \<Longrightarrow>
      command_op ce (cmdf cid (d cid)) = Some (v, v2, op) \<Longrightarrow> op_bytes op \<le> cost \<and>
      total entry_bytes (e_store (snd (run_op v v2 op s))) \<le> total entry_bytes (e_store s) + cost"
begin

lemma quiet_step:
  fixes x :: "nat \<Rightarrow> 'f conn_env"
  assumes st: "in_step share d ph" and ok: "\<forall>i. x_write_ok (x cid) i" and e: "calm cfg (ph_engine ph)"
    and inv: "keeps d (view t (ph_engine ph))" and cid: "cid < length (ph_workers ph)" "d cid < share cid" "fits d cid"
    and clk: "ce = x_calls (x cid) (d cid)" "env_ok (ce_env ce)" "t \<le> now (ce_env ce)" "now (ce_env ce) \<le> now (ce_env2 ce)"
    and room: "headroom (ph_engine ph) cost"
  shows "\<exists>l s. worker_op x label request cid ph = ph\<lparr>ph_totals := add_done label (ph_totals ph), ph_engine := s,
        ph_workers := (ph_workers ph)[cid := (ph_workers ph ! cid)\<lparr>wk_op := d cid + 1, wk_link := l\<rparr>]\<rparr>
      \<and> link_idle l \<and> c_frames (l_conn l) = d cid + 1 \<and> calm cfg s \<and> keeps (d(cid := d cid + 1)) (view (now (ce_env ce)) s)
      \<and> total entry_bytes (e_store s) \<le> total entry_bytes (e_store (ph_engine ph)) + cost"
proof -
  let ?w = "ph_workers ph ! cid" and ?s = "ph_engine ph"
  have w: "wk_live ?w" "wk_op ?w = d cid" "wk_count ?w = share cid" "link_idle (wk_link ?w)"
    "c_frames (l_conn (wk_link ?w)) = d cid"
    using st cid(1) by (simp_all add: in_step_def)
  obtain v v2 op where o: "command_op ce (cmdf cid (d cid)) = Some (v, v2, op)"
    using is_data unfolding data_command_def by (metis not_None_eq prod_cases3)
  note v = clocks [OF o]
  have g: "good (False, cfg) ?s" "max_memory cfg = 0" "\<not> e_auth_required ?s" using e by (simp_all add: calm_def)
  obtain r m' k where sp: "spec_step v op (expire_to (now v) (view t ?s)) = (r, m')" "keeps (d(cid := d cid + 1)) m'"
    "k \<noteq> CHR ''-''" "read_reply_kind (reply_bytes Resp2 (cmdf cid (d cid)) r) = (Ok k, [])"
    using serves [OF cid(3) ages [OF inv] o] by blast
  have h: "headroom ?s (op_bytes op)" using grows [OF g(1,2) cid(3) o] room by (simp add: headroom_def)
  have o': "command_op (x_calls (x cid) (c_frames (l_conn (wk_link ?w)))) (cmdf cid (d cid)) = Some (v, v2, op)"
    using o clk(1) w(5) by simp
  obtain l s where l: "link_send (x cid) (request cid (d cid)) (wk_link ?w) ?s = Some (l, s)" "link_idle (l\<lparr>l_unread := []\<rparr>)"
    "l_unread l = reply_bytes Resp2 (cmdf cid (d cid)) r" "c_frames (l_conn l) = d cid + 1"
    "good (False, cfg) s" "\<not> e_auth_required s" "view (now v) s = m'"
    "e_store s = e_store (snd (run_op v v2 op (counted_call ?s)))"
    using data_round_trip [OF ok w(4) g(3) parses [OF cid(3)] is_data g(1,2) o' _ _ _ h sp(1)] clk v w(5) by auto
  have grow: "total entry_bytes (e_store s) \<le> total entry_bytes (e_store ?s) + cost"
    using grows [OF _ g(2) cid(3) o, of "counted_call ?s"] g(1) l(8) by simp
  have "runnable cid ph" using w cid by (simp add: runnable_def)
  then have "worker_op x label request cid ph = ph\<lparr>ph_totals := add_done label (ph_totals ph), ph_engine := s,
        ph_workers := (ph_workers ph)[cid := ?w\<lparr>wk_op := d cid + 1, wk_link := l\<lparr>l_unread := []\<rparr>\<rparr>]\<rparr>"
    using l(1,3) sp(3,4) w(2) by (simp add: worker_op_def Let_def)
  then show ?thesis using l g(2) sp(2) v grow by (intro exI [of _ "l\<lparr>l_unread := []\<rparr>"] exI [of _ s]) (simp add: calm_def)
qed

lemma quiet_run:
  fixes x :: "nat \<Rightarrow> 'f conn_env"
  assumes "in_step share d ph" "\<forall>cid i. x_write_ok (x cid) i" "calm cfg (ph_engine ph)"
    and "keeps d (view t (ph_engine ph))" "phase_clock x share d t sched = Some t'"
    and share: "\<forall>i. length (ph_workers ph) \<le> i \<longrightarrow> share i = 0" "\<forall>i. d i \<le> share i"
    and fit: "\<And>d cid. \<forall>i. d i \<le> share i \<Longrightarrow> d cid < share cid \<Longrightarrow> fits d cid"
    and room: "headroom (ph_engine ph) (cost * todo (length (ph_workers ph)) share d + n)"
  shows "\<exists>d'. in_step share d' (run_workers x label request sched ph) \<and> (\<forall>i. d' i \<le> share i)
    \<and> calm cfg (ph_engine (run_workers x label request sched ph))
    \<and> keeps d' (view t' (ph_engine (run_workers x label request sched ph)))
    \<and> tot_errors (ph_totals (run_workers x label request sched ph)) = tot_errors (ph_totals ph)
    \<and> headroom (ph_engine (run_workers x label request sched ph)) n"
  using assms(1-7) room
proof (induction sched arbitrary: d t ph)
  case Nil
  then show ?case by (auto simp: run_workers_def headroom_def)
next
  case (Cons cid sched)
  show ?case
  proof (cases "d cid < share cid")
    case True
    have cid: "cid < length (ph_workers ph)"
      using True Cons.prems(6) by (metis not_le not_less_zero)
    define ce where "ce = x_calls (x cid) (d cid)"
    let ?d = "d(cid := d cid + 1)"
    have clk: "env_ok (ce_env ce)" "t \<le> now (ce_env ce)" "now (ce_env ce) \<le> now (ce_env2 ce)"
      "phase_clock x share ?d (now (ce_env ce)) sched = Some t'"
      using Cons.prems(5) True by (auto simp: ce_def Let_def split: if_splits)
    note td = todo_step [of cid _ d share, OF cid True]
    have "headroom (ph_engine ph) cost" using Cons.prems(8) td by (simp add: headroom_def algebra_simps)
    then obtain l s where w: "worker_op x label request cid ph = ph\<lparr>ph_totals := add_done label (ph_totals ph), ph_engine := s,
        ph_workers := (ph_workers ph)[cid := (ph_workers ph ! cid)\<lparr>wk_op := d cid + 1, wk_link := l\<rparr>]\<rparr>"
      "link_idle l" "c_frames (l_conn l) = d cid + 1" "calm cfg s" "keeps ?d (view (now (ce_env ce)) s)"
      "total entry_bytes (e_store s) \<le> total entry_bytes (e_store (ph_engine ph)) + cost"
      using quiet_step [where x = x and cid = cid and d = d and share = share,
          OF Cons.prems(1) _ Cons.prems(3,4) cid True _ ce_def clk(1-3)] Cons.prems(2) fit [of d cid, OF Cons.prems(7) True]
      by blast
    let ?ph = "worker_op x label request cid ph"
    have st: "in_step share ?d ?ph"
      using Cons.prems(1) w(1-3) cid by (auto simp: in_step_def nth_list_update)
    have rm: "headroom (ph_engine ?ph) (cost * todo (length (ph_workers ?ph)) share ?d + n)"
      using Cons.prems(8) td w(1,6) by (simp add: headroom_def algebra_simps)
    have len: "length (ph_workers ?ph) = length (ph_workers ph)" and es: "ph_engine ?ph = s"
      and tt: "tot_errors (ph_totals ?ph) = tot_errors (ph_totals ph)" using w(1) by simp_all
    have sh: "\<forall>i. length (ph_workers ?ph) \<le> i \<longrightarrow> share i = 0" "\<forall>i. ?d i \<le> share i"
      using Cons.prems(6,7) True len by auto
    have r: "run_workers x label request (cid # sched) ph = run_workers x label request sched ?ph"
      by (simp add: run_workers_def)
    have "calm cfg (ph_engine ?ph)" "keeps ?d (view (now (ce_env ce)) (ph_engine ?ph))" using w(4,5) es by simp_all
    from Cons.IH [OF st Cons.prems(2) this clk(4) sh rm] show ?thesis unfolding r tt .
  next
    case False
    then have "\<not> runnable cid ph" using Cons.prems(1) by (auto simp: runnable_def in_step_def)
    then have r: "run_workers x label request (cid # sched) ph = run_workers x label request sched ph"
      by (simp add: run_workers_def worker_op_def)
    have "phase_clock x share d t sched = Some t'" using Cons.prems(5) False by simp
    from Cons.IH [OF Cons.prems(1-4) this Cons.prems(6-8)] show ?thesis unfolding r .
  qed
qed

text \<open>A whole phase: no new errors, every worker has done its share, and the invariant holds.\<close>

lemma quiet_run_phase:
  fixes pe :: "'f phase_env"
  assumes cl: "0 < lg_clients cf" and join: "\<forall>cid. pe_connected pe cid"
    and ok: "\<forall>cid i. x_write_ok (pe_conn pe cid) i" and c: "complete cf (pe_sched pe)"
    and clk: "phase_clock (pe_conn pe) (quota cf) (\<lambda>_. 0) t (pe_sched pe) = Some t'"
    and fit: "\<And>d cid. \<forall>i. d i \<le> quota cf i \<Longrightarrow> d cid < quota cf cid \<Longrightarrow> fits d cid"
    and e: "calm cfg s" and inv: "keeps (\<lambda>_. 0) (view t s)"
    and room: "headroom s (cost * lg_requests cf + n)"
    and run: "run_phase pe label cf request (tt, s) = (tt', s')"
  shows "tot_errors tt' = tot_errors tt \<and> calm cfg s' \<and> keeps (quota cf) (view t' s') \<and> headroom s' n"
proof -
  let ?ph = "start_phase cf (pe_connected pe) tt s"
  define ph where "ph = run_workers (pe_conn pe) label request (pe_sched pe) ?ph"
  have res: "tt' = ph_totals ph" "s' = ph_engine ph" using run by (simp_all add: run_phase_def ph_def Let_def)
  have len: "length (ph_workers ?ph) = lg_clients cf" and es: "ph_engine ?ph = s" by (simp_all add: start_phase_def)
  have "fold (\<lambda>cid tt. if pe_connected pe cid then tt else add_errors (client_share cf cid) tt) cs tt = tt" for cs
    using join by (induction cs) simp_all
  then have tt: "ph_totals ?ph = tt" by (simp add: start_phase_def)
  have st: "in_step (quota cf) (\<lambda>_. 0) ?ph"
    using join by (simp add: in_step_def start_phase_def quota_def link_new_def [THEN arg_cong [where f = l_conn]] conn_new_def)
  have td: "todo (lg_clients cf) (quota cf) (\<lambda>_. 0) = lg_requests cf"
    using shares_sum [OF cl] by (simp add: todo_def quota_def)
  obtain d' where d': "in_step (quota cf) d' ph" "\<forall>i. d' i \<le> quota cf i" "calm cfg s'" "keeps d' (view t' s')"
    "tot_errors tt' = tot_errors tt" "headroom s' n"
    using quiet_run [OF st ok _ _ clk _ _ fit, of cfg n] e inv room len es tt td
    by (auto simp: res ph_def quota_def)
  have cnt: "length (ph_workers ph) = lg_clients cf"
    using len unfolding ph_def run_workers_def by (simp add: fold_workers)
  have "d' i = quota cf i" for i
  proof (cases "i < lg_clients cf")
    case True
    then show ?thesis using complete_run [OF c ph_def True] d'(1) cnt d'(2) [rule_format, of i]
      by (auto simp: runnable_def in_step_def quota_def)
  next
    case False
    then show ?thesis using d'(2) [rule_format, of i] by (simp add: quota_def)
  qed
  then have "d' = quota cf" by blast
  then show ?thesis using d' by simp
qed

end

section \<open>The three phases\<close>

definition set_cmd :: "nat \<Rightarrow> nat \<Rightarrow> nat \<Rightarrow> 'f command" where
  "set_cmd vs cid op = Set (phase_key cid op) (replicate vs (CHR ''x''))"

definition get_cmd :: "nat \<Rightarrow> nat \<Rightarrow> 'f command" where
  "get_cmd cid op = Get (phase_key cid op)"

definition incr_cmd :: "nat \<Rightarrow> nat \<Rightarrow> 'f command" where
  "incr_cmd cid op = IncrBy ''counter'' 1"

definition key_fits :: "nat \<Rightarrow> (nat \<Rightarrow> nat) \<Rightarrow> nat \<Rightarrow> bool" where
  "key_fits vs d cid \<longleftrightarrow> cid \<le> u64_max \<and> d cid \<le> u64_max \<and> vs \<le> VALUE_MAX_BYTES"

text \<open>The keys of the first \<open>d cid\<close> requests of every worker hold the value and never expire.\<close>

definition stored :: "nat \<Rightarrow> (nat \<Rightarrow> nat) \<Rightarrow> kmap \<Rightarrow> bool" where
  "stored vs d m \<longleftrightarrow> (\<forall>cid op. op < d cid \<longrightarrow> m (phase_key cid op) = Some (replicate vs (CHR ''x''), None))"

text \<open>The key \<open>counter\<close> is absent, for \<open>n = 0\<close>, or holds the number \<open>n\<close> and never expires.\<close>

definition counts :: "int \<Rightarrow> kmap \<Rightarrow> bool" where
  "counts n m \<longleftrightarrow> (case m ''counter'' of None \<Rightarrow> n = 0 | Some (val, ttl) \<Rightarrow> parse_i64 val = Some n \<and> ttl = None)"

lemma length_key: "cid \<le> u64_max \<Longrightarrow> op \<le> u64_max \<Longrightarrow> length (phase_key cid op) \<le> 43"
  using length_show_nat [of cid 19] length_show_nat [of op 19] by (simp add: phase_key_def)

lemma key_not_counter [simp]: "phase_key cid op \<noteq> ''counter''" "''counter'' \<noteq> phase_key cid op"
  using show_nat_Cons [of cid] by (auto simp: phase_key_def is_digit_def)

lemma validate_key_ok [simp]: "0 < length k \<Longrightarrow> length k \<le> 43 \<Longrightarrow> validate_key k = Ok ()"
  by (simp add: validate_key_def KEY_MAX_BYTES_def Let_def)

lemma validate_value_ok [simp]: "length val \<le> VALUE_MAX_BYTES \<Longrightarrow> validate_value val = Ok ()"
  by (simp add: validate_value_def Let_def)

lemma stored_expire: "stored vs d m \<Longrightarrow> stored vs d (expire_to t m)"
  by (simp add: stored_def expire_to_def)

lemma counts_expire: "counts n m \<Longrightarrow> counts n (expire_to t m)"
  by (auto simp: counts_def expire_to_def split: option.splits)

lemma stored_put:
  "stored vs d m \<Longrightarrow> stored vs (d(cid := d cid + 1)) (m(phase_key cid (d cid) \<mapsto> (replicate vs (CHR ''x''), None)))"
  by (auto simp: stored_def less_Suc_eq)

lemma requests_parse:
  assumes "length p \<le> VALUE_MAX_BYTES" "length q \<le> VALUE_MAX_BYTES"
  shows "parse_frame fp (encode_command [''SET'', p, q]) = Ok (Complete (Set p q) (length (encode_command [''SET'', p, q])))"
    and "parse_frame fp (encode_command [''GET'', p]) = Ok (Complete (Get p) (length (encode_command [''GET'', p])))"
    and "parse_frame fp (encode_command [''INCR'', p]) = Ok (Complete (IncrBy p 1) (length (encode_command [''INCR'', p])))"
proof -
  have f: "frame_ok [''SET'', p, q]" "frame_ok [''GET'', p]" "frame_ok [''INCR'', p]"
    using assms by (simp_all add: frame_ok_def MAX_BULK_LEN_def MAX_ARRAY_ELEMENTS_def VALUE_MAX_BYTES_def)
  have b: "build_command fp [''SET'', p, q] = Ok (Set p q)" "build_command fp [''GET'', p] = Ok (Get p)"
    "build_command fp [''INCR'', p] = Ok (IncrBy p 1)"
    by (simp_all add: build_command_def build_data_command_def build_key_command_def with_key_def with_key_value_def
        ascii_uppercase_def ascii_upper_def Let_def)
  show "parse_frame fp (encode_command [''SET'', p, q]) = Ok (Complete (Set p q) (length (encode_command [''SET'', p, q])))"
    "parse_frame fp (encode_command [''GET'', p]) = Ok (Complete (Get p) (length (encode_command [''GET'', p])))"
    "parse_frame fp (encode_command [''INCR'', p]) = Ok (Complete (IncrBy p 1) (length (encode_command [''INCR'', p])))"
    using parse_frame_encode [OF f(1), of fp "[]"] parse_frame_encode [OF f(2), of fp "[]"]
      parse_frame_encode [OF f(3), of fp "[]"] b by simp_all
qed

lemmas kind_here = read_kind_replies [where rest = "[]", unfolded append_Nil2] read_kind_bulk [where rest = "[]", unfolded append_Nil2]

interpretation set_phase: quiet_phase "''SET''" "set_request vs" "set_cmd vs" "key_fits vs"
  "\<lambda>d m. counts n m \<and> stored vs d m" "43 + vs + PER_ENTRY_OVERHEAD" for vs n
proof
  fix d cid
  assume "key_fits vs d cid"
  then have k: "length (phase_key cid (d cid)) \<le> 43" "vs \<le> VALUE_MAX_BYTES" by (simp_all add: key_fits_def length_key)
  have k0: "0 < length (phase_key cid (d cid))" by (simp add: phase_key_def)
  show "parse_frame fp (set_request vs cid (d cid)) = Ok (Complete (set_cmd vs cid (d cid)) (length (set_request vs cid (d cid))))" for fp
    using requests_parse(1) [of "phase_key cid (d cid)" "replicate vs (CHR ''x'')" fp] k
    by (simp add: set_request_def set_cmd_def VALUE_MAX_BYTES_def)
  show "\<exists>r m' k. spec_step v op m = (r, m') \<and> (counts n m' \<and> stored vs (d(cid := d cid + 1)) m') \<and> k \<noteq> CHR ''-'' \<and>
       read_reply_kind (reply_bytes Resp2 (set_cmd vs cid (d cid)) r) = (Ok k, [])"
    if "counts n m \<and> stored vs d m" "command_op ce (set_cmd vs cid (d cid)) = Some (v, v2, op)" for m ce v v2 op
  proof -
    have op: "op = OSet (phase_key cid (d cid)) (replicate vs (CHR ''x''))" using that(2) by (simp add: set_cmd_def)
    let ?m = "m(phase_key cid (d cid) \<mapsto> (replicate vs (CHR ''x''), None))"
    have "counts n ?m" using that(1) by (simp add: counts_def)
    then show ?thesis using that(1) stored_put [of vs d m cid] k k0 unfolding op
      by (intro exI [of _ "RBulk (map_option fst (expire_to (now_late v) m (phase_key cid (d cid))))"] exI [of _ ?m] exI [of _ "CHR ''+''"])
        (simp add: valid_pair_def set_cmd_def kind_here)
  qed
  show "op_bytes op \<le> 43 + vs + PER_ENTRY_OVERHEAD \<and> total entry_bytes (e_store (snd (run_op v v2 op s)))
      \<le> total entry_bytes (e_store s) + (43 + vs + PER_ENTRY_OVERHEAD)"
    if "good (False, cfg) s" "max_memory cfg = 0" "command_op ce (set_cmd vs cid (d cid)) = Some (v, v2, op)" for cfg s ce v v2 op
    using set_growth [OF that(1,2), of v v2 "phase_key cid (d cid)" "replicate vs (CHR ''x'')"] that(3) k by (auto simp: set_cmd_def)
qed (auto simp: set_cmd_def data_command_def counts_expire stored_expire)

interpretation get_phase: quiet_phase "''GET''" get_request get_cmd "\<lambda>d cid. key_fits vs d cid \<and> d cid < q cid"
  "\<lambda>d m. counts n m \<and> stored vs q m" 0 for vs q n
proof
  fix d cid
  assume f: "key_fits vs d cid \<and> d cid < q cid"
  then have k: "length (phase_key cid (d cid)) \<le> 43" "vs \<le> VALUE_MAX_BYTES" by (simp_all add: key_fits_def length_key)
  show "parse_frame fp (get_request cid (d cid)) = Ok (Complete (get_cmd cid (d cid)) (length (get_request cid (d cid))))" for fp
    using requests_parse(2) [of "phase_key cid (d cid)" "[]" fp] k by (simp add: get_request_def get_cmd_def VALUE_MAX_BYTES_def)
  show "\<exists>r m' k. spec_step v op m = (r, m') \<and> (counts n m' \<and> stored vs q m') \<and> k \<noteq> CHR ''-'' \<and>
       read_reply_kind (reply_bytes Resp2 (get_cmd cid (d cid)) r) = (Ok k, [])"
    if "counts n m \<and> stored vs q m" "command_op ce (get_cmd cid (d cid)) = Some (v, v2, op)" for m ce v v2 op
  proof -
    have op: "op = OGet (phase_key cid (d cid))" using that(2) by (simp add: get_cmd_def)
    have m: "m (phase_key cid (d cid)) = Some (replicate vs (CHR ''x''), None)" using that(1) f by (simp add: stored_def)
    then show ?thesis using that(1) k unfolding op
      by (intro exI [of _ "RBulk (Some (replicate vs (CHR ''x'')))"] exI [of _ m] exI [of _ "CHR ''$''"])
        (simp add: get_cmd_def enc_bulk_or_null_def kind_here VALUE_MAX_BYTES_def)
  qed
  show "op_bytes op \<le> 0 \<and> total entry_bytes (e_store (snd (run_op v v2 op s))) \<le> total entry_bytes (e_store s) + 0"
    if "good (False, cfg) s" "command_op ce (get_cmd cid (d cid)) = Some (v, v2, op)" for cfg s ce v v2 op
    using get_growth [OF that(1), of v v2 "phase_key cid (d cid)"] that(2) by (auto simp: get_cmd_def)
qed (auto simp: get_cmd_def data_command_def counts_expire stored_expire)

lemma sum_bump: "cid < (n::nat) \<Longrightarrow> (\<Sum>i<n. int ((d(cid := d cid + 1)) i)) = (\<Sum>i<n. int (d i)) + 1"
  by (simp add: sum.remove [of "{..<n}" cid])

interpretation incr_phase: quiet_phase "''INCR''" incr_request incr_cmd
  "\<lambda>d cid. cid < k \<and> in_i64 (n + (\<Sum>i<k. int (d i)) + 1)"
  "\<lambda>d m. counts (n + (\<Sum>i<k. int (d i))) m \<and> stored vs q m" "27 + PER_ENTRY_OVERHEAD" for vs q n k
proof
  fix d cid
  assume f: "cid < k \<and> in_i64 (n + (\<Sum>i<k. int (d i)) + 1)"
  show "parse_frame fp (incr_request cid (d cid)) = Ok (Complete (incr_cmd cid (d cid)) (length (incr_request cid (d cid))))" for fp
    using requests_parse(3) [of "''counter''" "[]" fp] by (simp add: incr_request_def incr_cmd_def VALUE_MAX_BYTES_def)
  show "\<exists>r m' c. spec_step v op m = (r, m') \<and> (counts (n + (\<Sum>i<k. int ((d(cid := d cid + 1)) i))) m' \<and> stored vs q m')
      \<and> c \<noteq> CHR ''-'' \<and> read_reply_kind (reply_bytes Resp2 (incr_cmd cid (d cid)) r) = (Ok c, [])"
    if "counts (n + (\<Sum>i<k. int (d i))) m \<and> stored vs q m" "command_op ce (incr_cmd cid (d cid)) = Some (v, v2, op)" for m ce v v2 op
  proof -
    let ?n = "n + (\<Sum>i<k. int (d i))"
    have op: "op = OIncrBy ''counter'' 1" using that(2) by (simp add: incr_cmd_def)
    have cur: "(case m ''counter'' of None \<Rightarrow> Some 0 | Some (x, _) \<Rightarrow> parse_i64 x) = Some ?n"
      and ttl: "Option.bind (m ''counter'') snd = None"
      using that(1) by (auto simp: counts_def split: option.splits)
    have "spec_step v op m = (RInt (?n + 1), m(''counter'' \<mapsto> (show_int (?n + 1), None)))"
      unfolding op using cur ttl f by simp
    moreover have "counts (?n + 1) (m(''counter'' \<mapsto> (show_int (?n + 1), None)))" using f by (simp add: counts_def)
    moreover have "stored vs q (m(''counter'' \<mapsto> (show_int (?n + 1), None)))" using that(1) by (simp add: stored_def)
    ultimately show ?thesis using sum_bump [of cid k d] f
      by (intro exI [of _ "RInt (?n + 1)"] exI [of _ "m(''counter'' \<mapsto> (show_int (?n + 1), None))"] exI [of _ "CHR '':''"])
        (simp add: incr_cmd_def kind_here add.assoc)
  qed
  show "op_bytes op \<le> 27 + PER_ENTRY_OVERHEAD \<and> total entry_bytes (e_store (snd (run_op v v2 op s)))
      \<le> total entry_bytes (e_store s) + (27 + PER_ENTRY_OVERHEAD)"
    if "good (False, cfg) s" "max_memory cfg = 0" "command_op ce (incr_cmd cid (d cid)) = Some (v, v2, op)" for cfg s ce v v2 op
    using incr_growth [OF that(1,2), of v v2 "''counter''" 1] that(3) by (auto simp: incr_cmd_def)
qed (auto simp: incr_cmd_def data_command_def counts_expire stored_expire)

section \<open>The whole run\<close>

text \<open>A phase whose connections work and whose schedule finishes.\<close>

definition healthy :: "load_config \<Rightarrow> 'f phase_env \<Rightarrow> bool" where
  "healthy cf pe \<longleftrightarrow> (\<forall>cid. pe_connected pe cid) \<and> (\<forall>cid i. x_write_ok (pe_conn pe cid) i) \<and> complete cf (pe_sched pe)"

text \<open>What the requests of a run can add to the keyspace.\<close>

definition run_bytes :: "load_config \<Rightarrow> nat" where
  "run_bytes cf = (70 + lg_value_size cf + 2 * PER_ENTRY_OVERHEAD) * lg_requests cf"

lemma quota_bounds:
  assumes "lg_clients cf \<le> u64_max" "lg_requests cf \<le> u64_max" "0 < lg_clients cf" "d cid < quota cf cid"
  shows "cid < lg_clients cf" "d cid \<le> u64_max" "cid \<le> u64_max"
proof -
  show c: "cid < lg_clients cf" using assms(4) by (simp add: quota_def split: if_splits)
  have "client_share cf cid \<le> (\<Sum>i<lg_clients cf. client_share cf i)" by (rule member_le_sum) (use c in auto)
  then show "d cid \<le> u64_max" "cid \<le> u64_max" using assms c shares_sum [of cf] by (simp_all add: quota_def)
qed

lemma quota_sum: "0 < lg_clients cf \<Longrightarrow> (\<Sum>i<lg_clients cf. quota cf i) = lg_requests cf"
  using shares_sum [of cf] by (simp add: quota_def)

lemma done_sum_less:
  assumes "0 < lg_clients cf" "\<forall>i. d i \<le> quota cf i" "d cid < quota cf cid"
  shows "(\<Sum>i<lg_clients cf. int (d i)) + 1 \<le> int (lg_requests cf)"
proof -
  have "cid < lg_clients cf" using assms(3) by (simp add: quota_def split: if_splits)
  then have "(\<Sum>i<lg_clients cf. d i) < (\<Sum>i<lg_clients cf. quota cf i)"
    using assms(2,3) by (intro sum_strict_mono_ex1) auto
  then have "(\<Sum>i<lg_clients cf. d i) + 1 \<le> lg_requests cf" using quota_sum [OF assms(1)] by simp
  then have "int ((\<Sum>i<lg_clients cf. d i) + 1) \<le> int (lg_requests cf)" by (simp only: of_nat_le_iff)
  then show ?thesis by (simp add: of_nat_sum)
qed

lemma load_gen_quiet:
  assumes args: "lg_parse_args args = Ok (Some cf)" and vs: "lg_value_size cf \<le> VALUE_MAX_BYTES"
    and e: "calm cfg s" and cnt: "counts n (view t s)" "in_i64 n" "n + int (lg_requests cf) \<le> i64_max"
    and h: "healthy cf pe1" "healthy cf pe2" "healthy cf pe3"
    and clk: "phase_clock (pe_conn pe1) (quota cf) (\<lambda>_. 0) t (pe_sched pe1) = Some t1"
      "phase_clock (pe_conn pe2) (quota cf) (\<lambda>_. 0) t1 (pe_sched pe2) = Some t2"
      "phase_clock (pe_conn pe3) (quota cf) (\<lambda>_. 0) t2 (pe_sched pe3) = Some t3"
    and room: "headroom s (run_bytes cf)"
  shows "\<exists>tt s'. load_gen_main pe1 pe2 pe3 args s = (0, tt, s') \<and> counts (n + int (lg_requests cf)) (view t3 s')
    \<and> stored (lg_value_size cf) (quota cf) (view t3 s')"
proof -
  let ?vs = "lg_value_size cf" and ?R = "lg_requests cf"
  have b: "0 < lg_clients cf" "lg_clients cf \<le> u64_max" "?R \<le> u64_max" using lg_parse_args_ok [OF args] by simp_all
  obtain tt1 s1 where r1: "run_phase pe1 ''SET'' cf (set_request ?vs) (totals_new, s) = (tt1, s1)" by (metis prod.exhaust)
  obtain tt2 s2 where r2: "run_phase pe2 ''GET'' cf get_request (tt1, s1) = (tt2, s2)" by (metis prod.exhaust)
  obtain tt3 s3 where r3: "run_phase pe3 ''INCR'' cf incr_request (tt2, s2) = (tt3, s3)" by (metis prod.exhaust)
  have kf: "key_fits ?vs d cid" if "d cid < quota cf cid" for d cid
    using quota_bounds [of cf d cid, OF b(2,3,1) that] vs by (simp add: key_fits_def)
  have room': "headroom s ((43 + ?vs + PER_ENTRY_OVERHEAD) * ?R + (27 + PER_ENTRY_OVERHEAD) * ?R)"
    using room by (simp add: run_bytes_def algebra_simps)
  have p1: "tot_errors tt1 = tot_errors totals_new \<and> calm cfg s1
      \<and> (counts n (view t1 s1) \<and> stored ?vs (quota cf) (view t1 s1)) \<and> headroom s1 ((27 + PER_ENTRY_OVERHEAD) * ?R)"
    by (rule set_phase.quiet_run_phase [OF b(1) _ _ _ clk(1) kf e _ room' r1])
      (use h(1) cnt(1) in \<open>simp_all add: healthy_def stored_def\<close>)
  have p2: "tot_errors tt2 = tot_errors tt1 \<and> calm cfg s2
      \<and> (counts n (view t2 s2) \<and> stored ?vs (quota cf) (view t2 s2)) \<and> headroom s2 ((27 + PER_ENTRY_OVERHEAD) * ?R)"
    by (rule get_phase.quiet_run_phase [where vs = ?vs, OF b(1) _ _ _ clk(2) _ _ _ _ r2])
      (use h(2) p1 kf in \<open>simp_all add: healthy_def\<close>)
  have fit: "cid < lg_clients cf \<and> in_i64 (n + (\<Sum>i<lg_clients cf. int (d i)) + 1)"
    if "\<forall>i. d i \<le> quota cf i" "d cid < quota cf cid" for d cid
  proof -
    have "0 \<le> (\<Sum>i<lg_clients cf. int (d i))" by (simp add: sum_nonneg)
    then show ?thesis
      using done_sum_less [of cf d cid, OF b(1) that] quota_bounds(1) [of cf d cid, OF b(2,3,1) that(2)] cnt(2,3) by (simp add: in_i64_def)
  qed
  have p3: "tot_errors tt3 = tot_errors tt2 \<and> calm cfg s3
      \<and> (counts (n + (\<Sum>i<lg_clients cf. int (quota cf i))) (view t3 s3) \<and> stored ?vs (quota cf) (view t3 s3)) \<and> headroom s3 0"
    by (rule incr_phase.quiet_run_phase [where q = "quota cf", OF b(1) _ _ _ clk(3) fit _ _ _ r3])
      (use h(3) p2 in \<open>simp_all add: healthy_def\<close>)
  have "(\<Sum>i<lg_clients cf. int (quota cf i)) = int ?R" using quota_sum [OF b(1)] by (metis of_nat_sum)
  then show ?thesis using args r1 r2 r3 p1 p2 p3 by (simp add: load_gen_main_def)
qed

end
