(* ===== verification/Hit_Ratio.thy ===== *)
theory Hit_Ratio
  imports Client_Link Cli Dash_Codec
begin

text \<open>
  Models \<^verbatim>\<open>src/examples/hit_ratio_bench.rs\<close>, the hit-ratio benchmark: its command line, the generator of random numbers
  and of key sequences, the read-through client that replays a workload against a server of the model, the reading
  of the server's counters, the command line it starts a server with, and the table of results. \<^verbatim>\<open>f64\<close> is a record of
  operations. Arithmetic is that of the release build the program is documented to run in (wrapping); a division
  by zero panics. Pacing, the readiness probe and the process handling are left out: whether a server came up is
  an input.
\<close>

section \<open>Patterns, policies and random numbers\<close>

definition bytes_per_entry :: "nat \<Rightarrow> nat" where
  "bytes_per_entry value_size = wrap_u64 (9 + value_size + PER_ENTRY_OVERHEAD)"

datatype pattern = PZipf | PShift | PMixed | PScan | PTtlHeavy

fun pattern_name :: "pattern \<Rightarrow> bytes" where
  "pattern_name PZipf = ''zipf''"
| "pattern_name PShift = ''shift''"
| "pattern_name PMixed = ''mixed''"
| "pattern_name PScan = ''scan''"
| "pattern_name PTtlHeavy = ''ttl''"

text \<open>\<^verbatim>\<open>pattern as u64\<close>.\<close>

fun pattern_number :: "pattern \<Rightarrow> nat" where
  "pattern_number PZipf = 0"
| "pattern_number PShift = 1"
| "pattern_number PMixed = 2"
| "pattern_number PScan = 3"
| "pattern_number PTtlHeavy = 4"

datatype bench_policy = BLru | BLfu | BAhe | BRandom | BSieve | BSieveS

fun bench_policy_name :: "bench_policy \<Rightarrow> bytes" where
  "bench_policy_name BLru = ''allkeys-lru''"
| "bench_policy_name BLfu = ''allkeys-lfu''"
| "bench_policy_name BAhe = ''allkeys-ahe''"
| "bench_policy_name BRandom = ''allkeys-random''"
| "bench_policy_name BSieve = ''allkeys-sieve''"
| "bench_policy_name BSieveS = ''allkeys-sieves''"

type_synonym rng = "64 word"

definition rng_new :: "64 word \<Rightarrow> rng" where
  "rng_new seed = seed OR 1"

definition next_u64 :: "rng \<Rightarrow> rng" where
  "next_u64 x0 =
     (let x1 = x0 XOR push_bit 13 x0;
          x2 = x1 XOR drop_bit 7 x1
      in x2 XOR push_bit 17 x2)"

record 'f bench_f64 =
  bf_of_u64 :: "nat \<Rightarrow> 'f"
  bf_add :: "'f \<Rightarrow> 'f \<Rightarrow> 'f"
  bf_mul :: "'f \<Rightarrow> 'f \<Rightarrow> 'f"
  bf_div :: "'f \<Rightarrow> 'f \<Rightarrow> 'f"
  bf_powf :: "'f \<Rightarrow> 'f \<Rightarrow> 'f"
  bf_less :: "'f \<Rightarrow> 'f \<Rightarrow> bool"
  bf_parse :: "bytes \<Rightarrow> 'f option"

definition next_f64 :: "'f bench_f64 \<Rightarrow> rng \<Rightarrow> 'f \<times> rng" where
  "next_f64 fo r =
     (let x = next_u64 r
      in (bf_div fo (bf_of_u64 fo (unat (drop_bit 11 x))) (bf_of_u64 fo (2 ^ 53)), x))"

text \<open>The running sums of \<^verbatim>\<open>build_zipf_cdf\<close>, for the ranks \<open>i\<close>, \<open>i + 1\<close>, \dots\<close>

fun zipf_sums :: "'f bench_f64 \<Rightarrow> 'f \<Rightarrow> 'f \<Rightarrow> nat list \<Rightarrow> 'f list" where
  "zipf_sums fo s acc [] = []"
| "zipf_sums fo s acc (i # is) =
     (let acc = bf_add fo acc (bf_div fo (bf_of_u64 fo 1) (bf_powf fo (bf_of_u64 fo i) s))
      in acc # zipf_sums fo s acc is)"

definition build_zipf_cdf :: "'f bench_f64 \<Rightarrow> nat \<Rightarrow> 'f \<Rightarrow> 'f list" where
  "build_zipf_cdf fo n s =
     (let cdf = zipf_sums fo s (bf_of_u64 fo 0) [1..<n + 1];
          whole = (if cdf = [] then bf_of_u64 fo 0 else last cdf);
          scale = bf_div fo (bf_of_u64 fo 1) whole
      in map (\<lambda>v. bf_mul fo v scale) cdf)"

text \<open>\<^verbatim>\<open>partition_point\<close> on a table that is sorted, and the clamp to the last rank. For an empty table the
  subtraction wraps.\<close>

definition sample_zipf :: "'f bench_f64 \<Rightarrow> 'f list \<Rightarrow> 'f \<Rightarrow> nat" where
  "sample_zipf fo cdf u =
     (let idx = length (takeWhile (\<lambda>v. bf_less fo v u) cdf)
      in min idx (if cdf = [] then u64_max else length cdf - 1))"

section \<open>The sequence of keys\<close>

record 'f bench_params =
  bp_working_set :: nat
  bp_capacity :: nat
  bp_ops :: nat
  bp_pace_ms :: 'f
  bp_value_size :: nat
  bp_seed :: nat
  bp_epochs :: nat
  bp_zipf_s :: 'f
  bp_hot_frac :: 'f
  bp_durable_frac :: 'f
  bp_durable_pool :: nat
  bp_ephemeral_pool :: nat
  bp_durable_ttl_secs :: nat
  bp_ephemeral_ttl_secs :: nat
  bp_base_port :: nat

record 'f bench_cdfs =
  cd_whole :: "'f list"
  cd_band :: "'f list"
  cd_hot :: "'f list"
  cd_durable :: "'f list"
  cd_ephemeral :: "'f list"

text \<open>The tables \<^verbatim>\<open>main\<close> builds; without epochs its division panics.\<close>

definition bench_tables :: "'f bench_f64 \<Rightarrow> 'f bench_params \<Rightarrow> 'f bench_cdfs option" where
  "bench_tables fo p =
     (if bp_epochs p = 0 then None else Some
     \<lparr>cd_whole = build_zipf_cdf fo (bp_working_set p) (bp_zipf_s p),
      cd_band = build_zipf_cdf fo (max (bp_working_set p div bp_epochs p) 1) (bp_zipf_s p),
      cd_hot = build_zipf_cdf fo (bp_capacity p) (bp_zipf_s p),
      cd_durable = build_zipf_cdf fo (bp_durable_pool p) (bp_zipf_s p),
      cd_ephemeral = build_zipf_cdf fo (bp_ephemeral_pool p) (bp_zipf_s p)\<rparr>)"

text \<open>A key number and the seconds it should live; \<open>None\<close> is a panic (division by zero).\<close>

definition gen_id ::
  "'f bench_f64 \<Rightarrow> pattern \<Rightarrow> nat \<Rightarrow> nat \<Rightarrow> 'f bench_params \<Rightarrow> 'f bench_cdfs \<Rightarrow> rng \<Rightarrow> ((nat \<times> nat) \<times> rng) option" where
  "gen_id fo pattern op ops p cdfs r =
     (case pattern of
        PScan \<Rightarrow> if bp_working_set p = 0 then None else Some ((op mod bp_working_set p, 0), r)
      | PZipf \<Rightarrow> (let (u, r) = next_f64 fo r in Some ((sample_zipf fo (cd_whole cdfs) u, 0), r))
      | PShift \<Rightarrow>
          if bp_epochs p = 0 \<or> bp_working_set p = 0 then None
          else let band = max (bp_working_set p div bp_epochs p) 1;
                   epoch = wrap_u64 (op * bp_epochs p) div max ops 1;
                   base = wrap_u64 (epoch * band);
                   (u, r) = next_f64 fo r;
                   rank = sample_zipf fo (cd_band cdfs) u
               in Some ((wrap_u64 (base + rank) mod bp_working_set p, 0), r)
      | PMixed \<Rightarrow>
          (let (u, r) = next_f64 fo r in
           if bf_less fo u (bp_hot_frac p) then
             let (u, r) = next_f64 fo r in Some ((sample_zipf fo (cd_hot cdfs) u, 0), r)
           else if bp_working_set p = 0 then None
           else Some ((op mod bp_working_set p, 0), r))
      | PTtlHeavy \<Rightarrow>
          (let (u, r) = next_f64 fo r in
           if bf_less fo u (bp_durable_frac p) then
             let (u, r) = next_f64 fo r;
                 kid = sample_zipf fo (cd_durable cdfs) u mod max (bp_durable_pool p) 1
             in Some ((kid, bp_durable_ttl_secs p), r)
           else
             let pool = max (bp_ephemeral_pool p) 1;
                 (u, r) = next_f64 fo r;
                 kid = wrap_u64 (bp_durable_pool p + sample_zipf fo (cd_ephemeral cdfs) u mod pool)
             in Some ((kid, bp_ephemeral_ttl_secs p), r)))"

section \<open>The client\<close>

datatype bench_reply = RpSimple | RpError bytes | RpBulk bytes | RpNull

datatype bench_error =
    DivByZero | SendFailed | RecvFailed | BadBulkLength | BadPrefix byte | GetFailed bytes | InfoNotBulk | StatsMissing

fun hb_read_line :: "bytes \<Rightarrow> bytes \<Rightarrow> (bytes \<times> bytes) option" where
  "hb_read_line out [] = None"
| "hb_read_line out (b # bs) =
     (if b = LF then Some (out, bs)
      else if b = CR then hb_read_line out bs
      else hb_read_line (out @ [b]) bs)"

text \<open>The outcome and the bytes left in the socket.\<close>

definition read_reply :: "bytes \<Rightarrow> (bench_error + bench_reply) \<times> bytes" where
  "read_reply stream =
     (case stream of
        [] \<Rightarrow> (Err RecvFailed, [])
      | h # bs \<Rightarrow>
          if h \<noteq> CHR ''+'' \<and> h \<noteq> CHR ''-'' \<and> h \<noteq> CHR '':'' \<and> h \<noteq> CHR ''$'' then (Err (BadPrefix h), bs)
          else (case hb_read_line [] bs of
             None \<Rightarrow> (Err RecvFailed, [])
           | Some (line, rest) \<Rightarrow>
               if h = CHR ''+'' \<or> h = CHR '':'' then (Ok RpSimple, rest)
               else if h = CHR ''-'' then (Ok (RpError line), rest)
               else (case parse_i64 (trim line) of
                  None \<Rightarrow> (Err BadBulkLength, rest)
                | Some len \<Rightarrow>
                    if len < 0 then (Ok RpNull, rest)
                    else (case read_exact (nat len) rest of
                       None \<Rightarrow> (Err RecvFailed, [])
                     | Some (body, rest) \<Rightarrow>
                         (case read_exact 2 rest of
                            None \<Rightarrow> (Err RecvFailed, [])
                          | Some (crlf, rest) \<Rightarrow> (Ok (RpBulk body), rest))))))"

definition hb_append_bulk :: "bytes \<Rightarrow> bytes \<Rightarrow> bytes" where
  "hb_append_bulk out payload = out @ (CHR ''$'' # show_nat (length payload) @ CRLF) @ payload @ CRLF"

definition hb_build_get :: "bytes \<Rightarrow> bytes" where
  "hb_build_get key = hb_append_bulk (hb_append_bulk (''*2'' @ CRLF) ''GET'') key"

definition hb_build_set :: "bytes \<Rightarrow> bytes \<Rightarrow> bytes" where
  "hb_build_set key val = hb_append_bulk (hb_append_bulk (hb_append_bulk (''*3'' @ CRLF) ''SET'') key) val"

definition hb_build_set_ex :: "bytes \<Rightarrow> nat \<Rightarrow> bytes" where
  "hb_build_set_ex key ttl_secs =
     hb_append_bulk (hb_append_bulk (hb_append_bulk (''*3'' @ CRLF) ''EXPIRE'') key) (show_nat ttl_secs)"

text \<open>\<^verbatim>\<open>format!("k{:08}", id)\<close>.\<close>

definition bench_key :: "nat \<Rightarrow> bytes" where
  "bench_key kid = CHR ''k'' # replicate (8 - length (show_nat kid)) (CHR ''0'') @ show_nat kid"

text \<open>A request whose reply is read and thrown away, errors of the reading included.\<close>

definition send_ignore :: "'f conn_env \<Rightarrow> bytes \<Rightarrow> link \<times> engine \<Rightarrow> (link \<times> engine) option" where
  "send_ignore x frame st =
     map_option (\<lambda>(l, s). (l\<lparr>l_unread := snd (read_reply (l_unread l))\<rparr>, s)) (link_send x frame (fst st) (snd st))"

text \<open>One turn of the loop of \<^verbatim>\<open>run_workload\<close>, after the key has been chosen.\<close>

definition bench_access ::
  "'f conn_env \<Rightarrow> bytes \<Rightarrow> nat \<Rightarrow> bytes \<Rightarrow> link \<times> engine \<Rightarrow> bench_error + link \<times> engine" where
  "bench_access x key ttl val st =
     (case link_send x (hb_build_get key) (fst st) (snd st) of
        None \<Rightarrow> Err SendFailed
      | Some (l, s) \<Rightarrow>
          (case read_reply (l_unread l) of
             (Inl e, rest) \<Rightarrow> Err e
           | (Inr (RpError e), rest) \<Rightarrow> Err (GetFailed e)
           | (Inr RpNull, rest) \<Rightarrow>
               (case send_ignore x (hb_build_set key val) (l\<lparr>l_unread := rest\<rparr>, s) of
                  None \<Rightarrow> Err SendFailed
                | Some st1 \<Rightarrow>
                    if ttl > 0 then
                      (case send_ignore x (hb_build_set_ex key ttl) st1 of None \<Rightarrow> Err SendFailed | Some st2 \<Rightarrow> Ok st2)
                    else Ok st1)
           | (Inr _, rest) \<Rightarrow> Ok (l\<lparr>l_unread := rest\<rparr>, s)))"

fun bench_loop ::
  "'g bench_f64 \<Rightarrow> 'f conn_env \<Rightarrow> pattern \<Rightarrow> 'g bench_params \<Rightarrow> 'g bench_cdfs \<Rightarrow> bytes \<Rightarrow> nat list \<Rightarrow> rng \<Rightarrow>
   link \<times> engine \<Rightarrow> bench_error + link \<times> engine" where
  "bench_loop fo x pattern p cdfs val [] r st = Ok st"
| "bench_loop fo x pattern p cdfs val (op # ops) r st =
     (case gen_id fo pattern op (bp_ops p) p cdfs r of
        None \<Rightarrow> Err DivByZero
      | Some ((kid, ttl), r) \<Rightarrow>
          (case bench_access x (bench_key kid) ttl val st of
             Inl e \<Rightarrow> Err e
           | Inr st \<Rightarrow> bench_loop fo x pattern p cdfs val ops r st))"

text \<open>\<^verbatim>\<open>str::strip_prefix\<close>.\<close>

definition str_strip_prefix :: "bytes \<Rightarrow> bytes \<Rightarrow> bytes option" where
  "str_strip_prefix pre s = (if take (length pre) s = pre then Some (drop (length pre) s) else None)"

fun scan_stats :: "bytes list \<Rightarrow> nat option \<Rightarrow> nat option \<Rightarrow> nat option \<times> nat option" where
  "scan_stats [] hits misses = (hits, misses)"
| "scan_stats (line # lines) hits misses =
     (case str_strip_prefix ''keyspace_hits:'' line of
        Some v \<Rightarrow> scan_stats lines (parse_unsigned u64_max (trim v)) misses
      | None \<Rightarrow>
          (case str_strip_prefix ''keyspace_misses:'' line of
             Some v \<Rightarrow> scan_stats lines hits (parse_unsigned u64_max (trim v))
           | None \<Rightarrow> scan_stats lines hits misses))"

definition parse_hit_ratio :: "'f bench_f64 \<Rightarrow> bytes \<Rightarrow> bench_error + 'f" where
  "parse_hit_ratio fo body =
     (case scan_stats (str_lines body) None None of
        (Some h, Some m) \<Rightarrow>
          let all = wrap_u64 (h + m) in
          if all = 0 then Ok (bf_of_u64 fo 0) else Ok (bf_div fo (bf_of_u64 fo h) (bf_of_u64 fo all))
      | _ \<Rightarrow> Err StatsMissing)"

text \<open>\<^verbatim>\<open>run_workload\<close> on an established connection: the ratio and the server's state afterwards.\<close>

definition run_workload ::
  "'g bench_f64 \<Rightarrow> 'f conn_env \<Rightarrow> pattern \<Rightarrow> 'g bench_params \<Rightarrow> 'g bench_cdfs \<Rightarrow> engine \<Rightarrow> bench_error + 'g \<times> engine" where
  "run_workload fo x pattern p cdfs s =
     (let val = replicate (bp_value_size p) (CHR ''v'');
          r = rng_new (of_nat (bp_seed p) XOR of_nat (pattern_number pattern) * 0x9E3779B9) in
      case bench_loop fo x pattern p cdfs val [0..<bp_ops p] r (link_new, s) of
        Inl e \<Rightarrow> Err e
      | Inr (l, s) \<Rightarrow>
          (case link_send x (''*2'' @ CRLF @ ''$4'' @ CRLF @ ''INFO'' @ CRLF @ ''$5'' @ CRLF @ ''stats'' @ CRLF) l s of
             None \<Rightarrow> Err SendFailed
           | Some (l, s) \<Rightarrow>
               (case read_reply (l_unread l) of
                  (Inl e, _) \<Rightarrow> Err e
                | (Inr (RpBulk body), _) \<Rightarrow> map_sum id (\<lambda>ratio. (ratio, s)) (parse_hit_ratio fo body)
                | (Inr _, _) \<Rightarrow> Err InfoNotBulk)))"

section \<open>Command lines\<close>

text \<open>The arguments a server is started with.\<close>

definition server_argv :: "bench_policy \<Rightarrow> nat \<Rightarrow> bytes \<Rightarrow> bytes list" where
  "server_argv pol mem addr =
     [''--addr'', addr, ''--maxmemory'', show_nat mem, ''--maxmemory-policy'', bench_policy_name pol,
      ''--dashboard-addr'', ''off'']"

definition split_list :: "bytes \<Rightarrow> bytes list" where
  "split_list s = filter (\<lambda>t. t \<noteq> []) (map trim (split_on (CHR '','') s))"

definition pattern_of :: "bytes \<Rightarrow> pattern option" where
  "pattern_of t = find (\<lambda>p. pattern_name p = t) [PZipf, PShift, PMixed, PScan, PTtlHeavy]"

definition policy_of :: "bytes \<Rightarrow> bench_policy option" where
  "policy_of t = map_of [(''lru'', BLru), (''lfu'', BLfu), (''ahe'', BAhe), (''random'', BRandom), (''sieve'', BSieve),
     (''sieves'', BSieveS)] t"

text \<open>An unknown name panics.\<close>

definition parse_patterns :: "bytes \<Rightarrow> pattern list option" where
  "parse_patterns s = those (map pattern_of (split_list s))"

definition parse_policies :: "bytes \<Rightarrow> bench_policy list option" where
  "parse_policies s = those (map policy_of (split_list s))"

record 'f bench_config =
  bc_patterns :: "pattern list"
  bc_policies :: "bench_policy list"
  bc_params :: "'f bench_params"

text \<open>The defaults; the four fractions are given as the literals of the source.\<close>

definition bench_default :: "'f \<Rightarrow> 'f \<Rightarrow> 'f \<Rightarrow> 'f \<Rightarrow> 'f bench_config" where
  "bench_default pace zipf_s hot_frac durable_frac =
     \<lparr>bc_patterns = [PZipf, PShift, PMixed, PScan], bc_policies = [BLru, BLfu, BAhe, BRandom],
      bc_params = \<lparr>bp_working_set = 100000, bp_capacity = 5000, bp_ops = 3000, bp_pace_ms = pace, bp_value_size = 64,
        bp_seed = 0x12345678, bp_epochs = 8, bp_zipf_s = zipf_s, bp_hot_frac = hot_frac, bp_durable_frac = durable_frac,
        bp_durable_pool = 10000, bp_ephemeral_pool = 5000, bp_durable_ttl_secs = 3600, bp_ephemeral_ttl_secs = 25,
        bp_base_port = 6391\<rparr>\<rparr>"

text \<open>The arms of \<^verbatim>\<open>parse_args\<close> by the type of their value; \<open>None\<close> is a panic.\<close>

definition on_params :: "('f bench_params \<Rightarrow> 'f bench_params) \<Rightarrow> 'f bench_config \<Rightarrow> 'f bench_config" where
  "on_params f c = c\<lparr>bc_params := f (bc_params c)\<rparr>"

definition u64_arms :: "(bytes \<times> (nat \<Rightarrow> 'f bench_params \<Rightarrow> 'f bench_params)) list" where
  "u64_arms =
     [(''--working-set'', \<lambda>n p. p\<lparr>bp_working_set := n\<rparr>), (''--capacity'', \<lambda>n p. p\<lparr>bp_capacity := n\<rparr>),
      (''--ops'', \<lambda>n p. p\<lparr>bp_ops := n\<rparr>), (''--value-size'', \<lambda>n p. p\<lparr>bp_value_size := n\<rparr>),
      (''--seed'', \<lambda>n p. p\<lparr>bp_seed := n\<rparr>), (''--epochs'', \<lambda>n p. p\<lparr>bp_epochs := n\<rparr>),
      (''--durable-pool'', \<lambda>n p. p\<lparr>bp_durable_pool := n\<rparr>), (''--ephemeral-pool'', \<lambda>n p. p\<lparr>bp_ephemeral_pool := n\<rparr>),
      (''--durable-ttl-secs'', \<lambda>n p. p\<lparr>bp_durable_ttl_secs := n\<rparr>),
      (''--ephemeral-ttl-secs'', \<lambda>n p. p\<lparr>bp_ephemeral_ttl_secs := n\<rparr>)]"

definition f64_arms :: "(bytes \<times> ('f \<Rightarrow> 'f bench_params \<Rightarrow> 'f bench_params)) list" where
  "f64_arms =
     [(''--pace-ms'', \<lambda>v p. p\<lparr>bp_pace_ms := v\<rparr>), (''--zipf-s'', \<lambda>v p. p\<lparr>bp_zipf_s := v\<rparr>),
      (''--hot-frac'', \<lambda>v p. p\<lparr>bp_hot_frac := v\<rparr>), (''--durable-frac'', \<lambda>v p. p\<lparr>bp_durable_frac := v\<rparr>)]"

definition bench_set_flag :: "'f bench_f64 \<Rightarrow> bytes \<Rightarrow> bytes \<Rightarrow> 'f bench_config \<Rightarrow> 'f bench_config option" where
  "bench_set_flag fo flag val c =
     (case map_of u64_arms flag of
        Some f \<Rightarrow> map_option (\<lambda>n. on_params (f n) c) (parse_unsigned u64_max val)
      | None \<Rightarrow>
          (case map_of f64_arms flag of
             Some f \<Rightarrow> map_option (\<lambda>v. on_params (f v) c) (bf_parse fo val)
           | None \<Rightarrow>
               if flag = ''--base-port'' then
                 map_option (\<lambda>n. on_params (\<lambda>p. p\<lparr>bp_base_port := n\<rparr>) c) (parse_unsigned 65535 val)
               else if flag = ''--patterns'' then map_option (\<lambda>ps. c\<lparr>bc_patterns := ps\<rparr>) (parse_patterns val)
               else map_option (\<lambda>ps. c\<lparr>bc_policies := ps\<rparr>) (parse_policies val)))"

definition value_flags :: "bytes list" where
  "value_flags = [''--working-set'', ''--capacity'', ''--ops'', ''--pace-ms'', ''--value-size'', ''--seed'', ''--epochs'',
     ''--zipf-s'', ''--hot-frac'', ''--durable-frac'', ''--base-port'', ''--durable-pool'', ''--ephemeral-pool'',
     ''--durable-ttl-secs'', ''--ephemeral-ttl-secs'', ''--patterns'', ''--policies'']"

datatype 'f bench_invocation = BenchPanic | BenchHelp | BenchRun "'f bench_config"

fun bench_parse_args :: "'f bench_f64 \<Rightarrow> bytes list \<Rightarrow> 'f bench_config \<Rightarrow> 'f bench_invocation" where
  "bench_parse_args fo [] c = BenchRun c"
| "bench_parse_args fo (flag # rest) c =
     (if flag \<in> set value_flags then
        (case rest of
           [] \<Rightarrow> BenchPanic
         | val # rest' \<Rightarrow> (case bench_set_flag fo flag val c of None \<Rightarrow> BenchPanic | Some c \<Rightarrow> bench_parse_args fo rest' c))
      else if flag = ''-h'' \<or> flag = ''--help'' then BenchHelp
      else BenchPanic)"

section \<open>The table\<close>

text \<open>One cell of the table: start a server at an address, wait for it, run the workload. \<open>starts\<close> and \<open>comes_up\<close> say
  which addresses can be served, \<open>work\<close> is the workload; \<open>None\<close> is a cell without a value.\<close>

definition bench_cell ::
  "(bytes \<Rightarrow> bool) \<Rightarrow> (bytes \<Rightarrow> bool) \<Rightarrow> (bench_policy \<Rightarrow> pattern \<Rightarrow> bytes \<Rightarrow> bench_error + 'f) \<Rightarrow>
   bench_policy \<Rightarrow> pattern \<Rightarrow> bytes \<Rightarrow> 'f option" where
  "bench_cell starts comes_up work pol pat addr =
     (if \<not> starts addr then None
      else if \<not> comes_up addr then None
      else (case work pol pat addr of Inl e \<Rightarrow> None | Inr ratio \<Rightarrow> Some ratio))"

text \<open>The loops of \<^verbatim>\<open>main\<close>: every policy with every pattern, each on the next port.\<close>

fun bench_row ::
  "(bench_policy \<Rightarrow> pattern \<Rightarrow> bytes \<Rightarrow> 'f option) \<Rightarrow> bench_policy \<Rightarrow> pattern list \<Rightarrow> nat \<Rightarrow> 'f option list \<times> nat" where
  "bench_row cell pol [] port = ([], port)"
| "bench_row cell pol (pat # pats) port =
     (let (row, port') = bench_row cell pol pats ((port + 1) mod 65536)
      in (cell pol pat (''127.0.0.1:'' @ show_nat port) # row, port'))"

fun bench_rows ::
  "(bench_policy \<Rightarrow> pattern \<Rightarrow> bytes \<Rightarrow> 'f option) \<Rightarrow> bench_policy list \<Rightarrow> pattern list \<Rightarrow> nat \<Rightarrow> 'f option list list" where
  "bench_rows cell [] pats port = []"
| "bench_rows cell (pol # pols) pats port =
     (let (row, port') = bench_row cell pol pats port in row # bench_rows cell pols pats port')"

text \<open>The lines of the table. \<open>percent\<close> prints a ratio times a hundred with one decimal; a missing value is an em dash.\<close>

definition table_header :: "pattern list \<Rightarrow> bytes" where
  "table_header pats = ''| Policy'' @ concat (map (\<lambda>p. '' | '' @ pattern_name p) pats) @ '' |''"

definition table_rule :: "pattern list \<Rightarrow> bytes" where
  "table_rule pats = ''|--------'' @ concat (map (\<lambda>p. ''|--------:'') pats) @ ''|''"

definition table_row :: "('f \<Rightarrow> bytes) \<Rightarrow> bench_policy \<Rightarrow> 'f option list \<Rightarrow> bytes" where
  "table_row percent pol row =
     ''| '' @ [CHR 0x60] @ bench_policy_name pol @ [CHR 0x60] @
     concat (map (\<lambda>c. case c of Some ratio \<Rightarrow> '' | '' @ percent ratio @ ''%''
        | None \<Rightarrow> '' | '' @ [CHR 0xE2, CHR 0x80, CHR 0x94]) row) @ '' |''"

definition print_table :: "('f \<Rightarrow> bytes) \<Rightarrow> 'f bench_config \<Rightarrow> 'f option list list \<Rightarrow> bytes list" where
  "print_table percent c rows =
     table_header (bc_patterns c) # table_rule (bc_patterns c) #
     map (\<lambda>(pol, row). table_row percent pol row) (zip (bc_policies c) rows)"

text \<open>\<^verbatim>\<open>max_memory\<close> of \<^verbatim>\<open>main\<close>.\<close>

definition bench_max_memory :: "'f bench_params \<Rightarrow> nat" where
  "bench_max_memory p = wrap_u64 (bp_capacity p * bytes_per_entry (bp_value_size p))"

section \<open>The generators\<close>

text \<open>The generator of random numbers never reaches its fixed point zero.\<close>

lemma push_bit_fix: "x = push_bit n x \<Longrightarrow> 0 < n \<Longrightarrow> x = (0 :: 'a::len word)"
proof (rule bit_word_eqI)
  assume eq: "x = push_bit n x" and n: "0 < n"
  have "\<not> bit x i" for i
  proof (induction i rule: less_induct)
    case (less i)
    have "bit x i \<longleftrightarrow> bit (push_bit n x) i" using arg_cong [OF eq, of "\<lambda>w. bit w i"] .
    then show ?case using less [of "i - n"] n by (auto simp: bit_push_bit_iff)
  qed
  then show "bit x i = bit 0 i" for i by simp
qed

lemma drop_bit_fix: "x = drop_bit n x \<Longrightarrow> 0 < n \<Longrightarrow> x = (0 :: 'a::len word)"
proof (rule bit_word_eqI)
  assume eq: "x = drop_bit n x" and n: "0 < n"
  have step: "bit x i \<longleftrightarrow> bit x (i + n)" for i
    using arg_cong [OF eq, of "\<lambda>w. bit w i"] by (simp add: bit_drop_bit_eq add.commute)
  have "bit x i \<longleftrightarrow> bit x (i + n * k)" for i k
  proof (induction k)
    case (Suc k)
    then show ?case using step [of "i + n * k"] by (simp add: ac_simps)
  qed simp
  moreover have "\<not> bit x (i + n * LENGTH('a))" for i
    using n bit_imp_le_length [of x "i + n * LENGTH('a)"] by (cases n) auto
  ultimately show "bit x i = bit 0 i" for i by simp
qed

lemma xor_zero: "x XOR y = 0 \<Longrightarrow> x = (y :: 'a::len word)"
  by (metis xor.assoc xor.left_neutral xor.right_neutral xor_self_eq)

lemma next_u64_nonzero: "x \<noteq> 0 \<Longrightarrow> next_u64 x \<noteq> 0"
  unfolding next_u64_def Let_def using push_bit_fix drop_bit_fix xor_zero by (metis zero_less_numeral)

lemma rng_new_nonzero: "rng_new seed \<noteq> 0"
proof -
  have "bit (rng_new seed) 0" by (simp add: rng_new_def bit_simps)
  then show ?thesis by auto
qed

lemma length_zipf_sums [simp]: "length (zipf_sums fo s acc is) = length is"
  by (induction "is" arbitrary: acc) (simp_all add: Let_def)

lemma length_zipf [simp]: "length (build_zipf_cdf fo n s) = n"
  by (simp add: build_zipf_cdf_def Let_def)

lemma sample_zipf_less: "0 < length cdf \<Longrightarrow> sample_zipf fo cdf u < length cdf"
  by (cases cdf) (auto simp: sample_zipf_def Let_def min_def)

text \<open>Where the key numbers of each pattern lie.\<close>

lemma gen_id_range:
  assumes t: "bench_tables fo p = Some cdfs"
    and p: "0 < bp_working_set p" "0 < bp_capacity p" "bp_capacity p \<le> bp_working_set p"
      "0 < bp_durable_pool p" "0 < bp_ephemeral_pool p" "bp_durable_pool p + bp_ephemeral_pool p \<le> u64_max"
  shows "\<exists>kid ttl r'. gen_id fo pattern op ops p cdfs r = Some ((kid, ttl), r') \<and>
    (if pattern = PTtlHeavy
     then kid < bp_durable_pool p \<and> ttl = bp_durable_ttl_secs p
       \<or> bp_durable_pool p \<le> kid \<and> kid < bp_durable_pool p + bp_ephemeral_pool p \<and> ttl = bp_ephemeral_ttl_secs p
     else kid < bp_working_set p \<and> ttl = 0)"
proof (cases pattern)
  case PTtlHeavy
  have "bp_durable_pool p + k mod bp_ephemeral_pool p \<le> u64_max" for k
    using p(6) mod_less_divisor [OF p(5), of k] by linarith
  then show ?thesis using PTtlHeavy p by (auto simp: gen_id_def Let_def case_prod_unfold)
next
  case PMixed
  have "sample_zipf fo (cd_hot cdfs) u < bp_working_set p" for u
    using t p sample_zipf_less [of "build_zipf_cdf fo (bp_capacity p) (bp_zipf_s p)" fo u] length_zipf [of fo "bp_capacity p" "bp_zipf_s p"]
    by (fastforce simp: bench_tables_def split: if_splits)
  then show ?thesis using PMixed p by (auto simp: gen_id_def Let_def case_prod_unfold)
next
  case PZipf
  have "sample_zipf fo (cd_whole cdfs) u < bp_working_set p" for u
    using t p sample_zipf_less [of "build_zipf_cdf fo (bp_working_set p) (bp_zipf_s p)" fo u] length_zipf [of fo "bp_working_set p" "bp_zipf_s p"]
    by (fastforce simp: bench_tables_def split: if_splits)
  then show ?thesis using PZipf by (auto simp: gen_id_def Let_def case_prod_unfold)
next
  case PShift
  have "bp_epochs p \<noteq> 0" using t by (auto simp: bench_tables_def split: if_splits)
  then show ?thesis using PShift p by (auto simp: gen_id_def Let_def case_prod_unfold)
qed (use p in \<open>auto simp: gen_id_def\<close>)

end
