(* ===== verification/Hit_Run.thy ===== *)
theory Hit_Run
  imports Hit_Ratio Load_Run
begin

text \<open>
  The hit-ratio benchmark against the server of the model: the replies it reads, the counters it parses, the size of its
  entries, the command line of the servers it starts, and the run of a workload. The memory limit and the
  policy are arbitrary, so entries may be evicted or refused at any time.
\<close>

section \<open>Replies and counters\<close>

lemma hb_read_line_one: "one_line t \<Longrightarrow> hb_read_line out (t @ CR # LF # rest) = Some (out @ t, rest)"
  by (induction t arbitrary: out) auto

lemma read_reply_replies [simp]:
  "read_reply (OK_reply @ rest) = (Ok RpSimple, rest)"
  "read_reply (encode_integer n @ rest) = (Ok RpSimple, rest)"
  "one_line t \<Longrightarrow> read_reply (encode_error t @ rest) = (Ok (RpError t), rest)"
  using hb_read_line_one [of "''OK''" "[]" rest] hb_read_line_one [of "show_int n" "[]" rest] hb_read_line_one [of t "[]" rest]
  by (simp_all add: read_reply_def OK_reply_def encode_simple_string_def encode_integer_def encode_error_def)

lemma read_reply_null [simp]: "read_reply (encode_null_bulk @ rest) = (Ok RpNull, rest)"
proof -
  have "trim ''-1'' = ''-1''" by (rule trim_plain) simp
  moreover have "parse_i64 ''-1'' = Some (- 1)"
    by (simp add: parse_i64_def parse_digits_def is_digit_def digit_val_def checked_i64_def in_i64_def)
  ultimately show ?thesis using hb_read_line_one [of "''-1''" "[]" rest] by (simp add: read_reply_def encode_null_bulk_def)
qed

lemma read_reply_bulk [simp]:
  assumes "length b \<le> nat i64_max"
  shows "read_reply (encode_bulk_string b @ rest) = (Ok (RpBulk b), rest)"
proof -
  have "in_i64 (int (length b))" using assms by (simp add: in_i64_def)
  then show ?thesis
    using hb_read_line_one [of "show_nat (length b)" "[]" "b @ CR # LF # rest"]
      read_exact_append [of b "length b" "CR # LF # rest"]
    by (simp add: read_reply_def encode_bulk_string_def) (simp add: read_exact_def)
qed

lemmas reply_here = read_reply_replies [where rest = "[]", unfolded append_Nil2]
  read_reply_null [where rest = "[]", unfolded append_Nil2] read_reply_bulk [where rest = "[]", unfolded append_Nil2]

lemma hb_requests [simp]:
  "hb_build_set k val = encode_command [''SET'', k, val]" "hb_build_get k = encode_command [''GET'', k]"
  "hb_build_set_ex k n = encode_command [''EXPIRE'', k, show_nat n]"
  by (simp_all add: hb_build_set_def hb_build_get_def hb_build_set_ex_def hb_append_bulk_def encode_command_def encode_part_def
      show_nat.simps digit_char_def char_of_def bit_0)

text \<open>The lines of a text made of lines.\<close>

lemma split_lf_line: "one_line l \<Longrightarrow> split_lf (l @ CR # LF # t) = (l @ [CR]) # split_lf t"
  by (induction l) auto

lemma split_lf_not_Nil [simp]: "split_lf t \<noteq> []"
  by (induction t rule: split_lf.induct) (auto split: list.splits)

lemma str_lines_line: "one_line l \<Longrightarrow> str_lines (l @ CR # LF # t) = l # str_lines t"
  by (simp add: str_lines_def split_lf_line Let_def strip_cr_def)

lemma str_lines_end: "str_lines CRLF = [[]]" "str_lines (CR # LF # t) = [] # str_lines t"
  using str_lines_line [of "[]" "[]"] str_lines_line [of "[]" t] by (simp_all add: str_lines_def)

lemma info_line_lines:
  assumes "one_line name" "one_line val"
  shows "str_lines (info_line name val @ t) = (name @ '':'' @ val) # str_lines t"
  using str_lines_line [of "name @ '':'' @ val" t] assms by (simp add: info_line_def)

lemma str_strip_prefix_append [simp]: "str_strip_prefix p (p @ s) = Some s"
  by (simp add: str_strip_prefix_def)

text \<open>The parser finds the counters the server prints.\<close>

lemma parse_info_stats:
  assumes "e_hits s \<le> u64_max" "e_misses s \<le> u64_max"
  shows "parse_hit_ratio fo (info_stats s) =
    (let n = wrap_u64 (e_hits s + e_misses s) in
     if n = 0 then Ok (bf_of_u64 fo 0) else Ok (bf_div fo (bf_of_u64 fo (e_hits s)) (bf_of_u64 fo n)))"
proof -
  have hdr: "str_lines (''# Stats'' @ CRLF @ t) = ''# Stats'' # str_lines t" for t
    using str_lines_line [of "''# Stats''" t] by simp
  have "\<exists>a b c. str_lines (info_stats s) =
     [''# Stats'', ''total_commands_processed'' @ '':'' @ show_nat (e_total_commands s),
      ''keyspace_hits'' @ '':'' @ show_nat (e_hits s), ''keyspace_misses'' @ '':'' @ show_nat (e_misses s),
      ''evicted_keys'' @ '':'' @ show_nat (e_evicted_keys s), ''expired_keys'' @ '':'' @ show_nat (e_expired_keys s),
      ''aof_write_errors'' @ '':'' @ show_nat (e_aof_errors s), ''aof_fsyncs'' @ '':'' @ show_nat a,
      ''aof_fsync_skips'' @ '':'' @ show_nat b, ''aof_append_batches'' @ '':'' @ show_nat c, []]"
    unfolding info_stats_def keyspace_stats_def Let_def split_conv
    by (simp only: hdr info_line_lines one_line_simps one_line_show_nat str_lines_end(1) char.inject simp_thms list.distinct) blast
  then have "scan_stats (str_lines (info_stats s)) None None = (Some (e_hits s), Some (e_misses s))"
    using assms by (auto simp: str_strip_prefix_def)
  then show ?thesis by (simp add: parse_hit_ratio_def Let_def)
qed

section \<open>Entries and servers\<close>

text \<open>A key has nine bytes as long as its number has eight digits, so an entry costs what the benchmark reckons.\<close>

lemma length_bench_key: "length (bench_key n) = 1 + max 8 (length (show_nat n))"
  by (simp add: bench_key_def)

lemma bench_entry_bytes:
  assumes "n < 100000000" "data e = replicate vs c" "vs + 9 + PER_ENTRY_OVERHEAD \<le> u64_max"
  shows "entry_bytes (bench_key n) e = bytes_per_entry vs"
  using assms length_show_nat [of n 7]
  by (simp add: entry_bytes_def bytes_per_entry_def length_bench_key max_def)

text \<open>The table has one column per pattern in every line.\<close>

lemma table_columns:
  assumes "\<forall>v. CHR ''|'' \<notin> set (percent v)"
  shows "count_list (table_header pats) (CHR ''|'') = length pats + 2"
    "count_list (table_rule pats) (CHR ''|'') = length pats + 2"
    "count_list (table_row percent pol row) (CHR ''|'') = length row + 2"
proof -
  have p: "count_list (pattern_name q) (CHR ''|'') = 0" for q by (cases q) simp_all
  have b: "count_list (bench_policy_name q) (CHR ''|'') = 0" for q by (cases q) simp_all
  have v: "count_list (percent r) (CHR ''|'') = 0" for r using assms by (simp add: count_list_0_iff)
  show "count_list (table_header pats) (CHR ''|'') = length pats + 2"
    unfolding table_header_def by (induction pats) (simp_all add: p)
  show "count_list (table_rule pats) (CHR ''|'') = length pats + 2"
    unfolding table_rule_def by (induction pats) simp_all
  show "count_list (table_row percent pol row) (CHR ''|'') = length row + 2"
    unfolding table_row_def by (induction row) (simp_all add: b v split: option.splits)
qed

text \<open>Every server the benchmark starts accepts its command line.\<close>

fun server_policy :: "bench_policy \<Rightarrow> eviction_policy" where
  "server_policy BLru = AllKeysLru"
| "server_policy BLfu = AllKeysLfu"
| "server_policy BAhe = AllKeysAhe"
| "server_policy BRandom = AllKeysRandom"
| "server_policy BSieve = AllKeysSieve"
| "server_policy BSieveS = AllKeysSieveS"

lemma cli_bytes_number: "n \<le> u64_max \<Longrightarrow> cli_parse_bytes (show_nat n) = Ok n"
  unfolding cli_parse_bytes_def size_suffix_def [symmetric] Let_def by (simp add: size_suffix_number)

lemma bench_policy_from_name: "from_name (to_ascii_lowercase (bench_policy_name pol)) = Some (server_policy pol)"
  by (cases pol) (simp_all add: from_name_def to_ascii_lowercase_def ascii_lower_def)

lemma server_argv_accepted:
  assumes "mem \<le> u64_max"
  shows "\<exists>a. cli_parse read (server_argv pol mem addr) = Ok (Run a) \<and> ca_addr a = addr
    \<and> cli_eviction_config a = \<lparr>max_memory = mem, policy = server_policy pol, samples = samples eviction_config_default\<rparr>
    \<and> cli_aof_config a = None \<and> cli_dashboard_addr a = None \<and> ca_requirepass a = None"
proof -
  let ?raw = "raw_flags_default\<lparr>rf_addr := Some addr, rf_max_memory := Some mem, rf_max_memory_policy := Some (server_policy pol),
    rf_dashboard_addr := Some ''off''\<rparr>"
  have "scan_argv (server_argv pol mem addr) raw_flags_default = Ok (Flags ?raw)"
    using cli_bytes_number [OF assms] bench_policy_from_name [of pol]
    by (simp add: server_argv_def cli_flags_def set_flag_def raw_flags_default_def)
  then show ?thesis
    by (simp add: cli_parse_def merge_def raw_flags_default_def or_else_def from_file_def cli_eviction_config_def
        cli_aof_config_def cli_dashboard_addr_def eq_ignore_ascii_case_def)
qed

section \<open>What the requests do to the server\<close>

text \<open>A server without a log whose counters fit their 64 bits.\<close>

definition unlogged :: "engine \<Rightarrow> bool" where
  "unlogged s \<longleftrightarrow> e_aof s = None \<and> e_evicted_keys s \<le> u64_max \<and> e_expired_keys s \<le> u64_max \<and> e_aof_errors s \<le> u64_max"

text \<open>A change that leaves the hit and miss counters alone.\<close>

definition uncounted :: "engine \<Rightarrow> engine \<Rightarrow> bool" where
  "uncounted s s' \<longleftrightarrow> unlogged s' \<and> keyspace_stats s' = keyspace_stats s"

lemma unlogged_engine [simp]:
  "unlogged (s\<lparr>e_store := st\<rparr>) = unlogged s" "unlogged (touch_access v k s) = unlogged s"
  "unlogged (apply_delta d s) = unlogged s" "unlogged (sieve_notify_insert k b s) = unlogged s"
  "unlogged (ac_notify_insert k b s) = unlogged s" "unlogged (sieve_notify_remove k s) = unlogged s"
  "unlogged (ac_notify_remove k s) = unlogged s" "unlogged (record_hit s) = unlogged s" "unlogged (record_miss s) = unlogged s"
  "unlogged (engine_ahe_observe v s) = unlogged s" "unlogged (s\<lparr>e_total_commands := n\<rparr>) = unlogged s"
  "unlogged (s\<lparr>e_slowlog := sl, e_slowlog_seq := sq\<rparr>) = unlogged s"
  "unlogged s \<Longrightarrow> unlogged (s\<lparr>e_evicted_keys := wrap_u64 m\<rparr>)"
  by (auto simp: unlogged_def touch_access_def next_rand01_def sieve_notify_access_def ac_notify_access_def apply_delta_def
      sieve_notify_insert_def ac_notify_insert_def sieve_notify_remove_def ac_notify_remove_def record_hit_def record_miss_def
      engine_ahe_observe_def case_prod_unfold Let_def split: option.splits)

lemma stats_engine [simp]:
  "keyspace_stats (s\<lparr>e_store := st\<rparr>) = keyspace_stats s" "keyspace_stats (touch_access v k s) = keyspace_stats s"
  "keyspace_stats (apply_delta d s) = keyspace_stats s" "keyspace_stats (sieve_notify_insert k b s) = keyspace_stats s"
  "keyspace_stats (ac_notify_insert k b s) = keyspace_stats s" "keyspace_stats (sieve_notify_remove k s) = keyspace_stats s"
  "keyspace_stats (ac_notify_remove k s) = keyspace_stats s" "keyspace_stats (engine_ahe_observe v s) = keyspace_stats s"
  "keyspace_stats (s\<lparr>e_total_commands := n\<rparr>) = keyspace_stats s" "keyspace_stats (s\<lparr>e_evicted_keys := m\<rparr>) = keyspace_stats s"
  "keyspace_stats (s\<lparr>e_slowlog := sl, e_slowlog_seq := sq\<rparr>) = keyspace_stats s"
  by (auto simp: keyspace_stats_def touch_access_def next_rand01_def sieve_notify_access_def ac_notify_access_def apply_delta_def
      sieve_notify_insert_def ac_notify_insert_def sieve_notify_remove_def ac_notify_remove_def
      engine_ahe_observe_def case_prod_unfold Let_def split: option.splits)

lemma unlogged_note [simp]: "unlogged s \<Longrightarrow> aof_note f s = s"
  by (simp add: unlogged_def aof_note_def)

lemma unlogged_track [simp]:
  "unlogged (snd (track_insert k e s)) = unlogged s" "unlogged (snd (track_remove k s)) = unlogged s"
  "keyspace_stats (snd (track_insert k e s)) = keyspace_stats s" "keyspace_stats (snd (track_remove k s)) = keyspace_stats s"
  by (auto simp: track_insert_def track_remove_def Let_def split: option.splits)

lemma select_uncounted: "select_victim v cfg s = (q, s') \<Longrightarrow> unlogged s \<Longrightarrow> uncounted s s'"
  by (auto simp: select_victim_def evict_sieve_def evict_ac_def uncounted_def unlogged_def keyspace_stats_def Let_def
      split: if_splits prod.splits)

lemma evict_uncounted: "evict_loop n v cfg inc k s = (r, s') \<Longrightarrow> unlogged s \<Longrightarrow> uncounted s s'"
proof (induction n arbitrary: k s)
  case (Suc n)
  show ?case
  proof (cases "mem_fits cfg inc (e_used_memory s) \<or> policy cfg = NoEviction")
    case True
    then show ?thesis using Suc.prems by (auto simp: uncounted_def split: if_splits)
  next
    case False
    obtain q s1 where q: "select_victim v cfg s = (q, s1)" by (metis prod.exhaust)
    note u = select_uncounted [OF q Suc.prems(2)]
    show ?thesis
    proof (cases q)
      case None
      then show ?thesis using Suc.prems False q u by simp
    next
      case (Some key)
      let ?s = "snd (track_remove key s1)\<lparr>e_evicted_keys := wrap_u64 (e_evicted_keys (snd (track_remove key s1)) + 1)\<rparr>"
      have l: "unlogged ?s" using u by (simp add: uncounted_def)
      then have "evict_loop n v cfg inc (k + 1) ?s = (r, s')" using Suc.prems(1) False q Some by (simp add: Let_def)
      from Suc.IH [OF this l] u show ?thesis by (simp add: uncounted_def)
    qed
  qed
qed (simp add: uncounted_def)

lemma enforce_uncounted:
  assumes "unlogged (g_engine g)" "wg_enforce v k n g = (r, g')"
  shows "uncounted (g_engine g) (g_engine g') \<and> g_wrote_aof g' = g_wrote_aof g"
  using assms evict_uncounted [OF _ assms(1)]
  by (auto simp: wg_enforce_def enforce_for_write_def enforce_memory_limit_def uncounted_def Let_def
      split: prod.splits sum.splits if_splits)

lemma unlogged_log [simp]: "unlogged (g_engine g) \<Longrightarrow> wg_log f g = g"
  by (simp add: unlogged_def wg_log_def)

lemma unlogged_drop: "unlogged (g_engine g) \<Longrightarrow> wg_drop g = g_engine g"
  by (simp add: wg_drop_def)

text \<open>The values a server holds are no longer than \<open>n\<close>.\<close>

definition short_values :: "nat \<Rightarrow> engine \<Rightarrow> bool" where
  "short_values n s \<longleftrightarrow> (\<forall>k e. map_of (e_store s) k = Some e \<longrightarrow> length (data e) \<le> n)"

lemma set_served:
  assumes g: "good (False, cfg) s" and u: "unlogged s" and sv: "short_values n s" "length val \<le> n"
    and run: "run_op v v2 (OSet k val) s = (r, s')"
  shows "uncounted s s' \<and> short_values n s' \<and> (\<exists>x. r = RBulk x \<or> (\<exists>e. r = RErr e))
    \<and> total entry_bytes (e_store s') \<le> total entry_bytes (e_store s) + op_bytes (OSet k val)"
proof -
  obtain q g1 where e: "wg_enforce v k (length val) (wg_begin s) = (q, g1)" by (metis prod.exhaust)
  have gi: "engine_inv (g_engine (wg_begin s))" using g by (simp add: good_def)
  have u1: "uncounted s (g_engine g1)" using enforce_uncounted [OF _ e] u by simp
  have le: "map_of (e_store (g_engine g1)) \<subseteq>\<^sub>m map_of (e_store s)" using wg_enforce_cases(2) [OF gi e] by simp
  have wk: "well_keyed (e_store s)" "well_keyed (e_store (g_engine g1))"
    using good_wk [OF g] wg_enforce_cases(1) [OF gi e] engine_invD(4) by auto
  have s1: "short_values n (g_engine g1)" using sv(1) le by (force simp: short_values_def map_le_def)
  have t1: "total entry_bytes (e_store (g_engine g1)) \<le> total entry_bytes (e_store s)" by (rule total_mono [OF wk le])
  have t2: "total entry_bytes (AList.update k (entry_new v val) (e_store (g_engine g1)))
      \<le> total entry_bytes (e_store s) + (length k + length val + PER_ENTRY_OVERHEAD)"
    using total_put_le [OF wk(2), of k "entry_new v val"] t1 by simp
  consider "s' = s" "\<exists>e. r = RErr e" | "s' = g_engine g1" "\<exists>e. r = RErr e"
    | "s' = g_engine (wg_put k (entry_new v val) g1)" "\<exists>x. r = RBulk x"
    using run e u u1
    by (auto simp: kv_set_def wg_insert_def reply_of_def unlogged_drop uncounted_def wg_put_def wg_do_def Let_def
        split: sum.splits)
  then show ?thesis
  proof cases
    case 3
    have "short_values n s'" using s1 sv(2) 3(1) by (simp add: short_values_def)
    moreover have "uncounted s s'" using u1 3(1) by (simp add: uncounted_def wg_put_def wg_do_def)
    ultimately show ?thesis using 3 t2 by auto
  qed (use u u1 sv(1) s1 t1 in \<open>auto simp: uncounted_def\<close>)
qed

lemma expire_served:
  assumes g: "good (False, cfg) s" and u: "unlogged s" and sv: "short_values n s"
    and run: "run_op v v2 (OExpireAt k ms) s = (r, s')"
  shows "uncounted s s' \<and> short_values n s' \<and> (\<exists>b. r = RBool b)
    \<and> total entry_bytes (e_store s') \<le> total entry_bytes (e_store s)"
proof -
  have wk: "well_keyed (e_store s)" by (rule good_wk [OF g])
  note d = total_delete_le [OF wk, of entry_bytes k]
  have up: "total entry_bytes (AList.update k (e\<lparr>expire_at := x\<rparr>) (e_store s)) = total entry_bytes (e_store s)"
    if "map_of (e_store s) k = Some e" for e x
    using total_update [OF wk, of entry_bytes k "e\<lparr>expire_at := x\<rparr>"] that by (simp add: entry_bytes_def)
  show ?thesis
  proof (cases "map_of (e_store s) k")
    case None
    then show ?thesis using run u sv by (auto simp: kv_expire_at_ms_def wg_expire_at_def unlogged_drop uncounted_def)
  next
    case (Some e)
    then show ?thesis using run u sv d up [OF Some]
      by (auto simp: kv_expire_at_ms_def wg_expire_at_def wg_expire_drop_def wg_do_def unlogged_drop uncounted_def Let_def
          short_values_def log_expire_drop_def split: if_splits)
  qed
qed

lemma get_served:
  assumes g: "good (False, cfg) s" and u: "unlogged s" and sv: "short_values n s"
    and run: "run_op v v2 (OGet k) s = (r, s')"
  shows "\<exists>x. r = RBulk x \<and> unlogged s' \<and> short_values n s' \<and> (\<forall>b. x = Some b \<longrightarrow> length b \<le> n)
    \<and> keyspace_stats s' = (if x = None then (e_hits s, wrap_u64 (e_misses s + 1)) else (wrap_u64 (e_hits s + 1), e_misses s))
    \<and> total entry_bytes (e_store s') \<le> total entry_bytes (e_store s)"
proof -
  let ?hit = "\<exists>x. r = RBulk x \<and> unlogged s' \<and> short_values n s' \<and> (\<forall>b. x = Some b \<longrightarrow> length b \<le> n)
    \<and> keyspace_stats s' = (if x = None then (e_hits s, wrap_u64 (e_misses s + 1)) else (wrap_u64 (e_hits s + 1), e_misses s))"
  have t: "total entry_bytes (e_store s') \<le> total entry_bytes (e_store s)"
    using get_growth [OF g, of v v2 k] unfolding run by simp
  have touch: "short_values n (touch_access v k s)" for v
    using sv by (auto simp: short_values_def touch_access_store touch_def Let_def case_prod_unfold split: option.splits if_splits)
  have st: "keyspace_stats (record_hit (touch_access v k s)) = (wrap_u64 (e_hits s + 1), e_misses s)"
    "keyspace_stats (record_miss s) = (e_hits s, wrap_u64 (e_misses s + 1))" for v
    using stats_engine(2) [of v k s] by (auto simp: keyspace_stats_def record_hit_def record_miss_def)
  have drop: "unlogged (snd (track_remove k s))" "short_values n (snd (track_remove k s))"
    using u sv by (simp_all add: short_values_def)
  have sv': "short_values n (record_hit s1) = short_values n s1" "short_values n (record_miss s1) = short_values n s1" for s1
    by (simp_all add: short_values_def)
  have hit: ?hit if "kv_get v v2 k s = (Some (data e), record_hit (touch_access w k s))" "map_of (e_store s) k = Some e" for w e
    using run that u touch st sv sv' by (auto simp: short_values_def)
  have miss: ?hit if "kv_get v v2 k s = (None, record_miss s)"
    using run that u st sv sv' by auto
  have ?hit
  proof (cases "peek v k s")
    case (Live e)
    then have "map_of (e_store s) k = Some e" by (simp add: peek_simps)
    then show ?thesis using Live by (intro hit [of e v]) (simp_all add: kv_get_def)
  next
    case Absent
    then show ?thesis by (intro miss) (simp add: kv_get_def)
  next
    case Stale
    then obtain e where e: "map_of (e_store s) k = Some e" by (auto simp: peek_simps)
    show ?thesis
    proof (cases "is_expired e (now v2)")
      case False
      then show ?thesis using Stale e u
        by (intro hit [of e v2]) (simp_all add: kv_get_def wg_fetch_live_def wg_do_def unlogged_drop)
    next
      case True
      have "wg_expire_drop k (wg_begin s) = wg_do (\<lambda>s. snd (track_remove k s)) (wg_begin s)"
        using u by (simp add: wg_expire_drop_def log_expire_drop_def wg_do_def)
      then have "kv_get v v2 k s = (None, record_miss (snd (track_remove k s)))"
        using Stale e True drop(1) by (simp add: kv_get_def wg_fetch_live_def wg_do_def unlogged_drop)
      moreover have "keyspace_stats (record_miss (snd (track_remove k s))) = (e_hits s, wrap_u64 (e_misses s + 1))"
        using unlogged_track(4) [of k s] by (simp add: keyspace_stats_def record_miss_def)
      ultimately show ?thesis using run drop sv' by auto
    qed
  qed
  then show ?thesis using t by blast
qed

section \<open>One access\<close>

definition ready :: "eviction_config \<Rightarrow> nat \<Rightarrow> engine \<Rightarrow> bool" where
  "ready cfg n s \<longleftrightarrow> good (False, cfg) s \<and> \<not> e_auth_required s \<and> unlogged s \<and> short_values n s"

lemma short_values_simps [simp]:
  "short_values n (s\<lparr>e_total_commands := m\<rparr>) = short_values n s"
  "short_values n (s\<lparr>e_slowlog := sl, e_slowlog_seq := sq\<rparr>) = short_values n s"
  by (simp_all add: short_values_def)

lemma ready_counted [simp]: "ready cfg n (s\<lparr>e_total_commands := m\<rparr>) = ready cfg n s"
  by (simp add: ready_def)

lemma parse_expire:
  assumes "length p \<le> VALUE_MAX_BYTES" "ttl \<le> nat i64_max"
  shows "parse_frame fp (encode_command [''EXPIRE'', p, show_nat ttl]) =
    Ok (Complete (Expire p (int ttl)) (length (encode_command [''EXPIRE'', p, show_nat ttl])))"
proof -
  have i: "in_i64 (int ttl)" using assms(2) by (simp add: in_i64_def)
  have "length (show_nat ttl) \<le> 20" using length_show_int [OF i] by (simp add: show_int_def)
  then have "frame_ok [''EXPIRE'', p, show_nat ttl]"
    using assms(1) by (simp add: frame_ok_def MAX_BULK_LEN_def MAX_ARRAY_ELEMENTS_def VALUE_MAX_BYTES_def)
  moreover have "build_command fp [''EXPIRE'', p, show_nat ttl] = Ok (Expire p (int ttl))"
    using i by (simp add: build_dispatch with_key_int_def parse_integer_argument_def)
  ultimately show ?thesis using parse_frame_encode [of "[''EXPIRE'', p, show_nat ttl]" fp "[]"] by simp
qed

text \<open>The request that fills the cache and the one that sets a lifetime, accepted or refused.\<close>

lemma fill_served:
  fixes x :: "'f conn_env"
  assumes ok: "\<forall>i. x_write_ok x i" and l: "link_idle l" and r: "ready cfg n s"
    and k: "length k \<le> VALUE_MAX_BYTES" "length val \<le> n" "n \<le> VALUE_MAX_BYTES"
    and room: "headroom s (length k + length val + PER_ENTRY_OVERHEAD)"
  shows "\<exists>l' s'. send_ignore x (hb_build_set k val) (l, s) = Some (l', s') \<and> link_idle l' \<and> ready cfg n s'
    \<and> keyspace_stats s' = keyspace_stats s
    \<and> total entry_bytes (e_store s') \<le> total entry_bytes (e_store s) + (length k + length val + PER_ENTRY_OVERHEAD)"
proof -
  have a: "good (False, cfg) s" "\<not> e_auth_required s" "unlogged s" "short_values n s" using r by (simp_all add: ready_def)
  let ?cmd = "Set k val :: 'f command"
  obtain v v2 where o: "command_op (x_calls x (c_frames (l_conn l))) ?cmd = Some (v, v2, OSet k val)" by simp
  have p: "parse_frame (f_parse (pf_f64 (x_platform x))) (hb_build_set k val) = Ok (Complete ?cmd (length (hb_build_set k val)))"
    using requests_parse(1) [of k val] k by simp
  obtain q s1 where run: "run_op v v2 (OSet k val) (counted_call s) = (q, s1)" by (metis prod.exhaust)
  have d: "data_command ?cmd" by (simp add: data_command_def)
  have h: "headroom s (op_bytes (OSet k val))" using room by simp
  obtain l' sl sq where ls: "link_send x (hb_build_set k val) l s = Some (l', s1\<lparr>e_slowlog := sl, e_slowlog_seq := sq\<rparr>)"
    "link_idle (l'\<lparr>l_unread := []\<rparr>)" "l_unread l' = reply_bytes Resp2 ?cmd q" "good (False, cfg) s1" "\<not> e_auth_required s1"
    using op_round_trip [OF ok l a(2) p d a(1) o h run] by blast
  have sv: "uncounted s s1" "short_values n s1" "\<exists>x. q = RBulk x \<or> (\<exists>e. q = RErr e)"
    "total entry_bytes (e_store s1) \<le> total entry_bytes (e_store s) + (length k + length val + PER_ENTRY_OVERHEAD)"
    using set_served [OF _ _ _ k(2) run, of cfg] a by (auto simp: uncounted_def)
  have "snd (read_reply (reply_bytes Resp2 ?cmd q)) = []"
    using sv(3) by (auto simp: write_ferrum_error_def Let_def reply_here split: ferrum_error.splits)
  then have "send_ignore x (hb_build_set k val) (l, s) = Some (l'\<lparr>l_unread := []\<rparr>, s1\<lparr>e_slowlog := sl, e_slowlog_seq := sq\<rparr>)"
    using ls(1,3) by (simp add: send_ignore_def)
  then show ?thesis using ls(2,4,5) sv by (simp add: ready_def uncounted_def)
qed

lemma lifetime_served:
  fixes x :: "'f conn_env"
  assumes ok: "\<forall>i. x_write_ok x i" and l: "link_idle l" and r: "ready cfg n s"
    and k: "length k \<le> VALUE_MAX_BYTES" "ttl \<le> nat i64_max"
  shows "\<exists>l' s'. send_ignore x (hb_build_set_ex k ttl) (l, s) = Some (l', s') \<and> link_idle l' \<and> ready cfg n s'
    \<and> keyspace_stats s' = keyspace_stats s \<and> total entry_bytes (e_store s') \<le> total entry_bytes (e_store s)"
proof -
  have a: "good (False, cfg) s" "\<not> e_auth_required s" "unlogged s" "short_values n s" using r by (simp_all add: ready_def)
  let ?cmd = "Expire k (int ttl) :: 'f command"
  obtain v ms where o: "command_op (x_calls x (c_frames (l_conn l))) ?cmd = Some (v, v, OExpireAt k ms)" by simp
  have p: "parse_frame (f_parse (pf_f64 (x_platform x))) (hb_build_set_ex k ttl) = Ok (Complete ?cmd (length (hb_build_set_ex k ttl)))"
    using parse_expire [of k ttl] k by simp
  obtain q s1 where run: "run_op v v (OExpireAt k ms) (counted_call s) = (q, s1)" by (metis prod.exhaust)
  have d: "data_command ?cmd" by (simp add: data_command_def)
  have h: "headroom s (op_bytes (OExpireAt k ms))" using a(1) by (auto simp: headroom_def good_def engine_inv_def memory_ok_def)
  obtain l' sl sq where ls: "link_send x (hb_build_set_ex k ttl) l s = Some (l', s1\<lparr>e_slowlog := sl, e_slowlog_seq := sq\<rparr>)"
    "link_idle (l'\<lparr>l_unread := []\<rparr>)" "l_unread l' = reply_bytes Resp2 ?cmd q" "good (False, cfg) s1" "\<not> e_auth_required s1"
    using op_round_trip [OF ok l a(2) p d a(1) o h run] by blast
  have sv: "uncounted s s1" "short_values n s1" "\<exists>b. q = RBool b" "total entry_bytes (e_store s1) \<le> total entry_bytes (e_store s)"
    using expire_served [OF _ _ _ run, of cfg n] a by (auto simp: uncounted_def)
  have "snd (read_reply (reply_bytes Resp2 ?cmd q)) = []"
    using sv(3) by (auto simp: enc_bool_def reply_here)
  then have "send_ignore x (hb_build_set_ex k ttl) (l, s) = Some (l'\<lparr>l_unread := []\<rparr>, s1\<lparr>e_slowlog := sl, e_slowlog_seq := sq\<rparr>)"
    using ls(1,3) by (simp add: send_ignore_def)
  then show ?thesis using ls(2,4,5) sv by (simp add: ready_def uncounted_def)
qed

text \<open>A turn of the loop succeeds and is counted once, as a hit or as a miss.\<close>

lemma access_served:
  fixes x :: "'f conn_env"
  assumes ok: "\<forall>i. x_write_ok x i" and l: "link_idle l" and r: "ready cfg n s"
    and k: "length k \<le> VALUE_MAX_BYTES" "length val \<le> n" "n \<le> VALUE_MAX_BYTES" "ttl \<le> nat i64_max"
    and room: "headroom s (length k + length val + PER_ENTRY_OVERHEAD)"
    and few: "e_hits s + e_misses s < u64_max"
  shows "\<exists>l' s'. bench_access x k ttl val (l, s) = Ok (l', s') \<and> link_idle l' \<and> ready cfg n s'
    \<and> e_hits s' + e_misses s' = e_hits s + e_misses s + 1
    \<and> total entry_bytes (e_store s') \<le> total entry_bytes (e_store s) + (length k + length val + PER_ENTRY_OVERHEAD)"
proof -
  have a: "good (False, cfg) s" "\<not> e_auth_required s" "unlogged s" "short_values n s" using r by (simp_all add: ready_def)
  let ?cmd = "Get k :: 'f command"
  obtain v v2 where o: "command_op (x_calls x (c_frames (l_conn l))) ?cmd = Some (v, v2, OGet k)" by simp
  have p: "parse_frame (f_parse (pf_f64 (x_platform x))) (hb_build_get k) = Ok (Complete ?cmd (length (hb_build_get k)))"
    using requests_parse(2) [of k "[]"] k by simp
  obtain q s1 where run: "run_op v v2 (OGet k) (counted_call s) = (q, s1)" by (metis prod.exhaust)
  have d: "data_command ?cmd" by (simp add: data_command_def)
  have h: "headroom s (op_bytes (OGet k))" using room by (simp add: headroom_def)
  obtain l1 sl sq where ls: "link_send x (hb_build_get k) l s = Some (l1, s1\<lparr>e_slowlog := sl, e_slowlog_seq := sq\<rparr>)"
    "link_idle (l1\<lparr>l_unread := []\<rparr>)" "l_unread l1 = reply_bytes Resp2 ?cmd q" "good (False, cfg) s1" "\<not> e_auth_required s1"
    using op_round_trip [OF ok l a(2) p d a(1) o h run] by blast
  let ?s1 = "s1\<lparr>e_slowlog := sl, e_slowlog_seq := sq\<rparr>"
  obtain y where y: "q = RBulk y" "unlogged s1" "short_values n s1" "\<forall>b. y = Some b \<longrightarrow> length b \<le> n"
    "keyspace_stats s1 = (if y = None then (e_hits s, e_misses s + 1) else (e_hits s + 1, e_misses s))"
    "total entry_bytes (e_store s1) \<le> total entry_bytes (e_store s)"
    using get_served [OF _ _ _ run, of cfg n] a few by auto
  have r1: "ready cfg n ?s1" using ls(4,5) y(2,3) by (simp add: ready_def)
  have n1: "e_hits s1 + e_misses s1 = e_hits s + e_misses s + 1"
    using y(5) by (simp add: keyspace_stats_def split: if_splits)
  show ?thesis
  proof (cases y)
    case (Some b)
    then have "read_reply (l_unread l1) = (Ok (RpBulk b), [])"
      using ls(3) y(1,4) k(3) by (simp add: enc_bulk_or_null_def reply_here VALUE_MAX_BYTES_def)
    then have "bench_access x k ttl val (l, s) = Ok (l1\<lparr>l_unread := []\<rparr>, ?s1)" using ls(1) by (simp add: bench_access_def)
    then show ?thesis using ls(2) r1 n1 y(6) by simp
  next
    case None
    then have rr: "read_reply (l_unread l1) = (Ok RpNull, [])"
      using ls(3) y(1) by (simp add: enc_bulk_or_null_def enc_null_def reply_here)
    have "headroom ?s1 (length k + length val + PER_ENTRY_OVERHEAD)" using room y(6) by (simp add: headroom_def)
    from fill_served [OF ok ls(2) r1 k(1-3) this] obtain l2 s2 where
      f: "send_ignore x (hb_build_set k val) (l1\<lparr>l_unread := []\<rparr>, ?s1) = Some (l2, s2)" "link_idle l2" "ready cfg n s2"
      "keyspace_stats s2 = keyspace_stats ?s1"
      "total entry_bytes (e_store s2) \<le> total entry_bytes (e_store ?s1) + (length k + length val + PER_ENTRY_OVERHEAD)"
      by blast
    obtain l3 s3 where t: "send_ignore x (hb_build_set_ex k ttl) (l2, s2) = Some (l3, s3)" "link_idle l3" "ready cfg n s3"
      "keyspace_stats s3 = keyspace_stats s2" "total entry_bytes (e_store s3) \<le> total entry_bytes (e_store s2)"
      using lifetime_served [OF ok f(2,3) k(1,4)] by blast
    have "bench_access x k ttl val (l, s) = Ok (if ttl > 0 then (l3, s3) else (l2, s2))"
      using ls(1) rr f(1) t(1) by (simp add: bench_access_def)
    moreover have "e_hits s2 + e_misses s2 = e_hits s + e_misses s + 1" "e_hits s3 + e_misses s3 = e_hits s + e_misses s + 1"
      using n1 f(4) t(4) by (auto simp: keyspace_stats_def)
    ultimately show ?thesis using f t y(6) by auto
  qed
qed

section \<open>A workload\<close>

lemma bench_key_short: "kid \<le> u64_max \<Longrightarrow> length (bench_key kid) \<le> 21"
  using length_show_nat [of kid 19] by (simp add: length_bench_key)

lemma loop_served:
  fixes x :: "'f conn_env"
  assumes ok: "\<forall>i. x_write_ok x i" and v: "length val \<le> n" "n \<le> VALUE_MAX_BYTES"
    and ids: "\<And>op r. \<exists>kid ttl r'. gen_id fo pattern op (bp_ops p) p cdfs r = Some ((kid, ttl), r') \<and> kid \<le> u64_max \<and> ttl \<le> nat i64_max"
  shows "link_idle l \<Longrightarrow> ready cfg n s \<Longrightarrow> e_hits s + e_misses s + length ops \<le> u64_max \<Longrightarrow>
    headroom s ((21 + length val + PER_ENTRY_OVERHEAD) * length ops) \<Longrightarrow>
    \<exists>l' s'. bench_loop fo x pattern p cdfs val ops r (l, s) = Ok (l', s') \<and> link_idle l' \<and> ready cfg n s'
      \<and> e_hits s' + e_misses s' = e_hits s + e_misses s + length ops"
proof (induction ops arbitrary: l s r)
  case (Cons op ops)
  obtain kid ttl r' where g: "gen_id fo pattern op (bp_ops p) p cdfs r = Some ((kid, ttl), r')" "kid \<le> u64_max" "ttl \<le> nat i64_max"
    using ids [of op r] by blast
  note kl = bench_key_short [OF g(2)]
  have "length (bench_key kid) \<le> VALUE_MAX_BYTES" using kl by (simp add: VALUE_MAX_BYTES_def)
  moreover have "headroom s (length (bench_key kid) + length val + PER_ENTRY_OVERHEAD)"
    using Cons.prems(4) kl by (simp add: headroom_def)
  moreover have "e_hits s + e_misses s < u64_max" using Cons.prems(3) by simp
  ultimately obtain l1 s1 where a: "bench_access x (bench_key kid) ttl val (l, s) = Ok (l1, s1)" "link_idle l1" "ready cfg n s1"
    "e_hits s1 + e_misses s1 = e_hits s + e_misses s + 1"
    "total entry_bytes (e_store s1) \<le> total entry_bytes (e_store s) + (length (bench_key kid) + length val + PER_ENTRY_OVERHEAD)"
    using access_served [OF ok Cons.prems(1,2) _ v g(3)] by blast
  have "headroom s1 ((21 + length val + PER_ENTRY_OVERHEAD) * length ops)"
    using Cons.prems(4) a(5) kl by (simp add: headroom_def algebra_simps)
  from Cons.IH [OF a(2,3) _ this, of r'] Cons.prems(3) g(1) a(1,4) show ?case by simp
qed simp

text \<open>INFO answers with the section of the counters.\<close>

lemma info_served:
  fixes x :: "'f conn_env"
  assumes ok: "\<forall>i. x_write_ok x i" and l: "link_idle l" and r: "ready cfg n s"
    and len: "length (info_stats (counted_call s)) \<le> nat i64_max"
  shows "\<exists>l' s'. link_send x (encode_command [''INFO'', ''stats'']) l s = Some (l', s')
    \<and> read_reply (l_unread l') = (Ok (RpBulk (info_stats (counted_call s))), []) \<and> keyspace_stats s' = keyspace_stats s"
proof -
  have a: "\<not> e_auth_required s" using r by (simp add: ready_def)
  let ?cmd = "Info (Some ''stats'') :: 'f command"
  have "frame_ok [''INFO'', ''stats'']" by (simp add: frame_ok_def MAX_BULK_LEN_def MAX_ARRAY_ELEMENTS_def)
  from parse_frame_encode [OF this, of "f_parse (pf_f64 (x_platform x))" "[]"]
  have p: "parse_frame (f_parse (pf_f64 (x_platform x))) (encode_command [''INFO'', ''stats'']) =
      Ok (Complete ?cmd (length (encode_command [''INFO'', ''stats''])))"
    by (simp add: build_dispatch)
  let ?ce = "x_calls x (c_frames (l_conn l))"
  have secs: "render_info_sections (x_platform x) ?ce (counted_call s) (Some ''stats'') = [(''stats'', info_stats (counted_call s))]"
    by (simp add: render_info_sections_def eq_ignore_ascii_case_def ascii_lower_def)
  obtain out msg s2 where ex: "execute_command (x_platform x) ?ce (Some (x_peer x)) Resp2 ?cmd s = ((out, msg), s2)"
    by (metis prod_cases3 prod.collapse)
  have out: "out = encode_bulk_string (info_stats (counted_call s))" and st: "keyspace_stats s2 = keyspace_stats s"
    using ex secs by (auto simp: execute_command_def info_reply_def maybe_push_slowlog_def keyspace_stats_def Let_def split: if_splits)
  from link_round_trip [OF ok l p _ _ _ _ ex] a obtain l' where
    "link_send x (encode_command [''INFO'', ''stats'']) l s = Some (l', s2)" "l_unread l' = out" by auto
  then show ?thesis using out st len by (auto simp: reply_here)
qed

lemma length_digits: "n \<le> u64_max \<Longrightarrow> length (show_nat n) \<le> 20"
  using length_show_nat [of n 19] by simp

lemma length_info_stats:
  assumes "unlogged s" "e_hits s \<le> u64_max" "e_misses s \<le> u64_max" "e_total_commands s \<le> u64_max"
  shows "length (info_stats s) \<le> nat i64_max"
proof -
  have z: "show_nat 0 = ''0''" by (simp add: show_nat.simps digit_char_def char_of_def bit_0)
  note d = length_digits [of "e_total_commands s"] length_digits [of "e_hits s"] length_digits [of "e_misses s"]
    length_digits [of "e_evicted_keys s"] length_digits [of "e_expired_keys s"] length_digits [of "e_aof_errors s"]
  have "length (info_stats s) \<le> 1000"
    using assms d by (simp add: info_stats_def keyspace_stats_def info_line_def unlogged_def z Let_def)
  then show ?thesis by simp
qed

lemma run_workload_served:
  fixes x :: "'f conn_env"
  assumes ok: "\<forall>i. x_write_ok x i" and r: "ready cfg n s" and v: "bp_value_size p \<le> n" "n \<le> VALUE_MAX_BYTES"
    and ids: "\<And>op r. \<exists>kid ttl r'. gen_id fo pattern op (bp_ops p) p cdfs r = Some ((kid, ttl), r') \<and> kid \<le> u64_max \<and> ttl \<le> nat i64_max"
    and new: "keyspace_stats s = (0, 0)" and ops: "0 < bp_ops p" "bp_ops p \<le> u64_max"
    and room: "headroom s ((21 + bp_value_size p + PER_ENTRY_OVERHEAD) * bp_ops p)"
  shows "\<exists>h s'. run_workload fo x pattern p cdfs s = Ok (bf_div fo (bf_of_u64 fo h) (bf_of_u64 fo (bp_ops p)), s')
    \<and> keyspace_stats s' = (h, bp_ops p - h) \<and> h \<le> bp_ops p"
proof -
  let ?val = "replicate (bp_value_size p) (CHR ''v'')"
  let ?r = "rng_new (of_nat (bp_seed p) XOR of_nat (pattern_number pattern) * 0x9E3779B9)"
  have z: "e_hits s = 0" "e_misses s = 0" using new by (simp_all add: keyspace_stats_def)
  obtain l1 s1 where a: "bench_loop fo x pattern p cdfs ?val [0..<bp_ops p] ?r (link_new, s) = Ok (l1, s1)" "link_idle l1"
    "ready cfg n s1" "e_hits s1 + e_misses s1 = bp_ops p"
    using loop_served [OF ok, of ?val n fo pattern p cdfs link_new cfg s "[0..<bp_ops p]" ?r] v ids r z ops room by auto
  have b: "e_hits s1 \<le> u64_max" "e_misses s1 \<le> u64_max" using a(4) ops by linarith+
  have len: "length (info_stats (counted_call s1)) \<le> nat i64_max"
    using a(3) b by (intro length_info_stats) (simp_all add: ready_def)
  obtain l2 s2 where i: "link_send x (encode_command [''INFO'', ''stats'']) l1 s1 = Some (l2, s2)"
    "read_reply (l_unread l2) = (Ok (RpBulk (info_stats (counted_call s1))), [])" "keyspace_stats s2 = keyspace_stats s1"
    using info_served [OF ok a(2,3) len] by blast
  have f: "''*2'' @ CRLF @ ''$4'' @ CRLF @ ''INFO'' @ CRLF @ ''$5'' @ CRLF @ ''stats'' @ CRLF = encode_command [''INFO'', ''stats'']"
    by (simp add: encode_command_def encode_part_def show_nat.simps digit_char_def char_of_def bit_0)
  have "parse_hit_ratio fo (info_stats (counted_call s1)) =
      Ok (bf_div fo (bf_of_u64 fo (e_hits s1)) (bf_of_u64 fo (bp_ops p)))"
    using parse_info_stats [of "counted_call s1" fo] b a(4) ops by simp
  then have "run_workload fo x pattern p cdfs s = Ok (bf_div fo (bf_of_u64 fo (e_hits s1)) (bf_of_u64 fo (bp_ops p)), s2)"
    using a(1) i(1,2) unfolding run_workload_def f by simp
  then show ?thesis using i(3) a(4) by (intro exI [of _ "e_hits s1"] exI [of _ s2]) (auto simp: keyspace_stats_def)
qed

end
