(* ===== verification/Client_Claims.thy ===== *)
theory Client_Claims
  imports Load_Run Hit_Run Samples
begin

text \<open>
  The properties of the client programs, each with a concrete run.
\<close>

section \<open>The load generator\<close>

definition sample_phase :: "nat \<Rightarrow> int phase_env" where
  "sample_phase base = \<lparr>pe_conn = (\<lambda>cid. sample_conn\<lparr>x_calls := (\<lambda>i. x_calls sample_conn (base + i))\<rparr>),
     pe_connected = (\<lambda>cid. True), pe_sched = [0, 1, 0]\<rparr>"

definition sample_load :: load_config where
  "sample_load = \<lparr>lg_addr = ''127.0.0.1:6399'', lg_clients = 2, lg_requests = 3, lg_value_size = 1\<rparr>"

definition sample_args :: "bytes list" where
  "sample_args = [''--clients'', ''2'', ''--requests'', ''3'', ''--value-size'', ''1'']"

lemma sample_load_args: "lg_parse_args sample_args = Ok (Some sample_load)"
  by (simp add: lg_parse_args_def sample_args_def sample_load_def lg_set_flag_def lg_parse_usize_def is_digit_def digit_val_def
      load_config_default_def)

lemma sample_share: "quota sample_load = (\<lambda>cid. if cid = 0 then 2 else if cid = 1 then 1 else 0)"
  by (rule ext) (simp add: quota_def client_share_def sample_load_def)

lemma sample_complete [simp]: "complete sample_load (pe_sched (sample_phase b))"
proof -
  have "client_share sample_load 0 = 2" "client_share sample_load 1 = 1" by (simp_all add: client_share_def sample_load_def)
  moreover have "cid < 2 \<longleftrightarrow> cid = 0 \<or> cid = 1" for cid :: nat by linarith
  ultimately show ?thesis by (auto simp: complete_def sample_phase_def sample_load_def)
qed

lemma sample_healthy [simp]: "healthy sample_load (sample_phase b)"
  using sample_complete [of b] by (simp add: healthy_def sample_phase_def conn_eval)

lemma sample_clock: "t \<le> b \<Longrightarrow> phase_clock (pe_conn (sample_phase b)) (quota sample_load) (\<lambda>_. 0) t (pe_sched (sample_phase b)) = Some (b + 1)"
  by (simp add: sample_phase_def sample_share conn_eval env_at_def env_ok_def)

lemma sample_bounds:
  "lg_value_size sample_load \<le> VALUE_MAX_BYTES" "3 * lg_requests sample_load \<le> u64_max" "in_i64 0"
  "0 + int (lg_requests sample_load) \<le> i64_max" "headroom engine0 (run_bytes sample_load)" "counts 0 (view 0 engine0)"
  by (simp_all add: sample_load_def VALUE_MAX_BYTES_def in_i64_def headroom_def run_bytes_def counts_def sample_eval
      PER_ENTRY_OVERHEAD_def)

lemma engine0_plain: "max_memory (e_eviction engine0) = 0" "\<not> e_auth_required engine0"
  by (simp_all add: engine_eval sample_eval)

lemma sample_clocks:
  "phase_clock (pe_conn (sample_phase 0)) (quota sample_load) (\<lambda>_. 0) 0 (pe_sched (sample_phase 0)) = Some 1"
  "phase_clock (pe_conn (sample_phase 1)) (quota sample_load) (\<lambda>_. 0) 1 (pe_sched (sample_phase 1)) = Some 2"
  "phase_clock (pe_conn (sample_phase 2)) (quota sample_load) (\<lambda>_. 0) 2 (pe_sched (sample_phase 2)) = Some 3"
  using sample_clock [of 0 0] sample_clock [of 1 1] sample_clock [of 2 2] by simp_all


text \<open>C20: Against a server without memory limit and password, with any number of concurrent clients in any
  schedule that finishes, the load generator succeeds: exit code 0, all requests of all three phases counted, no
  error; afterwards the shared counter has grown by exactly the number of INCR requests (no increment of
  any worker is lost) and every key of the SET phase holds its value.\<close>

theorem load_gen_succeeds:
  assumes "reachable s" "max_memory (e_eviction s) = 0" "\<not> e_auth_required s"
    and "lg_parse_args args = Ok (Some cf)" "lg_value_size cf \<le> VALUE_MAX_BYTES" "3 * lg_requests cf \<le> u64_max"
    and "counts n (view t s)" "in_i64 n" "n + int (lg_requests cf) \<le> i64_max"
    and "healthy cf pe1" "healthy cf pe2" "healthy cf pe3"
    and "phase_clock (pe_conn pe1) (quota cf) (\<lambda>_. 0) t (pe_sched pe1) = Some t1"
      "phase_clock (pe_conn pe2) (quota cf) (\<lambda>_. 0) t1 (pe_sched pe2) = Some t2"
      "phase_clock (pe_conn pe3) (quota cf) (\<lambda>_. 0) t2 (pe_sched pe3) = Some t3"
    and "headroom s (run_bytes cf)"
  shows "\<exists>s'. load_gen_main pe1 pe2 pe3 args s =
      (0, \<lparr>tot_set = lg_requests cf, tot_get = lg_requests cf, tot_incr = lg_requests cf, tot_errors = 0\<rparr>, s')
    \<and> counts (n + int (lg_requests cf)) (view t3 s') \<and> stored (lg_value_size cf) (quota cf) (view t3 s')"
proof -
  have "calm (e_eviction s) s" using assms(1-3) reachable_inv by (simp add: calm_def good_def)
  from load_gen_quiet [OF assms(4,5) this assms(7-16)] obtain tt s' where
    r: "load_gen_main pe1 pe2 pe3 args s = (0, tt, s')" "counts (n + int (lg_requests cf)) (view t3 s')"
      "stored (lg_value_size cf) (quota cf) (view t3 s')" by blast
  have "complete cf (pe_sched pe1)" "complete cf (pe_sched pe2)" "complete cf (pe_sched pe3)"
    using assms(10-12) by (simp_all add: healthy_def)
  from load_gen_accounts [OF assms(4,6) this r(1)] r show ?thesis by blast
qed

theorem load_gen_succeeds_witness:
  "\<exists>s'. load_gen_main (sample_phase 0) (sample_phase 1) (sample_phase 2) sample_args engine0 =
      (0, \<lparr>tot_set = 3, tot_get = 3, tot_incr = 3, tot_errors = 0\<rparr>, s')
    \<and> counts 3 (view 3 s') \<and> stored 1 (quota sample_load) (view 3 s')"
  using load_gen_succeeds [OF reachable_samples(1) engine0_plain sample_load_args sample_bounds(1,2,6,3,4)
      sample_healthy sample_healthy sample_healthy sample_clocks sample_bounds(5)]
  by (simp add: sample_load_def)



section \<open>The hit-ratio benchmark\<close>

definition params_ok :: "'f bench_params \<Rightarrow> bool" where
  "params_ok p \<longleftrightarrow> 0 < bp_working_set p \<and> bp_working_set p \<le> u64_max \<and> 0 < bp_capacity p \<and> bp_capacity p \<le> bp_working_set p
     \<and> 0 < bp_durable_pool p \<and> 0 < bp_ephemeral_pool p \<and> bp_durable_pool p + bp_ephemeral_pool p \<le> u64_max
     \<and> bp_durable_ttl_secs p \<le> nat i64_max \<and> bp_ephemeral_ttl_secs p \<le> nat i64_max
     \<and> 0 < bp_ops p \<and> bp_value_size p \<le> VALUE_MAX_BYTES
     \<and> (21 + bp_value_size p + PER_ENTRY_OVERHEAD) * bp_ops p \<le> u64_max"

text \<open>The server a run starts with: no data, no password, no log, some policy and memory limit.\<close>

definition fresh_server :: "(rat \<Rightarrow> rat) \<Rightarrow> nat \<Rightarrow> eviction_config \<Rightarrow> engine" where
  "fresh_server rnd nanos ec = set_eviction_config ec (engine_new rnd nanos)"

lemma fresh_ready: "ready ec n (fresh_server rnd nanos ec)" "keyspace_stats (fresh_server rnd nanos ec) = (0, 0)"
    "e_store (fresh_server rnd nanos ec) = []"
proof -
  have "reachable (fresh_server rnd nanos ec)"
    unfolding fresh_server_def by (rule reach_step [OF reach_new step_config])
  from reachable_inv [OF this]
  show "ready ec n (fresh_server rnd nanos ec)" "keyspace_stats (fresh_server rnd nanos ec) = (0, 0)"
    "e_store (fresh_server rnd nanos ec) = []"
    by (simp_all add: fresh_server_def ready_def good_def unlogged_def short_values_def keyspace_stats_def
        set_eviction_config_def engine_new_def Let_def)
qed

text \<open>C21: The hit ratio the benchmark reports is the measured one. For every pattern, policy and memory limit, evictions
  and refused writes included, the workload runs to its end on a fresh server; every one of its requests is counted
  once by the server, as a hit or as a miss; and the number printed is exactly hits divided by requests.\<close>

theorem hit_ratio_is_measured:
  assumes "\<forall>i. x_write_ok x i" "params_ok p" "bench_tables fo p = Some cdfs"
  shows "\<exists>h s'. run_workload fo x pattern p cdfs (fresh_server rnd nanos ec) =
      Ok (bf_div fo (bf_of_u64 fo h) (bf_of_u64 fo (bp_ops p)), s')
    \<and> keyspace_stats s' = (h, bp_ops p - h) \<and> h \<le> bp_ops p"
proof (rule run_workload_served [OF assms(1) fresh_ready(1) order_refl])
  have p: "0 < bp_working_set p" "0 < bp_capacity p" "bp_capacity p \<le> bp_working_set p" "0 < bp_durable_pool p"
    "0 < bp_ephemeral_pool p" "bp_durable_pool p + bp_ephemeral_pool p \<le> u64_max"
    using assms(2) by (simp_all add: params_ok_def)
  show "\<exists>kid ttl r'. gen_id fo pattern op (bp_ops p) p cdfs r = Some ((kid, ttl), r') \<and> kid \<le> u64_max \<and> ttl \<le> nat i64_max" for op r
    using gen_id_range [OF assms(3) p, of pattern op "bp_ops p" r] assms(2)
    by (force simp: params_ok_def split: if_splits)
  have "bp_ops p * 1 \<le> (21 + bp_value_size p + PER_ENTRY_OVERHEAD) * bp_ops p" by simp
  then show "bp_ops p \<le> u64_max" using assms(2) unfolding params_ok_def by linarith
qed (use assms(2) fresh_ready in \<open>simp_all add: params_ok_def headroom_def\<close>)

text \<open>Exact arithmetic and the exponent one stand for \<^verbatim>\<open>f64\<close> in the example.\<close>

definition sample_f64 :: "rat bench_f64" where
  "sample_f64 = \<lparr>bf_of_u64 = of_nat, bf_add = (+), bf_mul = (*), bf_div = (/), bf_powf = (\<lambda>b s. b), bf_less = (<),
     bf_parse = (\<lambda>_. None)\<rparr>"

abbreviation default_params :: "rat bench_params" where
  "default_params \<equiv> bc_params (bench_default 20 1 (7 / 10) (1 / 2))"

lemma default_params_ok: "params_ok default_params"
  by (simp add: params_ok_def bench_default_def VALUE_MAX_BYTES_def PER_ENTRY_OVERHEAD_def)

theorem hit_ratio_is_measured_witness:
  "\<exists>cdfs h s'. bench_tables sample_f64 default_params = Some cdfs \<and>
     run_workload sample_f64 sample_conn PTtlHeavy default_params cdfs
       (fresh_server (\<lambda>q. q) 0 \<lparr>max_memory = 1085000, policy = AllKeysSieve, samples = 5\<rparr>) = Ok (of_nat h / 3000, s')
     \<and> keyspace_stats s' = (h, 3000 - h) \<and> h \<le> 3000"
proof -
  obtain cdfs where t: "bench_tables sample_f64 default_params = Some cdfs"
    by (simp add: bench_tables_def bench_default_def)
  have "\<forall>i. x_write_ok sample_conn i" by (simp add: conn_eval)
  from hit_ratio_is_measured [OF this default_params_ok t, of PTtlHeavy "\<lambda>q. q" 0]
  show ?thesis using t by (auto simp: sample_f64_def bench_default_def)
qed

text \<open>C40: The servers the benchmark starts are the ones it means to compare: for each of its six policies the server accepts the
  command line and runs with that policy, no log, no password and no dashboard; and the memory limit admits exactly the
  configured number of the benchmark's entries.\<close>

theorem bench_servers_as_meant:
  assumes "bp_capacity p * (9 + bp_value_size p + PER_ENTRY_OVERHEAD) \<le> u64_max" "0 < bp_capacity p"
  shows "\<exists>a. cli_parse rd (server_argv pol (bench_max_memory p) addr) = Ok (Run a) \<and> ca_addr a = addr
    \<and> policy (cli_eviction_config a) = server_policy pol \<and> cli_aof_config a = None \<and> cli_dashboard_addr a = None
    \<and> ca_requirepass a = None
    \<and> (\<forall>st. (\<forall>(k, e)\<in>set st. \<exists>n<100000000. k = bench_key n \<and> length (data e) = bp_value_size p) \<longrightarrow>
         (total entry_bytes st \<le> max_memory (cli_eviction_config a) \<longleftrightarrow> length st \<le> bp_capacity p))"
proof -
  let ?b = "9 + bp_value_size p + PER_ENTRY_OVERHEAD"
  have "?b \<le> bp_capacity p * ?b" using assms(2) by (cases "bp_capacity p") simp_all
  then have "?b \<le> u64_max" using assms(1) by (rule order_trans)
  then have one: "bytes_per_entry (bp_value_size p) = ?b" by (simp add: bytes_per_entry_def)
  then have mem: "bench_max_memory p = bp_capacity p * ?b" "bench_max_memory p \<le> u64_max"
    using assms(1) by (simp_all add: bench_max_memory_def)
  obtain a where a: "cli_parse rd (server_argv pol (bench_max_memory p) addr) = Ok (Run a)" "ca_addr a = addr"
    "cli_eviction_config a = \<lparr>max_memory = bench_max_memory p, policy = server_policy pol, samples = samples eviction_config_default\<rparr>"
    "cli_aof_config a = None" "cli_dashboard_addr a = None" "ca_requirepass a = None"
    using server_argv_accepted [OF mem(2)] by blast
  have tot: "total entry_bytes st = length st * ?b"
    if "\<forall>(k, e)\<in>set st. \<exists>n<100000000. k = bench_key n \<and> length (data e) = bp_value_size p" for st
    using that
  proof (induction st)
    case (Cons ke st)
    obtain n where n: "n < 100000000" "fst ke = bench_key n" "length (data (snd ke)) = bp_value_size p"
      using Cons.prems by (cases ke) auto
    have "length (bench_key n) = 9" using n(1) length_show_nat [of n 7] by (simp add: length_bench_key max_def)
    then have "entry_bytes (fst ke) (snd ke) = ?b" using n(2,3) by (simp add: entry_bytes_def)
    then show ?case using Cons by simp
  qed simp
  have "0 < ?b" by simp
  then have "length st * ?b \<le> bp_capacity p * ?b \<longleftrightarrow> length st \<le> bp_capacity p" for st :: store by simp
  then show ?thesis using a mem(1) tot by (intro exI [of _ a]) simp
qed

theorem bench_servers_as_meant_witness:
  "\<exists>a. cli_parse (\<lambda>_. None) (server_argv BSieveS (bench_max_memory default_params) ''127.0.0.1:6391'') = Ok (Run a)
    \<and> policy (cli_eviction_config a) = AllKeysSieveS"
  using bench_servers_as_meant [of default_params "\<lambda>_. None" BSieveS "''127.0.0.1:6391''"]
  by (auto simp: bench_default_def PER_ENTRY_OVERHEAD_def)

end
