(* ===== verification/Spec2Isabelle.thy ===== *)
theory Spec2Isabelle
  imports Storage_Claims Network_Claims Admin_Claims Durability_Claims Concurrency_Claims Client_Claims
begin

text \<open>
  FerrumKV: a verification development.

  \<^bold>\<open>The program.\<close> FerrumKV is a Redis-compatible in-memory key-value server written in Rust. Clients talk RESP over
  TCP (\<^verbatim>\<open>src/src/network/server.rs\<close>, \<^verbatim>\<open>src/src/protocol\<close>); commands run on a shared engine
  (\<^verbatim>\<open>src/src/storage/engine\<close>) that keeps a hash map of entries with optional deadlines, a memory counter, and one
  of two eviction indices (\<^verbatim>\<open>sieve.rs\<close>, \<^verbatim>\<open>adaptive_climb.rs\<close>) or a sampling policy (\<^verbatim>\<open>eviction.rs\<close>); writes are
  appended to a log (\<^verbatim>\<open>src/src/persistence/writer.rs\<close>) that is replayed at start (\<^verbatim>\<open>replay.rs\<close>) and compacted in the
  background; an operator configures the server by file and command line (\<^verbatim>\<open>config/file.rs\<close>, \<^verbatim>\<open>cli.rs\<close>) and watches
  it through a small HTTP dashboard (\<^verbatim>\<open>network/dashboard\<close>).

  \<^bold>\<open>The theories and what they model.\<close>
  \<^item> \<open>Prelude\<close>: bytes (characters), the error enum of \<^verbatim>\<open>error/kind.rs\<close>, machine bounds, decimal numbers, association
    lists and the memory sum over them.
  \<^item> \<open>Eviction\<close>, \<open>Entry\<close>: policies, victim selection among samples, the LFU word, the adaptive controller; entries,
    validation, sampling, the xorshift generator, password comparison (\<^verbatim>\<open>eviction.rs\<close>, \<^verbatim>\<open>engine/entry.rs\<close>,
    \<^verbatim>\<open>engine/util.rs\<close>, \<^verbatim>\<open>engine/types.rs\<close>).
  \<^item> \<open>Index_Map\<close>, \<open>Sieve\<close>, \<open>AdaptiveClimb\<close>: the ordered map the indices use, the locale \<open>eviction_index\<close> with the
    contract of an index, and the two indices, each an interpretation of it (\<open>sv\<close>, \<open>ac\<close>).
  \<^item> \<open>AofWriter\<close>: the log encoding, appends, the fsync barrier, the rewrite protocol, over a scripted operating
    system; the locale \<open>append_log\<close> and its interpretation \<open>aof\<close>.
  \<^item> \<open>Engine\<close>, \<open>WriteGuard\<close>, \<open>Commands\<close>, \<open>Glob\<close>: the engine record, configuration, slow log, accounting and eviction
    loop (\<^verbatim>\<open>engine/mod.rs\<close>); the operations under the write lock (\<^verbatim>\<open>engine/write_guard.rs\<close>); the public commands,
    active expiry and the rewrite worker (\<^verbatim>\<open>engine/mod.rs\<close>, \<^verbatim>\<open>expire.rs\<close>); glob patterns.
  \<^item> \<open>Keyspace\<close>, \<open>Reachable\<close>: the abstract keyspace (a map from keys to a value and a deadline) with one abstract step
    per command, the refinement of every command to it, the step relation of the engine, its reachable states
    and their invariant, and runs of commands. \<open>Sweep\<close>: what repeated sweeps of the active expiry achieve.
  \<^item> \<open>Journal\<close>, \<open>Recovery\<close>, \<open>Rewrite\<close>, \<open>Startup\<close>: the locale \<open>writer_contract\<close>, through which an invariant of the writer
    is carried along every command; the meaning of a log; that every command keeps the log in step with the store;
    that replay rebuilds it; that a rewrite under load keeps it; the engine set-up of \<^verbatim>\<open>main.rs\<close> and servers that
    are restarted any number of times.
  \<^item> \<open>Parser\<close>, \<open>Encoder\<close>, \<open>Replay\<close>: requests (\<^verbatim>\<open>protocol/parser.rs\<close>), replies (\<^verbatim>\<open>protocol/encoder.rs\<close>), the log reader
    (\<^verbatim>\<open>persistence/replay.rs\<close>).
  \<^item> \<open>Server\<close>, \<open>Connection\<close>, \<open>Conversation\<close>, \<open>Monitor\<close>: command execution with every arm of \<^verbatim>\<open>execute_command\<close>,
    \<^verbatim>\<open>INFO\<close>, \<^verbatim>\<open>CONFIG\<close>, \<^verbatim>\<open>SLOWLOG\<close>; \<^verbatim>\<open>handle_client\<close> with its receive and reply buffers and the connection counter; a
    whole pipelined conversation; the registry of monitoring clients and their stream.
  \<^item> \<open>Config_File\<close>, \<open>Cli\<close>, \<open>Dash_Codec\<close>, \<open>Dashboard\<close>: the configuration file, the command line, the dashboard's codecs,
    access control, routes and read loops.
  \<^item> \<open>Group_Commit\<close>, \<open>Lifecycle\<close>: threads. The group commit of the log, in which several writers share one fsync
    (\<^verbatim>\<open>writer.rs\<close>), as a step relation over program counters with an executable scheduler; the shutdown flag with
    its waiters (\<^verbatim>\<open>shutdown.rs\<close>), the sweeper and flusher threads (\<^verbatim>\<open>expire.rs\<close>, \<^verbatim>\<open>writer.rs\<close>), the accept loops of the
    server and the dashboard, and the end of \<^verbatim>\<open>main\<close>.
  \<^item> \<open>Client_Link\<close>, \<open>Load_Gen\<close>, \<open>Load_Run\<close>, \<open>Hit_Ratio\<close>, \<open>Hit_Run\<close>: the client programs. A blocking client at the
    other end of a modelled connection; the load generator (\<^verbatim>\<open>src/examples/load_gen.rs\<close>) with its worker threads as
    schedules, the locale \<open>quiet_phase\<close> with what a phase relies on and its three interpretations (\<open>set_phase\<close>, \<open>get_phase\<close>,
    \<open>incr_phase\<close>); the hit-ratio benchmark (\<^verbatim>\<open>src/examples/hit_ratio_bench.rs\<close>) with its key sequences, its read-through
    client and the command line of the servers it starts.
  \<^item> \<open>Samples\<close>: concrete clocks, engines and a connection, and the bundles that evaluate commands on them.
  \<^item> \<open>Storage_Claims\<close>, \<open>Network_Claims\<close>, \<open>Admin_Claims\<close>, \<open>Durability_Claims\<close>, \<open>Concurrency_Claims\<close>,
    \<open>Client_Claims\<close> and this theory: the properties, each with a concrete instance where it has hypotheses, and
    further lemmas of the same kind.

  \<^bold>\<open>How state and effects are represented.\<close> A struct is a record, an enum a datatype with the source's variants;
  a handler takes the state and returns it updated. Bytes are characters and a \<^verbatim>\<open>Vec<u8>\<close> is a list of them; 64-bit
  counters are natural numbers with \<open>wrap_u64\<close> written out, the LFU word and the generator state are words. The hash map
  is an association list without repeated keys whose order is not relied on: \<open>engine_step\<close> may permute it. \<^verbatim>\<open>f32\<close> values
  are rationals with the rounding function as an argument; \<^verbatim>\<open>f64\<close> is a record of operations, an argument of
  \<^verbatim>\<open>INCRBYFLOAT\<close>. An instant is a number of nanoseconds. Every critical section of the engine has an environment (\<open>env\<close>)
  with the clock readings the code takes in it. Errors are the left side of a sum; every early return and every
  failing I/O call is a branch. The operating system under the log writer is a script of outcomes, so partial writes
  and failing fsyncs are inputs of the theorems.

  \<^bold>\<open>Loops, fuel and bounds.\<close> Loops are recursive functions with their termination proved. The eviction loop has the
  bound of the code (the number of keys, at least one, plus 16), and \<open>set_succeeds_by_evicting\<close> shows it is never the
  reason a write fails; the SIEVE scan has the bound of the code (the length of the queue plus one), and
  \<open>sieve_evict_is_ring_scan\<close> and \<open>indices_find_victims\<close> show it is enough. Replies nest at most three deep, which is the
  fuel of the reply decoder used to state \<open>reply_is_one_value\<close>. Loops that wait for a flag are partial functions that
  return nothing when the flag is never set; a run of the group commit is bounded by ten steps for each writer.

  \<^bold>\<open>What the properties show.\<close> Functional correctness end to end: a client that pipelines data commands receives the
  replies of the abstract keyspace, however its bytes are cut into reads. Storage: the memory counter is exact in
  every reachable state, a write respects the limit or is refused without storing, eviction makes progress under every
  policy, both indices refine their textbook algorithm and lose no key. Durability: acknowledged writes are synced,
  also when writers share an fsync; a torn log is recovered; restarts and rewrites, any number of them, keep keys,
  values and deadlines; a clean exit leaves nothing unsynced. Protocol: requests and replies are framed unambiguously. Security: without the password, or
  without the dashboard token, the engine is neither changed nor revealed. Threads: the group commit ends, no task
  misses the shutdown, the accept loop admits exactly up to the limit, a monitor gets every command. Clients: the load
  generator succeeds on an undisturbed server and loses no increment of its concurrent workers, and never reports a
  success it has not seen; the hit ratio of the benchmark is the measured one, and its servers run as configured. Some properties state behaviour the code should not have (a key that \<^verbatim>\<open>PERSIST\<close> hides from eviction,
  \<^verbatim>\<open>MONITOR\<close> without password, a reply injected through \<^verbatim>\<open>CONFIG SET\<close>, forged monitor lines, a live key lost by a restart, a
  write acknowledged too early next to a rewrite, a process that hangs when its listener cannot start).

  \<^bold>\<open>Code outside the repository.\<close> \<^verbatim>\<open>tokio::sync::Notify\<close> and tokio's unbounded channels are arguments of the model;
  \<open>notify_laws\<close> and \<open>mpsc_laws\<close> state the documented behaviour the code relies on, and the examples instantiate them with
  a counter and a queue. Parsing and printing of \<^verbatim>\<open>f64\<close> are arguments as well,
  and so is the \<^verbatim>\<open>f64\<close> arithmetic of the benchmark.

  \<^bold>\<open>Not modelled.\<close> The tokio runtime and the sockets themselves, the listen backlog, logging and the thread that waits
  for signals (a signal is a trigger of the shutdown); how long condition variables sleep. The two timing
  harnesses of \<^verbatim>\<open>src/benches\<close>, the pacing, timing and process handling of the client programs, the tests and the
  dashboard's HTML page. The text of operating-system errors. Poisoned locks and panics. Interleaving
  inside one engine command is not modelled except where two critical sections of a read are separated by the release
  of a lock; commands are atomic, as the keyspace lock makes them, and dashboard requests are served one after another.
\<close>

section \<open>The storage engine\<close>



text \<open>C2: The engine without a memory limit is an abstract map with deadlines: along every run of
  commands with clocks that do not go backwards, the replies of the engine are the replies of the
  abstract keyspace, in which an expired key is absent, whatever the lazy and active expiry did.\<close>

theorem trace_refinement:
  assumes "reachable s" "max_memory (e_eviction s) = 0" "trace_ok t tr s"
  shows "fst (run_trace tr s) = spec_trace tr (view t s)"
  by (rule run_trace_refines [of "e_eviction s"])
    (use assms reachable_inv in \<open>simp_all add: good_def\<close>)

theorem trace_refinement_witness:
  "fst (run_trace [(env_at 1, env_at 1, OSet ''a'' ''41''), (env_at 2, env_at 2, OIncrBy ''a'' 1),
      (env_at 3, env_at 3, OExpireAt ''a'' 1001), (env_at 2000000, env_at 2000000, OGet ''a'')] engine0)
   = [RBulk None, RInt 42, RBool True, RBulk None]"
proof -
  let ?tr = "[(env_at 1, env_at 1, OSet ''a'' ''41''), (env_at 2, env_at 2, OIncrBy ''a'' 1),
      (env_at 3, env_at 3, OExpireAt ''a'' 1001), (env_at 2000000, env_at 2000000, OGet ''a'')]"
  have "trace_ok 0 ?tr engine0"
    by (simp add: engine_eval engine0_def engine_new_def env_at_def)
  moreover have "reachable engine0" "max_memory (e_eviction engine0) = 0"
    by (simp_all add: engine0_def reach_new) (simp add: engine_new_def eviction_config_default_def)
  ultimately have "fst (run_trace ?tr engine0) = spec_trace ?tr (view 0 engine0)"
    by (intro trace_refinement)
  also have "\<dots> = [RBulk None, RInt 42, RBool True, RBulk None]"
    by (simp add: engine_eval engine0_def engine_new_def env_at_def valid_pair_def expire_to_def)
  finally show ?thesis .
qed

end
